(* ===== verification/Rust_Str.thy ===== *)
theory Rust_Str
  imports Prelude "HOL-Library.Char_ord" "HOL-Library.List_Lexorder"
begin

section \<open>Rust strings\<close>

text \<open>
  A Rust \<open>String\<close> is its UTF-8 bytes: here a \<open>string\<close> whose \<open>char\<close>s are the
  bytes. \<open>chars\<close> cuts it into its characters, each the group of a leading byte and
  the continuation bytes (\<open>0x80..0xBF\<close>) after it, which on UTF-8 is what
  \<open>str::chars\<close> iterates over. The operations below are the ones of the standard
  library that the client calls: \<open>trim\<close>, \<open>split\<close>, \<open>split_whitespace\<close>,
  \<open>rsplit\<close>, \<open>strip_prefix\<close>, \<open>contains\<close>, \<open>to_ascii_uppercase\<close>,
  \<open>join\<close> and the padding of \<open>format!\<close>.
\<close>

subsection \<open>Characters\<close>

definition is_cont :: "char \<Rightarrow> bool" where
  "is_cont c \<longleftrightarrow> 128 \<le> (of_char c :: nat) \<and> (of_char c :: nat) < 192"

lemma length_dropWhile_less [termination_simp]: "length (dropWhile P xs) < Suc (length xs)"
  by (simp add: length_dropWhile_le less_Suc_eq_le)

fun chars :: "string \<Rightarrow> string list" where
  "chars [] = []"
| "chars (c # cs) = (c # takeWhile is_cont cs) # chars (dropWhile is_cont cs)"

definition char_count :: "string \<Rightarrow> nat" where
  "char_count s = length (chars s)"

text \<open>\<open>str::is_char_boundary\<close>: slicing a string at \<open>i\<close> panics where this fails.\<close>

definition is_char_boundary :: "string \<Rightarrow> nat \<Rightarrow> bool" where
  "is_char_boundary s i \<longleftrightarrow> i = length s \<or> (i < length s \<and> \<not> is_cont (s ! i))"

definition str_slice :: "string \<Rightarrow> nat \<Rightarrow> nat \<Rightarrow> string option" where
  "str_slice s i j =
     (if i \<le> j \<and> is_char_boundary s i \<and> is_char_boundary s j
      then Some (take (j - i) (drop i s)) else None)"

subsection \<open>White space\<close>

text \<open>The Unicode property White_Space, each character as its UTF-8 bytes.\<close>

definition white_space :: "string list" where
  "white_space =
     [[CHR 0x09], [CHR 0x0A], [CHR 0x0B], [CHR 0x0C], [CHR 0x0D], [CHR 0x20],
      [CHR 0xC2, CHR 0x85], [CHR 0xC2, CHR 0xA0], [CHR 0xE1, CHR 0x9A, CHR 0x80],
      [CHR 0xE2, CHR 0x80, CHR 0x80], [CHR 0xE2, CHR 0x80, CHR 0x81],
      [CHR 0xE2, CHR 0x80, CHR 0x82], [CHR 0xE2, CHR 0x80, CHR 0x83],
      [CHR 0xE2, CHR 0x80, CHR 0x84], [CHR 0xE2, CHR 0x80, CHR 0x85],
      [CHR 0xE2, CHR 0x80, CHR 0x86], [CHR 0xE2, CHR 0x80, CHR 0x87],
      [CHR 0xE2, CHR 0x80, CHR 0x88], [CHR 0xE2, CHR 0x80, CHR 0x89],
      [CHR 0xE2, CHR 0x80, CHR 0x8A], [CHR 0xE2, CHR 0x80, CHR 0xA8],
      [CHR 0xE2, CHR 0x80, CHR 0xA9], [CHR 0xE2, CHR 0x80, CHR 0xAF],
      [CHR 0xE2, CHR 0x81, CHR 0x9F], [CHR 0xE3, CHR 0x80, CHR 0x80]]"

definition is_white :: "string \<Rightarrow> bool" where
  "is_white g \<longleftrightarrow> g \<in> set white_space"

definition trim_start :: "string \<Rightarrow> string" where
  "trim_start s = concat (dropWhile is_white (chars s))"

definition trim_end :: "string \<Rightarrow> string" where
  "trim_end s = concat (rev (dropWhile is_white (rev (chars s))))"

definition trim :: "string \<Rightarrow> string" where
  "trim s = trim_end (trim_start s)"

subsection \<open>Splitting and searching\<close>

fun split_on :: "char \<Rightarrow> string \<Rightarrow> string list" where
  "split_on c [] = [[]]"
| "split_on c (x # xs) =
     (if x = c then [] # split_on c xs
      else case split_on c xs of [] \<Rightarrow> [[x]] | w # ws \<Rightarrow> (x # w) # ws)"

definition rsplit :: "char \<Rightarrow> string \<Rightarrow> string list" where
  "rsplit c s = rev (split_on c s)"

fun split_white :: "string list \<Rightarrow> string list" where
  "split_white [] = [[]]"
| "split_white (g # gs) =
     (if is_white g then [] # split_white gs
      else case split_white gs of [] \<Rightarrow> [g] | w # ws \<Rightarrow> (g @ w) # ws)"

definition split_whitespace :: "string \<Rightarrow> string list" where
  "split_whitespace s = filter (\<lambda>w. w \<noteq> []) (split_white (chars s))"

definition starts_with :: "string \<Rightarrow> string \<Rightarrow> bool" where
  "starts_with p s \<longleftrightarrow> take (length p) s = p"

definition strip_prefix :: "string \<Rightarrow> string \<Rightarrow> string option" where
  "strip_prefix p s = (if starts_with p s then Some (drop (length p) s) else None)"

fun str_contains :: "string \<Rightarrow> string \<Rightarrow> bool" where
  "str_contains p [] = (p = [])"
| "str_contains p (c # cs) = (starts_with p (c # cs) \<or> str_contains p cs)"

fun find_map :: "('a \<Rightarrow> 'b option) \<Rightarrow> 'a list \<Rightarrow> 'b option" where
  "find_map f [] = None"
| "find_map f (x # xs) = (case f x of Some y \<Rightarrow> Some y | None \<Rightarrow> find_map f xs)"

subsection \<open>ASCII classes and formatting\<close>

definition is_ascii_whitespace :: "char \<Rightarrow> bool" where
  "is_ascii_whitespace c \<longleftrightarrow>
     c \<in> {CHR 0x20, CHR 0x09, CHR 0x0A, CHR 0x0C, CHR 0x0D}"

definition is_ascii_lower :: "char \<Rightarrow> bool" where
  "is_ascii_lower c \<longleftrightarrow> 97 \<le> (of_char c :: nat) \<and> (of_char c :: nat) \<le> 122"

definition is_ascii_upper :: "char \<Rightarrow> bool" where
  "is_ascii_upper c \<longleftrightarrow> 65 \<le> (of_char c :: nat) \<and> (of_char c :: nat) \<le> 90"

definition is_ascii_alphanumeric :: "char \<Rightarrow> bool" where
  "is_ascii_alphanumeric c \<longleftrightarrow> is_digit c \<or> is_ascii_lower c \<or> is_ascii_upper c"

definition ascii_upper :: "char \<Rightarrow> char" where
  "ascii_upper c = (if is_ascii_lower c then char_of ((of_char c :: nat) - 32) else c)"

definition to_ascii_uppercase :: "string \<Rightarrow> string" where
  "to_ascii_uppercase s = map ascii_upper s"

fun join :: "string \<Rightarrow> string list \<Rightarrow> string" where
  "join sep [] = []"
| "join sep [x] = x"
| "join sep (x # y # ys) = x @ sep @ join sep (y # ys)"

text \<open>\<open>{:<w$}\<close> and \<open>{:>w$}\<close> count characters, not bytes.\<close>

definition pad_right :: "nat \<Rightarrow> string \<Rightarrow> string" where
  "pad_right w s = s @ replicate (w - char_count s) CHR '' ''"

definition pad_left :: "char \<Rightarrow> nat \<Rightarrow> string \<Rightarrow> string" where
  "pad_left c w s = replicate (w - char_count s) c @ s"

text \<open>\<open>{:0w}\<close> of an integer: zeros between the sign and the digits.\<close>

definition show_int_pad :: "nat \<Rightarrow> int \<Rightarrow> string" where
  "show_int_pad w i =
     (let d = digits (nat \<bar>i\<bar>); sign = (if i < 0 then ''-'' else [])
      in sign @ replicate (w - (length sign + length d)) CHR ''0'' @ d)"

subsection \<open>Facts about characters\<close>

text \<open>
  A list of groups is well formed when every group but the first starts with a byte that
  is not a continuation, and continues with continuations.
\<close>

definition char_group :: "string \<Rightarrow> bool" where
  "char_group g \<longleftrightarrow> g \<noteq> [] \<and> \<not> is_cont (hd g) \<and> list_all is_cont (tl g)"

fun wf_groups :: "string list \<Rightarrow> bool" where
  "wf_groups [] \<longleftrightarrow> True"
| "wf_groups (g # gs) \<longleftrightarrow> g \<noteq> [] \<and> list_all is_cont (tl g) \<and> list_all char_group gs"

lemma dropWhile_head: "dropWhile P xs = x # ys \<Longrightarrow> \<not> P x"
  using hd_dropWhile [of P xs] by auto

lemma concat_chars [simp]: "concat (chars s) = s"
  by (induction s rule: chars.induct) simp_all

lemma list_all_char_group_chars:
  "(case s of [] \<Rightarrow> True | c # _ \<Rightarrow> \<not> is_cont c) \<Longrightarrow> list_all char_group (chars s)"
proof (induction s rule: chars.induct)
  case 1
  show ?case by simp
next
  case (2 c cs)
  have "list_all char_group (chars (dropWhile is_cont cs))"
  proof (rule "2.IH")
    show "case dropWhile is_cont cs of [] \<Rightarrow> True | c # _ \<Rightarrow> \<not> is_cont c"
      by (auto split: list.split dest: dropWhile_head)
  qed
  with "2.prems" show ?case
    by (auto simp: char_group_def list_all_iff dest: set_takeWhileD)
qed

lemma wf_groups_chars: "wf_groups (chars s)"
proof (cases s)
  case Nil
  then show ?thesis by simp
next
  case (Cons c cs)
  have "list_all char_group (chars (dropWhile is_cont cs))"
    by (rule list_all_char_group_chars) (auto split: list.split dest: dropWhile_head)
  with Cons show ?thesis
    by (auto simp: list_all_iff dest: set_takeWhileD)
qed

lemma list_all_char_group_wf: "list_all char_group gs \<Longrightarrow> wf_groups gs"
  by (cases gs) (auto simp: char_group_def)

lemma takeWhile_cont_group:
  "list_all is_cont cs \<Longrightarrow> list_all char_group gs \<Longrightarrow> takeWhile is_cont (cs @ concat gs) = cs"
  by (cases gs)
    (auto simp: takeWhile_append2 list_all_iff char_group_def neq_Nil_conv)

lemma dropWhile_cont_group:
  "list_all is_cont cs \<Longrightarrow> list_all char_group gs \<Longrightarrow> dropWhile is_cont (cs @ concat gs) = concat gs"
  by (cases gs)
    (auto simp: dropWhile_append2 list_all_iff char_group_def neq_Nil_conv)

lemma chars_concat: "wf_groups gs \<Longrightarrow> chars (concat gs) = gs"
proof (induction gs)
  case Nil
  show ?case by simp
next
  case (Cons g gs)
  then obtain c cs where g: "g = c # cs" and cs: "list_all is_cont cs"
    and gs: "list_all char_group gs"
    by (auto simp: neq_Nil_conv)
  then have "chars (concat gs) = gs"
    using Cons.IH list_all_char_group_wf by blast
  with g cs gs show ?case
    by (simp add: takeWhile_cont_group dropWhile_cont_group)
qed

lemma wf_groups_dropWhile: "wf_groups gs \<Longrightarrow> wf_groups (dropWhile P gs)"
proof (cases "dropWhile P gs = gs")
  case False
  assume wf: "wf_groups gs"
  from False obtain g gs' where gs: "gs = g # gs'" and P: "P g"
    by (cases gs) (auto split: if_splits)
  have "list_all char_group (dropWhile P gs')"
    using wf gs by (auto simp: list_all_iff dest: set_dropWhileD)
  with gs P show ?thesis by (simp add: list_all_char_group_wf)
qed simp

lemma wf_groups_take: "wf_groups gs \<Longrightarrow> wf_groups (take n gs)"
  by (cases gs; cases n) (auto simp: list_all_iff dest: in_set_takeD)

lemma rev_dropWhile_rev_take: "\<exists>n. rev (dropWhile P (rev xs)) = take n xs"
proof -
  have "rev (dropWhile P (rev xs)) @ rev (takeWhile P (rev xs)) = rev (takeWhile P (rev xs) @ dropWhile P (rev xs))"
    by (simp only: rev_append)
  also have "\<dots> = xs" by simp
  finally have "take (length (rev (dropWhile P (rev xs)))) xs = rev (dropWhile P (rev xs))"
    by (metis append_eq_conv_conj)
  then show ?thesis by metis
qed

lemma wf_groups_trim_end: "wf_groups gs \<Longrightarrow> wf_groups (rev (dropWhile P (rev gs)))"
  using rev_dropWhile_rev_take [of P gs] wf_groups_take by metis

lemma chars_trim_start: "chars (trim_start s) = dropWhile is_white (chars s)"
  by (simp add: trim_start_def chars_concat wf_groups_dropWhile wf_groups_chars)

lemma chars_trim_end: "chars (trim_end s) = rev (dropWhile is_white (rev (chars s)))"
  by (simp add: trim_end_def chars_concat wf_groups_trim_end wf_groups_chars)

lemma chars_trim:
  "chars (trim s) = rev (dropWhile is_white (rev (dropWhile is_white (chars s))))"
  by (simp add: trim_def chars_trim_end chars_trim_start)

lemma chars_Nil_iff [simp]: "chars s = [] \<longleftrightarrow> s = []"
  by (cases s) simp_all

text \<open>The first and the last character of a trimmed string are not white space.\<close>

lemma trim_hd_not_white: "trim s \<noteq> [] \<Longrightarrow> \<not> is_white (hd (chars (trim s)))"
proof -
  let ?d = "dropWhile is_white (chars s)"
  assume "trim s \<noteq> []"
  then have ne: "rev (dropWhile is_white (rev ?d)) \<noteq> []"
    using chars_trim [of s] by (metis chars_Nil_iff)
  obtain n where n: "rev (dropWhile is_white (rev ?d)) = take n ?d"
    using rev_dropWhile_rev_take by blast
  with ne have "hd (take n ?d) = hd ?d" and "?d \<noteq> []"
    by auto
  with n show ?thesis
    using hd_dropWhile [of is_white "chars s"] by (simp add: chars_trim)
qed

lemma trim_last_not_white: "trim s \<noteq> [] \<Longrightarrow> \<not> is_white (last (chars (trim s)))"
proof -
  let ?d = "dropWhile is_white (chars s)"
  assume "trim s \<noteq> []"
  then have "dropWhile is_white (rev ?d) \<noteq> []"
    using chars_trim [of s] by (metis chars_Nil_iff rev.simps(1))
  then show ?thesis
    using hd_dropWhile [of is_white "rev ?d"] by (simp add: chars_trim last_rev)
qed

lemma dropWhile_id_hd: "(xs \<noteq> [] \<Longrightarrow> \<not> P (hd xs)) \<Longrightarrow> dropWhile P xs = xs"
  by (cases xs) auto

lemma trim_fixed:
  assumes "s \<noteq> [] \<Longrightarrow> \<not> is_white (hd (chars s))"
    and "s \<noteq> [] \<Longrightarrow> \<not> is_white (last (chars s))"
  shows "trim s = s"
proof -
  have a: "dropWhile is_white (chars s) = chars s"
    using assms(1) by (intro dropWhile_id_hd) simp
  have b: "dropWhile is_white (rev (chars s)) = rev (chars s)"
    using assms(2) by (intro dropWhile_id_hd) (simp add: hd_rev)
  have "chars (trim s) = chars s"
    by (simp add: chars_trim a b)
  then show ?thesis
    by (metis concat_chars)
qed

lemma trim_idem [simp]: "trim (trim s) = trim s"
  by (rule trim_fixed) (simp_all add: trim_hd_not_white trim_last_not_white)

subsection \<open>Facts about splitting\<close>

lemma split_on_nonempty [simp]: "split_on c s \<noteq> []"
  by (induction s) (auto split: list.split)

lemma rsplit_nonempty [simp]: "rsplit c s \<noteq> []"
  by (simp add: rsplit_def)

lemma split_on_no_sep: "c \<notin> set s \<Longrightarrow> split_on c s = [s]"
  by (induction s) auto

lemma split_on_append_sep: "c \<notin> set s \<Longrightarrow> split_on c (s @ c # t) = s # split_on c t"
  by (induction s) auto

lemma hd_rsplit_no_sep: "c \<notin> set s \<Longrightarrow> hd (rsplit c s) = s"
  by (simp add: rsplit_def split_on_no_sep)

lemma split_on_append: "split_on c (s @ c # t) = split_on c s @ split_on c t"
  by (induction s) (auto split: list.split)

lemma last_split_on_append: "last (split_on c (s @ c # t)) = last (split_on c t)"
  by (simp add: split_on_append)

lemma hd_rsplit_qualified: "c \<notin> set t \<Longrightarrow> hd (rsplit c (s @ c # t)) = t"
  by (simp add: rsplit_def hd_rev last_split_on_append split_on_no_sep)

lemma strip_prefix_append [simp]: "strip_prefix p (p @ s) = Some s"
  by (simp add: strip_prefix_def starts_with_def)

lemma starts_with_append [simp]: "starts_with p (p @ s)"
  by (simp add: starts_with_def)

lemma str_contains_append: "str_contains p (a @ p @ b)"
proof (induction a)
  case Nil
  show ?case
  proof (cases "p @ b")
    case (Cons c cs)
    then have "starts_with p (c # cs)"
      by (metis append_eq_conv_conj starts_with_def)
    with Cons show ?thesis by simp
  qed simp
next
  case (Cons x a)
  then show ?case by simp
qed

lemma starts_with_iff: "starts_with p s \<longleftrightarrow> (\<exists>t. s = p @ t)"
  by (auto simp: starts_with_def) (metis append_take_drop_id)

lemma str_contains_iff: "str_contains p s \<longleftrightarrow> (\<exists>a b. s = a @ p @ b)"
proof
  show "str_contains p s \<Longrightarrow> \<exists>a b. s = a @ p @ b"
  proof (induction s)
    case Nil
    then show ?case by simp
  next
    case (Cons c s)
    show ?case
    proof (cases "starts_with p (c # s)")
      case True
      then obtain t where "c # s = p @ t" by (auto simp: starts_with_iff)
      then have "c # s = [] @ p @ t" by simp
      then show ?thesis by blast
    next
      case False
      with Cons obtain a b where "s = a @ p @ b" by auto
      then have "c # s = (c # a) @ p @ b" by simp
      then show ?thesis by blast
    qed
  qed
qed (auto simp: str_contains_append)

lemma find_map_None_iff: "find_map f xs = None \<longleftrightarrow> (\<forall>x\<in>set xs. f x = None)"
  by (induction xs) (auto split: option.split)

subsection \<open>Facts about padding\<close>

definition ascii :: "string \<Rightarrow> bool" where
  "ascii s \<longleftrightarrow> list_all (\<lambda>c. (of_char c :: nat) < 128) s"

lemma ascii_simps [simp]:
  "ascii []" "ascii (c # s) \<longleftrightarrow> (of_char c :: nat) < 128 \<and> ascii s"
  "ascii (s @ t) \<longleftrightarrow> ascii s \<and> ascii t"
  by (simp_all add: ascii_def)

lemma ascii_replicate: "(of_char c :: nat) < 128 \<Longrightarrow> ascii (replicate n c)"
  by (simp add: ascii_def list_all_iff)

lemma not_cont_ascii: "(of_char c :: nat) < 128 \<Longrightarrow> \<not> is_cont c"
  by (simp add: is_cont_def)

text \<open>Without continuations at its start, a string adds its characters to any before it.\<close>

definition clean_start :: "string \<Rightarrow> bool" where
  "clean_start s \<longleftrightarrow> s = [] \<or> \<not> is_cont (hd s)"

lemma chars_append: "clean_start t \<Longrightarrow> chars (s @ t) = chars s @ chars t"
proof (cases "s = []")
  case False
  assume t: "clean_start t"
  then have "list_all char_group (chars t)"
    by (intro list_all_char_group_chars) (auto simp: clean_start_def split: list.split)
  with False have "wf_groups (chars s @ chars t)"
    using wf_groups_chars [of s] by (cases "chars s") auto
  then have "chars (concat (chars s @ chars t)) = chars s @ chars t"
    by (rule chars_concat)
  then show ?thesis by simp
qed simp

lemma char_count_append: "clean_start t \<Longrightarrow> char_count (s @ t) = char_count s + char_count t"
  by (simp add: char_count_def chars_append)

lemma clean_start_ascii: "ascii s \<Longrightarrow> clean_start s"
  by (cases s) (auto simp: clean_start_def not_cont_ascii)

lemma char_count_ascii: "ascii s \<Longrightarrow> char_count s = length s"
proof (induction s)
  case Nil
  show ?case by (simp add: char_count_def)
next
  case (Cons c s)
  then have "char_count ([c] @ s) = char_count [c] + char_count s"
    by (intro char_count_append clean_start_ascii) simp
  with Cons show ?case by (simp add: char_count_def)
qed

lemma char_count_pad_right: "char_count (pad_right w s) = max w (char_count s)"
proof -
  have a: "ascii (replicate (w - char_count s) CHR '' '')"
    by (rule ascii_replicate) simp
  show ?thesis
    by (simp add: pad_right_def char_count_append clean_start_ascii [OF a] char_count_ascii [OF a])
qed

lemma char_count_pad_left:
  assumes "clean_start s" and c: "(of_char c :: nat) < 128"
  shows "char_count (pad_left c w s) = max w (char_count s)"
  by (simp add: pad_left_def char_count_append [OF assms(1)]
      char_count_ascii [OF ascii_replicate [OF c]])

lemma clean_start_append: "clean_start s \<Longrightarrow> clean_start t \<Longrightarrow> clean_start (s @ t)"
  by (cases s) (auto simp: clean_start_def)

lemma is_digit_ascii: "list_all is_digit s \<Longrightarrow> ascii s"
  by (auto simp: ascii_def is_digit_def list_all_iff)

lemma ascii_digits [simp]: "ascii (digits n)"
  by (rule is_digit_ascii) simp

end
