(* ===== verification/Errors.thy ===== *)
theory Errors
  imports Rust_Str
begin

section \<open>Errors (\<open>src/src/error.rs\<close>)\<close>

text \<open>
  The crate's \<open>Error\<close> and \<open>ConversionError\<close>, their \<open>Display\<close>, the cause
  reported by \<open>source\<close> and the conversion from \<open>std::io::Error\<close>. An I/O error is its
  kind and its message; an error of \<open>serde_cbor\<close> is known by its message only.
\<close>

datatype io_kind = UnexpectedEof | ConnectionReset | Interrupted | WriteZero | InvalidInput
  | WouldBlock | TimedOut | OtherKind string

record io_error =
  io_kind :: io_kind
  io_message :: string

type_synonym cbor_error = string

record conversion_error =
  ce_expected :: string
  ce_found :: string
  ce_reason :: "string option"

datatype error =
    Io io_error
  | Encode cbor_error
  | Decode cbor_error
  | RequestTooLarge nat nat
  | ResponseTooLarge u64 u64
  | ConnectionClosed
  | Server string
  | Query string
  | NotConnected
  | Unsupported string
  | MultipleStatements
  | Conversion string conversion_error
  | UnknownColumn string
  | ColumnOutOfRange nat nat
  | UnexpectedResponse string
  | InvalidArgument string
  | ServerShutdown

text \<open>\<open>ConversionError::new\<close> and \<open>ConversionError::with_reason\<close>.\<close>

definition conversion_new :: "string \<Rightarrow> string \<Rightarrow> conversion_error" where
  "conversion_new expected found =
     \<lparr>ce_expected = expected, ce_found = found, ce_reason = None\<rparr>"

definition conversion_with_reason :: "string \<Rightarrow> string \<Rightarrow> string \<Rightarrow> conversion_error" where
  "conversion_with_reason expected found reason =
     \<lparr>ce_expected = expected, ce_found = found, ce_reason = Some reason\<rparr>"

definition display_conversion_error :: "conversion_error \<Rightarrow> string" where
  "display_conversion_error e =
     ''cannot read '' @ ce_found e @ '' as '' @ ce_expected e @
     (case ce_reason e of None \<Rightarrow> [] | Some reason \<Rightarrow> '' ('' @ reason @ '')'')"

fun display_error :: "error \<Rightarrow> string" where
  "display_error (Io e) = ''io error: '' @ io_message e"
| "display_error (Encode e) = ''failed to encode request: '' @ e"
| "display_error (Decode e) = ''failed to decode response: '' @ e"
| "display_error (RequestTooLarge sz mx) =
     ''request is '' @ digits sz @ '' bytes but the server reads at most '' @ digits mx @
     ''; split the statement into smaller ones''"
| "display_error (ResponseTooLarge sz mx) =
     ''server announced a '' @ digits (unat sz) @ '' byte response, limit is '' @
     digits (unat mx)"
| "display_error ConnectionClosed =
     ''server closed the connection; it may have panicked handling the request''"
| "display_error (Server msg) = ''server error: '' @ msg"
| "display_error (Query msg) = ''query error: '' @ msg"
| "display_error NotConnected =
     ''not connected to a database; call `use_database` on this connection first''"
| "display_error (Unsupported what) = ''FairyDB does not implement '' @ what"
| "display_error MultipleStatements =
     ''input holds more than one statement; FairyDB executes only the first, so send them one at a time''"
| "display_error (Conversion column source) =
     ''column `'' @ column @ ''`: '' @ display_conversion_error source"
| "display_error (UnknownColumn name) = ''no column named `'' @ name @ ''`''"
| "display_error (ColumnOutOfRange index len) =
     ''column index '' @ digits index @ '' out of range for a row of '' @ digits len"
| "display_error (UnexpectedResponse what) = ''unexpected response: '' @ what"
| "display_error (InvalidArgument msg) = ''invalid argument: '' @ msg"
| "display_error ServerShutdown = ''server is shutting down''"

text \<open>\<open>Error::source\<close>: the error below, when there is one.\<close>

datatype cause = Cause_Io io_error | Cause_Cbor cbor_error | Cause_Conversion conversion_error

fun error_source :: "error \<Rightarrow> cause option" where
  "error_source (Io e) = Some (Cause_Io e)"
| "error_source (Encode e) = Some (Cause_Cbor e)"
| "error_source (Decode e) = Some (Cause_Cbor e)"
| "error_source (Conversion column source) = Some (Cause_Conversion source)"
| "error_source _ = None"

fun display_cause :: "cause \<Rightarrow> string" where
  "display_cause (Cause_Io e) = io_message e"
| "display_cause (Cause_Cbor e) = e"
| "display_cause (Cause_Conversion e) = display_conversion_error e"

text \<open>\<open>impl From<std::io::Error> for Error\<close>.\<close>

definition from_io :: "io_error \<Rightarrow> error" where
  "from_io e =
     (case io_kind e of
        UnexpectedEof \<Rightarrow> ConnectionClosed
      | ConnectionReset \<Rightarrow> ConnectionClosed
      | _ \<Rightarrow> Io e)"

lemma from_io_eq:
  "from_io e = (if io_kind e \<in> {UnexpectedEof, ConnectionReset} then ConnectionClosed else Io e)"
  by (cases "io_kind e") (simp_all add: from_io_def)

lemma from_io_cases: "from_io e = ConnectionClosed \<or> from_io e = Io e"
  by (simp add: from_io_eq)

lemma str_contains_suffix [simp]: "str_contains s (a @ s)"
  using str_contains_append [of s a "[]"] by simp

text \<open>The message of an error ends with the message of the error it reports as its
  source, so printing an error never hides its cause.\<close>

lemma display_error_shows_source:
  assumes "error_source e = Some c"
  shows "\<exists>prefix. display_error e = prefix @ display_cause c"
  using assms by (cases e) auto

theorem display_error_shows_source_witness:
  "\<exists>prefix. display_error (Conversion ''name'' (conversion_new ''i64'' ''VARCHAR'')) =
     prefix @ ''cannot read VARCHAR as i64''"
  using display_error_shows_source
    [of "Conversion ''name'' (conversion_new ''i64'' ''VARCHAR'')"
        "Cause_Conversion (conversion_new ''i64'' ''VARCHAR'')"]
  by (simp add: display_conversion_error_def conversion_new_def)

end
