(* ===== verification/Calendar.thy ===== *)
theory Calendar
  imports Prelude "HOL-Library.Monad_Syntax"
begin

section \<open>Dates (\<open>civil_from_days\<close> of \<open>src/src/value.rs\<close>)\<close>

text \<open>
  \<open>civil_from_days\<close> turns a day number into a year, month and day by integer
  arithmetic on \<open>i64\<close>. The code is modelled with every operation checked
  (\<open>civil_from_days\<close>), the arithmetic it performs when nothing overflows is
  \<open>civil\<close>, and the calendar it has to agree with is defined on its own: month lengths,
  leap years, the successor of a date and the number of days before a date.
\<close>

subsection \<open>The code\<close>

definition add64 :: "bool \<Rightarrow> int \<Rightarrow> int \<Rightarrow> int option" where
  "add64 oc a b = i64_arith oc (a + b)"

definition sub64 :: "bool \<Rightarrow> int \<Rightarrow> int \<Rightarrow> int option" where
  "sub64 oc a b = i64_arith oc (a - b)"

definition mul64 :: "bool \<Rightarrow> int \<Rightarrow> int \<Rightarrow> int option" where
  "mul64 oc a b = i64_arith oc (a * b)"

definition civil_from_days :: "bool \<Rightarrow> int \<Rightarrow> (int \<times> int \<times> int) option" where
  "civil_from_days oc days = do {
     z \<leftarrow> add64 oc days 719468;
     t \<leftarrow> (if z \<ge> 0 then Some z else sub64 oc z 146096);
     let era = t sdiv 146097;
     e \<leftarrow> mul64 oc era 146097;
     doe \<leftarrow> sub64 oc z e;
     a \<leftarrow> sub64 oc doe (doe sdiv 1460);
     b \<leftarrow> add64 oc a (doe sdiv 36524);
     c \<leftarrow> sub64 oc b (doe sdiv 146096);
     let yoe = c sdiv 365;
     f \<leftarrow> mul64 oc era 400;
     y \<leftarrow> add64 oc yoe f;
     g \<leftarrow> mul64 oc 365 yoe;
     h \<leftarrow> add64 oc g (yoe sdiv 4);
     i \<leftarrow> sub64 oc h (yoe sdiv 100);
     doy \<leftarrow> sub64 oc doe i;
     j \<leftarrow> mul64 oc 5 doy;
     k \<leftarrow> add64 oc j 2;
     let mp = k sdiv 153;
     l \<leftarrow> mul64 oc 153 mp;
     n \<leftarrow> add64 oc l 2;
     p \<leftarrow> sub64 oc doy (n sdiv 5);
     d \<leftarrow> add64 oc p 1;
     m \<leftarrow> (if mp < 10 then add64 oc mp 3 else sub64 oc mp 9);
     y' \<leftarrow> (if m \<le> 2 then add64 oc y 1 else Some y);
     Some (as_i32 y', as_u32 m, as_u32 d)
   }"

subsection \<open>The arithmetic without overflow\<close>

definition year_of_era :: "int \<Rightarrow> int" where
  "year_of_era doe = (doe - doe div 1460 + doe div 36524 - doe div 146096) div 365"

definition day_of_year :: "int \<Rightarrow> int" where
  "day_of_year doe =
     (let yoe = year_of_era doe in doe - (365 * yoe + yoe div 4 - yoe div 100))"

definition civil :: "int \<Rightarrow> int \<times> int \<times> int" where
  "civil days =
     (let z = days + 719468; era = z div 146097; doe = z mod 146097;
          y = year_of_era doe + era * 400; doy = day_of_year doe;
          mp = (5 * doy + 2) div 153; d = doy - (153 * mp + 2) div 5 + 1;
          m = (if mp < 10 then mp + 3 else mp - 9)
      in (if m \<le> 2 then y + 1 else y, m, d))"

subsection \<open>The calendar\<close>

definition leap :: "int \<Rightarrow> bool" where
  "leap y \<longleftrightarrow> y mod 4 = 0 \<and> (y mod 100 \<noteq> 0 \<or> y mod 400 = 0)"

definition month_len :: "int \<Rightarrow> int \<Rightarrow> int" where
  "month_len y m =
     (if m = 2 then if leap y then 29 else 28
      else if m = 4 \<or> m = 6 \<or> m = 9 \<or> m = 11 then 30 else 31)"

definition valid_date :: "int \<times> int \<times> int \<Rightarrow> bool" where
  "valid_date t \<longleftrightarrow>
     (case t of (y, m, d) \<Rightarrow> 1 \<le> m \<and> m \<le> 12 \<and> 1 \<le> d \<and> d \<le> month_len y m)"

definition next_day :: "int \<times> int \<times> int \<Rightarrow> int \<times> int \<times> int" where
  "next_day t = (case t of (y, m, d) \<Rightarrow>
     if d < month_len y m then (y, m, d + 1)
     else if m < 12 then (y, m + 1, 1) else (y + 1, 1, 1))"

text \<open>Days from 1970-01-01 to the first of January of a year, and to a date.\<close>

definition days_before_year :: "int \<Rightarrow> int" where
  "days_before_year y =
     365 * (y - 1970) + ((y - 1) div 4 - (y - 1) div 100 + (y - 1) div 400) - 477"

definition days_before_month :: "int \<Rightarrow> int \<Rightarrow> int" where
  "days_before_month y m = sum_list (map (month_len y) [1..m - 1])"

definition days_of_date :: "int \<times> int \<times> int \<Rightarrow> int" where
  "days_of_date t =
     (case t of (y, m, d) \<Rightarrow> days_before_year y + days_before_month y m + (d - 1))"

subsection \<open>The year within an era\<close>

text \<open>
  A day of the 400-year era is written as century \<open>b\<close>, four-year cycle \<open>q\<close> and
  day \<open>r\<close> of that cycle; the corrections of the code then cancel and leave the year
  of the cycle.
\<close>

lemma era_decompose:
  fixes doe :: int
  assumes "0 \<le> doe" and "doe < 146097"
  obtains b q r where "doe = 36524 * b + 1461 * q + r" and "0 \<le> b" and "b \<le> 3"
    and "0 \<le> q" and "q \<le> 24" and "0 \<le> r" and "r \<le> 1460" and "q = 24 \<longrightarrow> r \<le> 1459"
  | "doe = 146096"
proof (cases "doe = 146096")
  case False
  let ?b = "doe div 36524" and ?s = "doe mod 36524"
  let ?q = "?s div 1461" and ?r = "?s mod 1461"
  have "doe = 36524 * ?b + 1461 * ?q + ?r" by simp
  moreover have "0 \<le> ?b \<and> ?b \<le> 3" using assms False by linarith
  moreover have s: "0 \<le> ?s \<and> ?s < 36524" by simp
  moreover from s have "0 \<le> ?q \<and> ?q \<le> 24" by linarith
  moreover have "0 \<le> ?r \<and> ?r \<le> 1460" by simp
  moreover have "?q = 24 \<longrightarrow> ?r \<le> 1459"
    using s div_mult_mod_eq [of ?s 1461] by linarith
  ultimately show ?thesis using that(1) by blast
qed (use that(2) in blast)

lemma div_unique_int: "0 \<le> (r::int) \<Longrightarrow> r < k \<Longrightarrow> (k * q + r) div k = q"
  by simp

lemma year_of_era_cycle:
  fixes b q r :: int
  assumes "0 \<le> b" "b \<le> 3" "0 \<le> q" "q \<le> 24" "0 \<le> r" "r \<le> 1460" "q = 24 \<longrightarrow> r \<le> 1459"
  shows "year_of_era (36524 * b + 1461 * q + r) = 100 * b + 4 * q + min 3 (r div 365)"
proof -
  let ?doe = "36524 * b + 1461 * q + r"
  let ?t = "(24 * b + q + r) div 1460"
  have "1461 * q + r < 36524"
    using assms by (cases "q = 24") linarith+
  then have b: "?doe div 36524 = b"
    using div_unique_int [of "1461 * q + r" 36524 b] assms by (simp add: add.assoc)
  have e: "?doe div 146096 = 0"
    using assms by (intro div_pos_pos_trivial) linarith+
  have a: "?doe div 1460 = 25 * b + q + ?t"
  proof -
    have "?doe = (24 * b + q + r) + 1460 * (25 * b + q)" by simp
    then show ?thesis by simp
  qed
  have t: "?t = 0 \<and> 24 * b + q + r < 1460 \<or> ?t = 1 \<and> 24 * b + q + r \<ge> 1460"
    using assms by linarith
  have "?doe - ?doe div 1460 + ?doe div 36524 - ?doe div 146096
      = (r - ?t) + 365 * (100 * b + 4 * q)"
    unfolding a b e by simp
  then have "year_of_era ?doe = ((r - ?t) + 365 * (100 * b + 4 * q)) div 365"
    unfolding year_of_era_def by (simp only:)
  then have y: "year_of_era ?doe = 100 * b + 4 * q + (r - ?t) div 365"
    by simp
  have "(r - ?t) div 365 = min 3 (r div 365)"
  proof (cases "?t = 0")
    case True
    with t assms have "r < 1460" by linarith
    with True show ?thesis by simp
  next
    case False
    with t assms have "r \<ge> 1340" and "?t = 1" by linarith+
    with assms have "(r - ?t) div 365 = 3" and "r div 365 \<ge> 3" by linarith+
    then show ?thesis by simp
  qed
  with y show ?thesis by simp
qed

lemma year_of_era_last: "year_of_era 146096 = 399"
  by (simp add: year_of_era_def)

text \<open>Year \<open>y\<close> of an era, counted from March, starts on day \<open>era_start y\<close>.\<close>

definition era_start :: "int \<Rightarrow> int" where
  "era_start y = 365 * y + y div 4 - y div 100"

definition march_leap :: "int \<Rightarrow> bool" where
  "march_leap y \<longleftrightarrow> leap (y + 1)"

lemma year_of_era_bounds:
  assumes "0 \<le> doe" "doe < 146097"
  shows "0 \<le> year_of_era doe \<and> year_of_era doe \<le> 399
       \<and> 0 \<le> day_of_year doe \<and> day_of_year doe \<le> (if march_leap (year_of_era doe) then 365 else 364)"
  using assms
proof (cases rule: era_decompose)
  case (1 b q r)
  define s where "s = min 3 (r div 365)"
  have s: "0 \<le> s \<and> s \<le> 3 \<and> 365 * s \<le> r \<and> (s < 3 \<longrightarrow> r < 365 * s + 365)"
    using 1 by (simp add: s_def) linarith
  have y: "year_of_era doe = 100 * b + 4 * q + s"
    using 1 year_of_era_cycle [of b q r] by (simp add: s_def)
  have y4: "(100 * b + 4 * q + s) div 4 = 25 * b + q"
    and y100: "(100 * b + 4 * q + s) div 100 = b"
    using 1 s by linarith+
  have doy: "day_of_year doe = r - 365 * s"
    unfolding day_of_year_def Let_def y y4 y100 using 1 by simp
  have "day_of_year doe = 365 \<Longrightarrow> march_leap (year_of_era doe)"
  proof -
    assume "day_of_year doe = 365"
    with doy s 1 have s3: "s = 3" and "r = 1460" by linarith+
    with 1 have q: "q \<le> 23" by auto
    have "(100 * b + 4 * q + 3 + 1) mod 4 = 0"
      by presburger
    moreover have "(100 * b + 4 * q + 3 + 1) mod 100 = (4 * q + 4) mod 100"
      using mod_mult_self4 [of 100 b "4 * q + 4"] by (simp add: algebra_simps)
    moreover have "(4 * q + 4) mod 100 = 4 * q + 4"
      using 1 q by (intro mod_pos_pos_trivial) linarith+
    ultimately show ?thesis
      unfolding march_leap_def leap_def y s3 using 1 by simp
  qed
  moreover have "day_of_year doe \<le> 365" and "0 \<le> day_of_year doe"
    using doy s 1 by linarith+
  moreover have "0 \<le> year_of_era doe \<and> year_of_era doe \<le> 399"
    using y s 1 by linarith
  ultimately show ?thesis by (auto simp: le_less)
next
  case 2
  then show ?thesis
    by (simp add: day_of_year_def year_of_era_last march_leap_def leap_def)
qed

lemma day_of_year_era_start: "doe = era_start (year_of_era doe) + day_of_year doe"
  by (simp add: era_start_def day_of_year_def Let_def)

subsection \<open>The month within a year\<close>

lemma month_bounds:
  fixes doy :: int
  assumes "0 \<le> doy" "doy \<le> 365" and "mp = (5 * doy + 2) div 153"
  shows "0 \<le> mp" "mp \<le> 11" "(153 * mp + 2) div 5 \<le> doy" "doy < (153 * (mp + 1) + 2) div 5"
proof -
  have b: "153 * mp \<le> 5 * doy + 2" "5 * doy + 2 < 153 * mp + 153"
    using assms(3) by linarith+
  with assms(1,2) show "0 \<le> mp" "mp \<le> 11" by linarith+
  show "(153 * mp + 2) div 5 \<le> doy"
    using b by linarith
  have "5 * (doy + 1) \<le> 153 * (mp + 1) + 2"
    using b(2) by simp
  then have "5 * (doy + 1) div 5 \<le> (153 * (mp + 1) + 2) div 5"
    by (rule zdiv_mono1) simp
  then show "doy < (153 * (mp + 1) + 2) div 5"
    by simp
qed

lemma days_before_month_values:
  "days_before_month y 1 = 0" "days_before_month y 2 = 31"
  "days_before_month y 3 = 31 + month_len y 2"
  "days_before_month y 4 = 62 + month_len y 2"
  "days_before_month y 5 = 92 + month_len y 2"
  "days_before_month y 6 = 123 + month_len y 2"
  "days_before_month y 7 = 153 + month_len y 2"
  "days_before_month y 8 = 184 + month_len y 2"
  "days_before_month y 9 = 215 + month_len y 2"
  "days_before_month y 10 = 245 + month_len y 2"
  "days_before_month y 11 = 276 + month_len y 2"
  "days_before_month y 12 = 306 + month_len y 2"
  by (simp_all add: days_before_month_def upto_rec1 month_len_def)

lemma month_values:
  "month_len y 1 = 31" "month_len y 3 = 31" "month_len y 4 = 30" "month_len y 5 = 31"
  "month_len y 6 = 30" "month_len y 7 = 31" "month_len y 8 = 31" "month_len y 9 = 30"
  "month_len y 10 = 31" "month_len y 11 = 30" "month_len y 12 = 31"
  by (simp_all add: month_len_def)

lemma month_len_feb: "month_len y 2 = (if leap y then 29 else 28)"
  by (simp add: month_len_def)

text \<open>
  Counted from March, month and day of day \<open>doy\<close>: before January the date lies in the
  year that began with that March, after it in the next.
\<close>

lemma month_of_day:
  assumes doy: "0 \<le> doy" "doy \<le> (if leap (y + 1) then 365 else 364)"
    and mp: "mp = (5 * doy + 2) div 153"
    and d: "d = doy - (153 * mp + 2) div 5 + 1"
    and m: "m = (if mp < 10 then mp + 3 else mp - 9)"
  shows "m \<le> 2 \<Longrightarrow> valid_date (y + 1, m, d) \<and> days_before_month (y + 1) m + (d - 1) = doy - 306"
    and "\<not> m \<le> 2 \<Longrightarrow> valid_date (y, m, d)
      \<and> days_before_month y m + (d - 1) = doy + 31 + month_len y 2"
proof -
  from doy have "doy \<le> 365" by (simp split: if_splits)
  note b = month_bounds [OF doy(1) this mp]
  have "mp = 0 \<or> mp = 1 \<or> mp = 2 \<or> mp = 3 \<or> mp = 4 \<or> mp = 5 \<or> mp = 6 \<or> mp = 7
      \<or> mp = 8 \<or> mp = 9 \<or> mp = 10 \<or> mp = 11"
    using b(1,2) by presburger
  then consider "mp = 0" | "mp = 1" | "mp = 2" | "mp = 3" | "mp = 4" | "mp = 5" | "mp = 6"
    | "mp = 7" | "mp = 8" | "mp = 9" | "mp = 10" | "mp = 11"
    by blast
  note mps = this
  show "m \<le> 2 \<Longrightarrow> valid_date (y + 1, m, d) \<and> days_before_month (y + 1) m + (d - 1) = doy - 306"
    using mps b(3,4) d m doy(2)
    by cases (simp_all add: valid_date_def month_values month_len_feb days_before_month_values
        split: if_splits)
  show "\<not> m \<le> 2 \<Longrightarrow> valid_date (y, m, d)
      \<and> days_before_month y m + (d - 1) = doy + 31 + month_len y 2"
    using mps b(3,4) d m
    by cases (simp_all add: valid_date_def month_values days_before_month_values)
qed

subsection \<open>The date of a day\<close>

lemma leap_400 [simp]: "leap (y + 400 * k) = leap y"
proof -
  have "(y + 400 * k) mod 4 = y mod 4"
    using mod_mult_self2 [of y 4 "100 * k"] by simp
  moreover have "(y + 400 * k) mod 100 = y mod 100"
    using mod_mult_self2 [of y 100 "4 * k"] by simp
  ultimately show ?thesis by (simp add: leap_def)
qed

lemma div_pred: "0 < (k::int) \<Longrightarrow> y div k = (y - 1) div k + (if y mod k = 0 then 1 else 0)"
proof -
  assume k: "0 < k"
  let ?q = "y div k" and ?r = "y mod k"
  have y: "y = ?r + ?q * k" by simp
  have r: "0 \<le> ?r" "?r < k" using k by simp_all
  show ?thesis
  proof (cases "?r = 0")
    case True
    then have "y - 1 = (k - 1) + (?q - 1) * k" using y by (simp add: algebra_simps)
    then have "(y - 1) div k = (?q - 1) + (k - 1) div k"
      using k by (metis add.commute div_mult_self1 less_irrefl)
    with True k show ?thesis by simp
  next
    case False
    with r have "0 \<le> ?r - 1" "?r - 1 < k" by linarith+
    moreover have "y - 1 = (?r - 1) + ?q * k" using y by linarith
    ultimately have "(y - 1) div k = ?q"
      by (metis add.commute add_0 div_mult_self1 div_pos_pos_trivial k less_irrefl)
    with False show ?thesis by simp
  qed
qed

lemma leap_correction:
  assumes "z 400 \<Longrightarrow> z 100" and "z 100 \<Longrightarrow> z (4::int)"
  shows "(if z 4 then 1 else 0) - (if z 100 then 1 else 0) + (if z 400 then 1 else 0)
    = (if z 4 \<and> (\<not> z 100 \<or> z 400) then 1 else (0::int))"
  using assms by (cases "z 4"; cases "z 100"; cases "z 400") simp_all

lemma year_difference:
  fixes a b c :: int
  shows "365 * (y + 1 - 1970) + (p + a - (q + b) + (r + c)) - 477
    = 365 * (y - 1970) + (p - q + r) - 477 + 365 + (a - b + c)"
  by simp

lemma days_before_year_Suc:
  "days_before_year (y + 1) = days_before_year y + 337 + month_len y 2"
proof -
  define z where "z k \<longleftrightarrow> y mod k = 0" for k
  have q: "y div k = (y - 1) div k + (if z k then 1 else 0)" if "0 < k" for k
    unfolding z_def using that by (rule div_pred)
  have "days_before_year (y + 1) = days_before_year y + 365
      + ((if z 4 then 1 else 0) - (if z 100 then 1 else 0) + (if z 400 then 1 else 0))"
    unfolding days_before_year_def add_diff_cancel_right' q [OF zero_less_numeral]
    by (rule year_difference)
  also have "(if z 4 then 1 else 0) - (if z 100 then 1 else 0) + (if z 400 then 1 else 0)
      = (if leap y then 1 else (0::int))"
    unfolding leap_def z_def [symmetric]
    using dvd_trans [of 100 400 y] dvd_trans [of 4 100 y]
    by (intro leap_correction) (simp_all add: z_def mod_eq_0_iff_dvd)
  finally show ?thesis by (simp add: month_len_def)
qed

lemma era_difference:
  fixes a b :: int
  shows "365 * (Y + 400 * era + 1 - 1970) + (a + 100 * era - (b + 4 * era) + era) - 477
    = 365 * Y + a - b + 146097 * era - 719162"
  by simp

lemma days_before_year_era:
  assumes "0 \<le> Y" "Y \<le> 399"
  shows "days_before_year (Y + 400 * era + 1) = era_start Y + 146097 * era - 719162"
proof -
  have d4: "(Y + 400 * era) div 4 = Y div 4 + 100 * era"
    using div_mult_self2 [of 4 Y "100 * era"] by simp
  have d100: "(Y + 400 * era) div 100 = Y div 100 + 4 * era"
    using div_mult_self2 [of 100 Y "4 * era"] by simp
  have d400: "(Y + 400 * era) div 400 = era"
    using assms by simp
  show ?thesis
    unfolding days_before_year_def era_start_def add_diff_cancel_right' d4 d100 d400
    by (rule era_difference)
qed

lemma civil_correct: "valid_date (civil days) \<and> days_of_date (civil days) = days"
proof -
  define doe where "doe = (days + 719468) mod 146097"
  define era where "era = (days + 719468) div 146097"
  define Y where "Y = year_of_era doe"
  define y where "y = Y + era * 400"
  define doy where "doy = day_of_year doe"
  define mp where "mp = (5 * doy + 2) div 153"
  define d where "d = doy - (153 * mp + 2) div 5 + 1"
  define m where "m = (if mp < 10 then mp + 3 else mp - 9)"
  have "0 \<le> doe" "doe < 146097" by (simp_all add: doe_def)
  from year_of_era_bounds [OF this]
  have Y: "0 \<le> Y" "Y \<le> 399"
    and doy: "0 \<le> doy" "doy \<le> (if leap (Y + 1) then 365 else 364)"
    by (simp_all add: Y_def doy_def march_leap_def)
  have "leap (y + 1) = leap (Y + 1)"
    using leap_400 [of "Y + 1" era] by (simp add: y_def algebra_simps)
  with doy have doy': "doy \<le> (if leap (y + 1) then 365 else 364)" by simp
  have c: "civil days = (if m \<le> 2 then y + 1 else y, m, d)"
    by (simp add: civil_def Let_def doe_def era_def Y_def y_def doy_def mp_def d_def m_def)
  have days: "days = era_start Y + doy + 146097 * era - 719468"
    using day_of_year_era_start [of doe] div_mult_mod_eq [of "days + 719468" 146097]
    by (simp add: doy_def Y_def doe_def era_def)
  have next_year: "days_before_year (y + 1) = days - doy + 306"
    using days_before_year_era [OF Y, of era] days by (simp add: y_def algebra_simps)
  show ?thesis
  proof (cases "m \<le> 2")
    case True
    with month_of_day(1) [OF doy(1) doy' mp_def d_def m_def] c next_year show ?thesis
      by (simp add: days_of_date_def)
  next
    case False
    with month_of_day(2) [OF doy(1) doy' mp_def d_def m_def] c next_year days_before_year_Suc [of y]
    show ?thesis
      by (simp add: days_of_date_def)
  qed
qed

subsection \<open>Dates are counted without gaps or repetitions\<close>

lemma month_len_pos: "28 \<le> month_len y m"
  by (simp add: month_len_def)

lemma days_before_month_Suc:
  "1 \<le> m \<Longrightarrow> days_before_month y (m + 1) = days_before_month y m + month_len y m"
  by (simp add: days_before_month_def upto_rec2)

lemma days_before_month_mono:
  assumes "1 \<le> m" "m < m'"
  shows "days_before_month y m + month_len y m \<le> days_before_month y m'"
proof -
  have "m + 1 \<le> m'" using assms by simp
  then show ?thesis
  proof (induction m' rule: int_ge_induct)
    case base
    show ?case using days_before_month_Suc [OF assms(1), of y] by simp
  next
    case (step k)
    then show ?case
      using days_before_month_Suc [of k y] assms(1) month_len_pos [of y k] by simp
  qed
qed

lemma days_before_year_mono: "y < y' \<Longrightarrow> days_before_year (y + 1) \<le> days_before_year y'"
proof -
  assume "y < y'"
  then have "y + 1 \<le> y'" by simp
  then show ?thesis
  proof (induction y' rule: int_ge_induct)
    case base
    show ?case by simp
  next
    case (step k)
    then show ?case
      using days_before_year_Suc [of k] month_len_pos [of k 2] by simp
  qed
qed

lemma day_in_year:
  assumes "valid_date (y, m, d)"
  shows "0 \<le> days_before_month y m + (d - 1)"
    and "days_before_year y + days_before_month y m + (d - 1) < days_before_year (y + 1)"
proof -
  have m: "1 \<le> m" "m \<le> 12" and d: "1 \<le> d" "d \<le> month_len y m"
    using assms by (simp_all add: valid_date_def)
  have "days_before_month y m + month_len y m \<le> days_before_month y 13"
    using days_before_month_mono [of m 13 y] m by simp
  moreover have "days_before_month y 13 = 337 + month_len y 2"
    using days_before_month_Suc [of 12 y] by (simp add: days_before_month_values month_values)
  ultimately show "days_before_year y + days_before_month y m + (d - 1) < days_before_year (y + 1)"
    using days_before_year_Suc [of y] d by simp
  have "0 \<le> days_before_month y m"
    using days_before_month_mono [of 1 m y] m month_len_pos [of y 1]
    by (cases "m = 1") (simp_all add: days_before_month_values)
  with d show "0 \<le> days_before_month y m + (d - 1)" by simp
qed

lemma days_of_date_less_year:
  "valid_date (y, m, d) \<Longrightarrow> valid_date (y', m', d') \<Longrightarrow> y < y'
   \<Longrightarrow> days_of_date (y, m, d) < days_of_date (y', m', d')"
  using day_in_year [of y m d] day_in_year [of y' m' d'] days_before_year_mono [of y y']
  by (simp add: days_of_date_def)

lemma days_of_date_less_month:
  "valid_date (y, m, d) \<Longrightarrow> valid_date (y, m', d') \<Longrightarrow> m < m'
   \<Longrightarrow> days_of_date (y, m, d) < days_of_date (y, m', d')"
  using days_before_month_mono [of m m' y]
  by (simp add: days_of_date_def valid_date_def)

lemma days_of_date_inj:
  assumes "valid_date s" "valid_date t" "days_of_date s = days_of_date t"
  shows "s = t"
proof -
  obtain y m d y' m' d' where s: "s = (y, m, d)" and t: "t = (y', m', d')"
    by (metis prod_cases3)
  have y: "y = y'"
    using assms days_of_date_less_year [of y m d y' m' d'] days_of_date_less_year [of y' m' d' y m d]
    by (cases y y' rule: linorder_cases) (simp_all add: s t)
  have m: "m = m'"
    using assms days_of_date_less_month [of y m d m' d'] days_of_date_less_month [of y m' d' m d]
    by (cases m m' rule: linorder_cases) (simp_all add: s t y)
  show ?thesis
    using assms(3) by (simp add: s t y m days_of_date_def)
qed

lemma civil_unique: "valid_date t \<Longrightarrow> civil (days_of_date t) = t"
  using civil_correct [of "days_of_date t"] days_of_date_inj by blast

lemma next_day_valid: "valid_date t \<Longrightarrow> valid_date (next_day t)"
proof -
  assume v: "valid_date t"
  obtain y m d where t: "t = (y, m, d)" by (metis prod_cases3)
  have "1 \<le> month_len y' m'" for y' m'
    using month_len_pos [of y' m'] by simp
  with v show ?thesis by (simp add: t valid_date_def next_day_def)
qed

lemma next_day_days: "valid_date t \<Longrightarrow> days_of_date (next_day t) = days_of_date t + 1"
proof -
  assume v: "valid_date t"
  obtain y m d where t: "t = (y, m, d)" by (metis prod_cases3)
  consider "d < month_len y m" | "d = month_len y m" "m < 12" | "d = month_len y m" "m = 12"
    using v by (cases "m = 12"; cases "d = month_len y m") (simp_all add: t valid_date_def)
  then show ?thesis
  proof cases
    case 1
    then show ?thesis by (simp add: t next_day_def days_of_date_def)
  next
    case 2
    then have "next_day t = (y, m + 1, 1)" by (simp add: t next_day_def)
    moreover have "1 \<le> m" using v by (simp add: t valid_date_def)
    ultimately show ?thesis
      using 2 days_before_month_Suc [of m y] by (simp add: t days_of_date_def)
  next
    case 3
    then have "next_day t = (y + 1, 1, 1)" by (simp add: t next_day_def)
    with 3 show ?thesis
      using days_before_year_Suc [of y]
      by (simp add: t days_of_date_def days_before_month_values month_values)
  qed
qed

lemma civil_next: "civil (days + 1) = next_day (civil days)"
  using civil_correct [of days] civil_unique [of "next_day (civil days)"]
  by (simp add: next_day_valid next_day_days)

lemma civil_epoch: "civil 0 = (1970, 1, 1)"
  by code_simp

subsection \<open>The code performs that arithmetic\<close>

definition max_days :: int where
  "max_days = 2 ^ 63 - 1 - 719468"

lemma era_sdiv:
  fixes z :: int
  shows "(if z \<ge> 0 then z else z - 146096) sdiv 146097 = z div 146097"
proof (cases "z \<ge> 0")
  case True
  then show ?thesis by (simp add: sdiv_nonneg)
next
  case False
  let ?q = "z div 146097" and ?r = "z mod 146097"
  have r: "0 \<le> ?r" "?r < 146097" by simp_all
  have "z = ?r + ?q * 146097" by simp
  then have "- (z - 146096) = (146096 - ?r) + (- ?q) * 146097" by linarith
  then have "(- (z - 146096)) div 146097 = - ?q + (146096 - ?r) div 146097"
    by (simp only: div_mult_self1)
  also have "(146096 - ?r) div 146097 = 0"
    using r by (intro div_pos_pos_trivial) linarith+
  finally have "- ((- (z - 146096)) div 146097) = ?q" by simp
  with False show ?thesis by (simp add: sdiv_neg)
qed

lemma in_i64_small: "- 1000000 \<le> x \<Longrightarrow> x \<le> 1000000 \<Longrightarrow> in_i64 x"
  by (simp add: in_i64_def)

lemma year_of_era_steps:
  assumes "0 \<le> doe" "doe < 146097"
  shows "sub64 oc doe (doe sdiv 1460) = Some (doe - doe div 1460)"
    and "add64 oc (doe - doe div 1460) (doe sdiv 36524) = Some (doe - doe div 1460 + doe div 36524)"
    and "sub64 oc (doe - doe div 1460 + doe div 36524) (doe sdiv 146096)
      = Some (doe - doe div 1460 + doe div 36524 - doe div 146096)"
    and "(doe - doe div 1460 + doe div 36524 - doe div 146096) sdiv 365 = year_of_era doe"
proof -
  have q: "doe sdiv k = doe div k" if "0 < k" for k
    using assms that by (simp add: sdiv_nonneg)
  have b: "0 \<le> doe div 1460" "doe div 1460 \<le> 101" "0 \<le> doe div 36524" "doe div 36524 \<le> 4"
    "0 \<le> doe div 146096" "doe div 146096 \<le> 1" "doe div 1460 \<le> doe"
    "doe div 146096 \<le> doe div 36524"
    using assms by linarith+
  show "sub64 oc doe (doe sdiv 1460) = Some (doe - doe div 1460)"
    "add64 oc (doe - doe div 1460) (doe sdiv 36524) = Some (doe - doe div 1460 + doe div 36524)"
    "sub64 oc (doe - doe div 1460 + doe div 36524) (doe sdiv 146096)
      = Some (doe - doe div 1460 + doe div 36524 - doe div 146096)"
    unfolding sub64_def add64_def
    by (simp only: q zero_less_numeral, rule i64_arith_in, rule in_i64_small; use assms b in linarith)+
  have "0 \<le> doe - doe div 1460 + doe div 36524 - doe div 146096"
    using assms b by linarith
  then show "(doe - doe div 1460 + doe div 36524 - doe div 146096) sdiv 365 = year_of_era doe"
    by (simp add: sdiv_nonneg year_of_era_def)
qed

lemma day_of_year_steps:
  assumes "0 \<le> doe" "doe < 146097"
  shows "mul64 oc 365 (year_of_era doe) = Some (365 * year_of_era doe)"
    and "add64 oc (365 * year_of_era doe) (year_of_era doe sdiv 4)
      = Some (365 * year_of_era doe + year_of_era doe div 4)"
    and "sub64 oc (365 * year_of_era doe + year_of_era doe div 4) (year_of_era doe sdiv 100)
      = Some (era_start (year_of_era doe))"
    and "sub64 oc doe (era_start (year_of_era doe)) = Some (day_of_year doe)"
proof -
  define Y where "Y = year_of_era doe"
  have Y: "0 \<le> Y" "Y \<le> 399" and doy: "0 \<le> day_of_year doe" "day_of_year doe \<le> 365"
    using year_of_era_bounds [OF assms] by (simp_all add: Y_def split: if_splits)
  have q: "Y sdiv k = Y div k" if "0 < k" for k
    using Y that by (simp add: sdiv_nonneg)
  have b: "0 \<le> Y div 4" "Y div 4 \<le> 99" "0 \<le> Y div 100" "Y div 100 \<le> 3"
    using Y by linarith+
  show "mul64 oc 365 (year_of_era doe) = Some (365 * year_of_era doe)"
    "add64 oc (365 * year_of_era doe) (year_of_era doe sdiv 4)
      = Some (365 * year_of_era doe + year_of_era doe div 4)"
    "sub64 oc (365 * year_of_era doe + year_of_era doe div 4) (year_of_era doe sdiv 100)
      = Some (era_start (year_of_era doe))"
    unfolding Y_def [symmetric]
    using Y b by (simp_all add: sub64_def add64_def mul64_def era_start_def q in_i64_small)
  have "doe - era_start (year_of_era doe) = day_of_year doe"
    using day_of_year_era_start [of doe] by linarith
  then show "sub64 oc doe (era_start (year_of_era doe)) = Some (day_of_year doe)"
    using doy by (simp add: sub64_def in_i64_small)
qed

lemma month_steps:
  assumes doy: "0 \<le> doy" "doy \<le> 365" and mp: "mp = (5 * doy + 2) div 153"
    and d: "d = doy - (153 * mp + 2) div 5 + 1"
  shows "mul64 oc 5 doy = Some (5 * doy)" and "add64 oc (5 * doy) 2 = Some (5 * doy + 2)"
    and "(5 * doy + 2) sdiv 153 = mp"
    and "mul64 oc 153 mp = Some (153 * mp)" and "add64 oc (153 * mp) 2 = Some (153 * mp + 2)"
    and "sub64 oc doy ((153 * mp + 2) sdiv 5) = Some (d - 1)" and "add64 oc (d - 1) 1 = Some d"
    and "add64 oc mp 3 = Some (mp + 3)" and "sub64 oc mp 9 = Some (mp - 9)"
    and "as_u32 d = d" and "as_u32 (if mp < 10 then mp + 3 else mp - 9) = (if mp < 10 then mp + 3 else mp - 9)"
proof -
  note b = month_bounds [OF doy mp]
  have d': "1 \<le> d" "d \<le> 366" using b(1,3) doy unfolding d by linarith+
  have q: "(153 * mp + 2) sdiv 5 = (153 * mp + 2) div 5" using b by (simp add: sdiv_nonneg)
  show "(5 * doy + 2) sdiv 153 = mp" using doy mp by (simp add: sdiv_nonneg)
  have "doy - (153 * mp + 2) sdiv 5 = d - 1" by (simp add: d q)
  then show "sub64 oc doy ((153 * mp + 2) sdiv 5) = Some (d - 1)"
    using d' by (simp add: sub64_def in_i64_small)
  show "mul64 oc 5 doy = Some (5 * doy)" "add64 oc (5 * doy) 2 = Some (5 * doy + 2)"
    "mul64 oc 153 mp = Some (153 * mp)" "add64 oc (153 * mp) 2 = Some (153 * mp + 2)"
    "add64 oc (d - 1) 1 = Some d" "add64 oc mp 3 = Some (mp + 3)" "sub64 oc mp 9 = Some (mp - 9)"
    using doy b d' by (simp_all add: mul64_def add64_def sub64_def in_i64_small)
  show "as_u32 d = d"
    "as_u32 (if mp < 10 then mp + 3 else mp - 9) = (if mp < 10 then mp + 3 else mp - 9)"
    using d' b by (simp_all add: as_u32_id)
qed

lemma civil_from_days_civil:
  assumes "in_i64 days" "days \<le> max_days"
  shows "civil_from_days oc days = (case civil days of (y, m, d) \<Rightarrow> Some (as_i32 y, m, d))"
proof -
  define z where "z = days + 719468"
  define doe where "doe = z mod 146097"
  define era where "era = z div 146097"
  define doy where "doy = day_of_year doe"
  define mp where "mp = (5 * doy + 2) div 153"
  define d where "d = doy - (153 * mp + 2) div 5 + 1"
  define y where "y = year_of_era doe + era * 400"
  define m where "m = (if mp < 10 then mp + 3 else mp - 9)"
  have z: "- (2 ^ 63) + 719468 \<le> z" "z < 2 ^ 63"
    using assms by (simp_all add: z_def in_i64_def max_days_def)
  have doe: "0 \<le> doe" "doe < 146097" by (simp_all add: doe_def)
  have ze: "z = doe + era * 146097" by (simp add: doe_def era_def)
  have era: "- 100000000000000 \<le> era" "era \<le> 100000000000000"
    using z doe ze by simp_all
  note yb = year_of_era_bounds [OF doe]
  have doy: "0 \<le> doy" "doy \<le> 365" using yb by (simp_all add: doy_def split: if_splits)
  have s1: "add64 oc days 719468 = Some z"
    using z by (simp add: add64_def z_def in_i64_def)
  have s2: "(if z \<ge> 0 then Some z else sub64 oc z 146096) = Some (if z \<ge> 0 then z else z - 146096)"
    using z by (simp add: sub64_def in_i64_def)
  have s3: "mul64 oc era 146097 = Some (era * 146097)"
    using z doe ze by (simp add: mul64_def in_i64_def)
  have s4: "sub64 oc z (era * 146097) = Some doe"
    using doe ze by (simp add: sub64_def in_i64_small)
  have s5: "mul64 oc era 400 = Some (era * 400)" "add64 oc (year_of_era doe) (era * 400) = Some y"
    "add64 oc y 1 = Some (y + 1)"
    using era yb by (simp_all add: mul64_def add64_def in_i64_def y_def)
  have c: "civil days = (if m \<le> 2 then y + 1 else y, m, d)"
    by (simp add: civil_def Let_def z_def doe_def era_def doy_def mp_def y_def d_def m_def)
  note st = year_of_era_steps [OF doe] day_of_year_steps [OF doe] month_steps [OF doy mp_def d_def]
  have m_step: "(if mp < 10 then add64 oc mp 3 else sub64 oc mp 9) = Some m"
    by (simp add: st m_def)
  have m32: "as_u32 m = m" unfolding m_def by (rule st(19))
  have y_step: "(if m \<le> 2 then add64 oc y 1 else Some y) = Some (if m \<le> 2 then y + 1 else y)"
    by (simp add: s5)
  show ?thesis
    unfolding civil_from_days_def Let_def c
    by (simp only: s1 s2 s3 s4 s5(1,2) st(1-15,18) m_step m32 y_step bind.bind_lunit era_sdiv era_def [symmetric]
        doy_def [symmetric] prod.case)
qed

lemma civil_from_days_overflow:
  assumes "in_i64 days" "max_days < days"
  shows "civil_from_days True days = None"
  using assms by (simp add: civil_from_days_def add64_def i64_arith_def in_i64_def max_days_def)

text \<open>Without overflow checks the arithmetic wraps, and the code always returns.\<close>

lemma i64_arith_wraps: "i64_arith False x = Some (signed_take_bit 63 x)"
  by (simp add: i64_arith_def in_i64_def signed_take_bit_int_eq_self)

lemma if_Some: "(if b then Some x else Some y) = Some (if b then x else y)"
  by simp

lemma civil_from_days_returns: "civil_from_days False days \<noteq> None"
  by (simp only: civil_from_days_def add64_def sub64_def mul64_def i64_arith_wraps Let_def if_Some
      bind.bind_lunit option.distinct not_False_eq_True)

text \<open>Dates whose year is an \<open>i32\<close>: first of January of the least year, last of
  December of the greatest.\<close>

definition date_range :: "int \<Rightarrow> bool" where
  "date_range days \<longleftrightarrow> - 784353015833 \<le> days \<and> days \<le> 784351576776"

lemma year_range:
  assumes "valid_date (y, m, d)"
  shows "date_range (days_of_date (y, m, d)) \<longleftrightarrow> - (2 ^ 31) \<le> y \<and> y < 2 ^ 31"
proof -
  have first: "days_before_year (- 2147483648) = - 784353015833"
    and last: "days_before_year 2147483648 = 784351576777"
    by (simp_all add: days_before_year_def)
  note b = day_in_year [OF assms]
  have mono: "days_before_year a \<le> days_before_year b" if "a \<le> b" for a b
    using days_before_year_mono [of "a - 1" b] that by simp
  show ?thesis
    using b first last mono [of "- 2147483648" y] mono [of "y + 1" "- 2147483648"]
      mono [of "y + 1" 2147483648] mono [of 2147483648 y]
    by (simp add: days_of_date_def date_range_def) linarith
qed

lemma civil_from_days_range:
  assumes "date_range days"
  shows "civil_from_days oc days = Some (civil days)"
proof -
  obtain y m d where c: "civil days = (y, m, d)" by (metis prod_cases3)
  then have "- (2 ^ 31) \<le> y \<and> y < 2 ^ 31"
    using civil_correct [of days] year_range [of y m d] assms by simp
  moreover have "in_i64 days" "days \<le> max_days"
    using assms by (simp_all add: date_range_def in_i64_def max_days_def)
  ultimately show ?thesis
    using civil_from_days_civil [of days oc] c by (simp add: as_i32_id)
qed

lemma civil_year_wraps: "civil_from_days oc 784351576777 = Some (- 2147483648, 1, 1)"
proof -
  have "valid_date (2147483648, 1, 1)" "days_of_date (2147483648, 1, 1) = 784351576777"
    by (simp_all add: valid_date_def month_len_def days_of_date_def days_before_year_def
        days_before_month_values)
  then have "civil 784351576777 = (2147483648, 1, 1)"
    using civil_unique by metis
  moreover have "as_i32 2147483648 = - 2147483648"
    by (simp add: as_i32_def)
  moreover have "in_i64 784351576777" "784351576777 \<le> max_days"
    by (simp_all add: in_i64_def max_days_def)
  ultimately show ?thesis
    using civil_from_days_civil [of 784351576777 oc] by simp
qed

subsection \<open>Properties\<close>

lemma bind_SomeE:
  assumes "Option.bind x f = Some r" "\<And>z. f z = Some r \<Longrightarrow> P"
  shows P
  using assms by (cases x) simp_all

lemma as_i32_range: "- (2 ^ 31) \<le> as_i32 y \<and> as_i32 y < 2 ^ 31"
  using signed_take_bit_int_greater_eq_minus_exp [of 31 y] signed_take_bit_int_less_exp [of 31 y]
  by (simp add: as_i32_def)

lemma civil_from_days_year:
  assumes "civil_from_days oc days = Some (y, m, d)"
  shows "- (2 ^ 31) \<le> y \<and> y < 2 ^ 31"
proof -
  have "\<exists>y'. y = as_i32 y'"
    using assms unfolding civil_from_days_def Let_def by (elim bind_SomeE) auto
  then show ?thesis using as_i32_range by blast
qed

text \<open>C26: \<open>civil_from_days\<close> returns, in either build, the one date of the Gregorian calendar that lies
  that many days after 1970-01-01, exactly for the day numbers from -784353015833 to 784351576776,
  those whose year fits an \<open>i32\<close>. For the others, up to where an overflow panics, the month and the
  day are right and the year is silently reduced to 32 bits.\<close>

theorem civil_from_days_calendar:
  "((\<exists>t. civil_from_days oc days = Some t \<and> valid_date t \<and> days_of_date t = days) \<longleftrightarrow>
      - 784353015833 \<le> days \<and> days \<le> 784351576776)
   \<and> (in_i64 days \<and> days \<le> 9223372036854056339 \<longrightarrow>
      (\<exists>y m d. valid_date (y, m, d) \<and> days_of_date (y, m, d) = days
         \<and> civil_from_days oc days = Some (as_i32 y, m, d)))"
proof (intro conjI impI)
  have "date_range days" if "civil_from_days oc days = Some t" "valid_date t" "days_of_date t = days" for t
    using that civil_from_days_year year_range by (cases t) blast
  then show "(\<exists>t. civil_from_days oc days = Some t \<and> valid_date t \<and> days_of_date t = days) \<longleftrightarrow>
      - 784353015833 \<le> days \<and> days \<le> 784351576776"
    using civil_from_days_range [of days oc] civil_correct [of days] unfolding date_range_def by blast
next
  assume "in_i64 days \<and> days \<le> 9223372036854056339"
  then have "civil_from_days oc days = (case civil days of (y, m, d) \<Rightarrow> Some (as_i32 y, m, d))"
    by (intro civil_from_days_civil) (simp_all add: max_days_def)
  then show "\<exists>y m d. valid_date (y, m, d) \<and> days_of_date (y, m, d) = days
      \<and> civil_from_days oc days = Some (as_i32 y, m, d)"
    using civil_correct [of days] by (cases "civil days") auto
qed

theorem civil_from_days_calendar_witness:
  "(\<exists>t. civil_from_days True 19782 = Some t \<and> valid_date t \<and> days_of_date t = 19782)
   \<and> \<not> (\<exists>t. civil_from_days True 784351576777 = Some t \<and> valid_date t \<and> days_of_date t = 784351576777)
   \<and> (\<exists>y m d. valid_date (y, m, d) \<and> days_of_date (y, m, d) = 784351576777
         \<and> civil_from_days True 784351576777 = Some (as_i32 y, m, d))"
proof (intro conjI)
  show "\<exists>t. civil_from_days True 19782 = Some t \<and> valid_date t \<and> days_of_date t = 19782"
    using conjunct1 [OF civil_from_days_calendar [of True 19782]] by simp
  show "\<not> (\<exists>t. civil_from_days True 784351576777 = Some t \<and> valid_date t \<and> days_of_date t = 784351576777)"
    using conjunct1 [OF civil_from_days_calendar [of True 784351576777]] by simp
  show "\<exists>y m d. valid_date (y, m, d) \<and> days_of_date (y, m, d) = 784351576777
      \<and> civil_from_days True 784351576777 = Some (as_i32 y, m, d)"
    using conjunct2 [OF civil_from_days_calendar [of True 784351576777]] by (simp add: in_i64_def)
qed

text \<open>\<open>civil_from_days\<close> inverts the day count of every date with an \<open>i32\<close>
  year.\<close>

lemma civil_from_days_roundtrip:
  assumes "valid_date (y, m, d)" and "- (2 ^ 31) \<le> y" and "y < 2 ^ 31"
  shows "civil_from_days oc (days_of_date (y, m, d)) = Some (y, m, d)"
  using assms by (simp add: civil_from_days_range civil_unique year_range)

theorem civil_from_days_roundtrip_witness:
  "civil_from_days True (days_of_date (2024, 2, 29)) = Some (2024, 2, 29)"
  by (rule civil_from_days_roundtrip) (simp_all add: valid_date_def month_len_def leap_def)

text \<open>Day zero is 1970-01-01, and one more day is the next date of the calendar.\<close>

lemma civil_from_days_steps:
  assumes "date_range days" and "date_range (days + 1)"
  shows "civil_from_days oc 0 = Some (1970, 1, 1)
    \<and> civil_from_days oc (days + 1) = map_option next_day (civil_from_days oc days)"
proof -
  have "date_range 0" by (simp add: date_range_def)
  with assms show ?thesis
    by (simp add: civil_from_days_range civil_epoch civil_next)
qed

theorem civil_from_days_steps_witness:
  "civil_from_days True 0 = Some (1970, 1, 1)
    \<and> civil_from_days True (-1 + 1) = map_option next_day (civil_from_days True (-1))"
  by (rule civil_from_days_steps) (simp_all add: date_range_def)

text \<open>C34: with overflow checks, the only day numbers on which \<open>civil_from_days\<close> panics are
  the last 719468 of the \<open>i64\<close> range.\<close>

theorem civil_from_days_panics:
  assumes "in_i64 days"
  shows "civil_from_days True days = None \<longleftrightarrow> 9223372036854056339 < days"
proof (cases "days \<le> max_days")
  case True
  then show ?thesis
    using civil_from_days_civil [OF assms True] by (simp add: max_days_def split: prod.split)
next
  case False
  then show ?thesis
    using civil_from_days_overflow [OF assms] by (simp add: max_days_def)
qed

theorem civil_from_days_panics_witness:
  "civil_from_days True 9223372036854775807 = None"
  using civil_from_days_panics [of 9223372036854775807] by (simp add: in_i64_def)

end
