(* ===== verification/Values.thy ===== *)
theory Values
  imports Errors Calendar "HOL-Library.Product_Lexorder"
begin

section \<open>Column values and SQL types (\<open>src/src/value.rs\<close>)\<close>

text \<open>
  \<open>DataType\<close> and \<open>Value\<close> with their accessors, \<open>Display\<close> and the derived order.
  The constructors of \<open>DataType\<close> carry a \<open>T\<close> prefix and those of \<open>Value\<close> a
  \<open>V\<close>, since the two enums share variant
  names. \<open>f64\<close> arithmetic is a parameter (\<open>f64_ops\<close>): the conversion of an integer, the
  integer power and the division. Formatting widths above what \<open>format!\<close> can allocate are not
  modelled.
\<close>

datatype data_type = TBigInt | TInt | TSmallInt | TChar u8 | TString | TDecimal u32 u32
  | TDate | TBool | TNull

datatype val =
    VBigInt i64
  | VInt i32
  | VSmallInt i16
  | VChar u8 string
  | VString string
  | VDecimal i64 u32
  | VDate i64
  | VBool bool
  | VNull

fun display_data_type :: "data_type \<Rightarrow> string" where
  "display_data_type TBigInt = ''BIGINT''"
| "display_data_type TInt = ''INT''"
| "display_data_type TSmallInt = ''SMALLINT''"
| "display_data_type (TChar n) = ''CHAR('' @ digits (unat n) @ '')''"
| "display_data_type TString = ''VARCHAR''"
| "display_data_type (TDecimal p s) =
     ''DECIMAL('' @ digits (unat p) @ '','' @ digits (unat s) @ '')''"
| "display_data_type TDate = ''DATE''"
| "display_data_type TBool = ''BOOL''"
| "display_data_type TNull = ''NULL''"

subsection \<open>Accessors\<close>

fun type_name :: "val \<Rightarrow> string" where
  "type_name (VBigInt _) = ''BIGINT''"
| "type_name (VInt _) = ''INT''"
| "type_name (VSmallInt _) = ''SMALLINT''"
| "type_name (VChar _ _) = ''CHAR''"
| "type_name (VString _) = ''VARCHAR''"
| "type_name (VDecimal _ _) = ''DECIMAL''"
| "type_name (VDate _) = ''DATE''"
| "type_name (VBool _) = ''BOOL''"
| "type_name VNull = ''NULL''"

text \<open>\<open>unsigned_abs\<close> of an \<open>i64\<close> is the absolute value, also of the least one.\<close>

definition unsigned_abs :: "i64 \<Rightarrow> nat" where
  "unsigned_abs w = nat \<bar>sint w\<bar>"

definition precision_of :: "i64 \<Rightarrow> u32" where
  "precision_of whole =
     (let len = (of_nat (length (digits (unsigned_abs whole))) :: u32)
      in if len < 1 then 1 else len)"

fun data_type_of :: "val \<Rightarrow> data_type" where
  "data_type_of (VBigInt _) = TBigInt"
| "data_type_of (VInt _) = TInt"
| "data_type_of (VSmallInt _) = TSmallInt"
| "data_type_of (VChar n _) = TChar n"
| "data_type_of (VString _) = TString"
| "data_type_of (VDecimal whole scale) = TDecimal (precision_of whole) scale"
| "data_type_of (VDate _) = TDate"
| "data_type_of (VBool _) = TBool"
| "data_type_of VNull = TNull"

definition is_null :: "val \<Rightarrow> bool" where
  "is_null v = (case v of VNull \<Rightarrow> True | _ \<Rightarrow> False)"

definition is_numeric :: "val \<Rightarrow> bool" where
  "is_numeric v =
     (case v of VBigInt _ \<Rightarrow> True | VInt _ \<Rightarrow> True | VSmallInt _ \<Rightarrow> True
      | VDecimal _ _ \<Rightarrow> True | _ \<Rightarrow> False)"

fun as_i64 :: "val \<Rightarrow> i64 option" where
  "as_i64 (VBigInt i) = Some i"
| "as_i64 (VInt i) = Some (scast i)"
| "as_i64 (VSmallInt i) = Some (scast i)"
| "as_i64 _ = None"

record 'f f64_ops =
  f64_of_int :: "int \<Rightarrow> 'f"
  f64_powi :: "'f \<Rightarrow> int \<Rightarrow> 'f"
  f64_div :: "'f \<Rightarrow> 'f \<Rightarrow> 'f"

text \<open>The \<open>u32\<close> scale becomes an \<open>i32\<close> exponent, with its top bit as the sign.\<close>

fun as_f64 :: "'f f64_ops \<Rightarrow> val \<Rightarrow> 'f option" where
  "as_f64 F (VBigInt i) = Some (f64_of_int F (sint i))"
| "as_f64 F (VInt i) = Some (f64_of_int F (sint i))"
| "as_f64 F (VSmallInt i) = Some (f64_of_int F (sint i))"
| "as_f64 F (VDecimal whole scale) =
     Some (f64_div F (f64_of_int F (sint whole)) (f64_powi F (f64_of_int F 10) (sint scale)))"
| "as_f64 F _ = None"

fun as_str :: "val \<Rightarrow> string option" where
  "as_str (VString s) = Some s"
| "as_str (VChar _ s) = Some s"
| "as_str _ = None"

fun as_bool :: "val \<Rightarrow> bool option" where
  "as_bool (VBool b) = Some b"
| "as_bool _ = None"

text \<open>The outer \<open>option\<close> is the panic of \<open>civil_from_days\<close>.\<close>

fun as_date_ymd :: "bool \<Rightarrow> val \<Rightarrow> (int \<times> int \<times> int) option option" where
  "as_date_ymd oc (VDate days) = map_option Some (civil_from_days oc (sint days))"
| "as_date_ymd oc _ = Some None"

subsection \<open>Display\<close>

definition format_decimal :: "i64 \<Rightarrow> u32 \<Rightarrow> string" where
  "format_decimal whole scale =
     (let ds = digits (unsigned_abs whole);
          sign = (if sint whole < 0 then ''-'' else []);
          sc = unat scale
      in if sc = 0 then sign @ ds
         else if length ds > sc
         then let cut = length ds - sc in sign @ take cut ds @ ''.'' @ drop cut ds
         else sign @ ''0.'' @ pad_left CHR ''0'' sc ds)"

definition format_date :: "int \<times> int \<times> int \<Rightarrow> string" where
  "format_date t = (case t of (y, m, d) \<Rightarrow>
     show_int_pad 4 y @ ''-'' @ show_int_pad 2 m @ ''-'' @ show_int_pad 2 d)"

fun display_val :: "bool \<Rightarrow> val \<Rightarrow> string option" where
  "display_val oc (VBigInt i) = Some (show_int (sint i))"
| "display_val oc (VInt i) = Some (show_int (sint i))"
| "display_val oc (VSmallInt i) = Some (show_int (sint i))"
| "display_val oc (VChar _ s) = Some s"
| "display_val oc (VString s) = Some s"
| "display_val oc (VDecimal whole scale) = Some (format_decimal whole scale)"
| "display_val oc (VDate days) = map_option format_date (civil_from_days oc (sint days))"
| "display_val oc (VBool b) = Some (if b then ''true'' else ''false'')"
| "display_val oc VNull = Some ''NULL''"

subsection \<open>The derived order\<close>

text \<open>
  \<open>derive(PartialOrd, Ord)\<close> compares the variants in declaration order, then their fields
  from left to right, signed integers by value and strings by their bytes.
\<close>

fun val_key :: "val \<Rightarrow> nat \<times> int \<times> string \<times> nat" where
  "val_key (VBigInt i) = (0, sint i, [], 0)"
| "val_key (VInt i) = (1, sint i, [], 0)"
| "val_key (VSmallInt i) = (2, sint i, [], 0)"
| "val_key (VChar n s) = (3, uint n, s, 0)"
| "val_key (VString s) = (4, 0, s, 0)"
| "val_key (VDecimal w s) = (5, sint w, [], unat s)"
| "val_key (VDate d) = (6, sint d, [], 0)"
| "val_key (VBool b) = (7, of_bool b, [], 0)"
| "val_key VNull = (8, 0, [], 0)"

lemma val_key_inj: "val_key v = val_key w \<Longrightarrow> v = w"
  by (cases v; cases w)
    (auto simp: of_bool_def dest: signed_word_eqI word_uint_eqI unsigned_word_eqI split: if_splits)

instantiation val :: linorder
begin

definition less_eq_val :: "val \<Rightarrow> val \<Rightarrow> bool" where
  "less_eq_val v w \<longleftrightarrow> val_key v \<le> val_key w"

definition less_val :: "val \<Rightarrow> val \<Rightarrow> bool" where
  "less_val v w \<longleftrightarrow> val_key v < val_key w"

instance
  by standard (auto simp: less_eq_val_def less_val_def dest: val_key_inj)

end

subsection \<open>Facts about numerals\<close>

lemma hd_append_nonempty: "s \<noteq> [] \<Longrightarrow> hd (s @ t) = hd s"
  by (cases s) simp_all

lemma hd_digits: "n \<noteq> 0 \<Longrightarrow> hd (digits n) \<noteq> CHR ''0''"
proof (induction n rule: digits.induct)
  case (1 n)
  show ?case
  proof (cases "n < 10")
    case True
    then have "digits n = [digit_char n]" by (subst digits.simps) simp
    moreover have "(of_char (digit_char n) :: nat) \<noteq> of_char (CHR ''0'')"
      using True "1.prems" by simp
    ultimately show ?thesis by auto
  next
    case False
    then have "digits n = digits (n div 10) @ [digit_char (n mod 10)]"
      by (subst digits.simps) simp
    with 1 False show ?thesis by (simp add: hd_append_nonempty)
  qed
qed

lemma digits_zero [simp]: "digits 0 = ''0''"
  by code_simp

lemma length_digits_bounds:
  "n < 10 ^ length (digits n) \<and> (n \<noteq> 0 \<longrightarrow> 10 ^ (length (digits n) - 1) \<le> n)"
proof (induction n rule: digits.induct)
  case (1 n)
  show ?case
  proof (cases "n < 10")
    case True
    then show ?thesis by (subst (1 2) digits.simps) simp
  next
    case False
    then have len: "length (digits n) = Suc (length (digits (n div 10)))"
      by (subst digits.simps) simp
    let ?k = "length (digits (n div 10))"
    have ih: "n div 10 < 10 ^ ?k" "10 ^ (?k - 1) \<le> n div 10"
      using 1 False by auto
    have "n < 10 * 10 ^ ?k" using ih(1) by simp
    moreover have "10 ^ ?k \<le> n"
    proof -
      have "(10::nat) ^ ?k = 10 * 10 ^ (?k - 1)"
        using length_digits_pos [of "n div 10"] by (cases ?k) simp_all
      also have "\<dots> \<le> 10 * (n div 10)" using ih(2) by simp
      also have "\<dots> \<le> n" by simp
      finally show ?thesis .
    qed
    ultimately show ?thesis by (simp add: len)
  qed
qed

lemma length_digits_le: "n < 10 ^ k \<Longrightarrow> 0 < k \<Longrightarrow> length (digits n) \<le> k"
proof (cases "n = 0")
  case False
  assume n: "n < 10 ^ k" and k: "0 < k"
  have "10 ^ (length (digits n) - 1) < (10 :: nat) ^ k"
    using length_digits_bounds [of n] n False by (metis le_less_trans)
  then have "length (digits n) - 1 < k" by (rule power_less_imp_less_exp [rotated]) simp
  then show ?thesis by simp
qed (subst digits.simps, simp)

lemma length_digits_i64: "length (digits (unsigned_abs w)) \<le> 19"
proof (rule ccontr)
  assume "\<not> length (digits (unsigned_abs w)) \<le> 19"
  then have l: "19 \<le> length (digits (unsigned_abs w)) - 1" by simp
  have "unsigned_abs w \<le> 2 ^ 63"
    using sint_greater_eq [of w] sint_less [of w] by (simp add: unsigned_abs_def)
  moreover have "(10::nat) ^ 19 \<le> 10 ^ (length (digits (unsigned_abs w)) - 1)"
    using l by (intro power_increasing) simp_all
  moreover have "unsigned_abs w = 0 \<Longrightarrow> length (digits (unsigned_abs w)) = 1"
    by simp
  ultimately show False
    using l length_digits_bounds [of "unsigned_abs w"] by (cases "unsigned_abs w = 0") simp_all
qed

lemma sint_scast_32 [simp]: "sint (scast (i :: 32 word) :: 64 word) = sint i"
  by (simp add: sint_up_scast is_up)

lemma sint_scast_16 [simp]: "sint (scast (i :: 16 word) :: 64 word) = sint i"
  by (simp add: sint_up_scast is_up)

subsection \<open>Facts about \<open>Display\<close>\<close>

lemma digits_no_leading_zero: "digits n = ''0'' \<or> hd (digits n) \<noteq> CHR ''0''"
  using hd_digits [of n] by (cases "n = 0") simp_all

text \<open>A numeral is canonical when it has no superfluous leading zero.\<close>

definition canonical :: "string \<Rightarrow> bool" where
  "canonical s \<longleftrightarrow> s \<noteq> [] \<and> list_all is_digit s \<and> (s = ''0'' \<or> hd s \<noteq> CHR ''0'')"

lemma canonical_digits [simp]: "canonical (digits n)"
  using digits_no_leading_zero [of n] by (simp add: canonical_def)

lemma is_digit_zero [simp]: "is_digit CHR ''0''"
  by (simp add: is_digit_def)

lemma canonical_take: "canonical s \<Longrightarrow> 0 < k \<Longrightarrow> k < length s \<Longrightarrow> canonical (take k s)"
  by (cases s; cases k) (auto simp: canonical_def list_all_iff dest: in_set_takeD)

lemma canonical_zero [simp]: "canonical ''0''"
  by (simp add: canonical_def)

lemma list_all_digit_pad:
  "list_all is_digit s \<Longrightarrow> list_all is_digit (pad_left CHR ''0'' w s)"
  by (auto simp: pad_left_def list_all_iff)

lemma length_pad_left_digits:
  "list_all is_digit s \<Longrightarrow> length s \<le> w \<Longrightarrow> length (pad_left CHR ''0'' w s) = w"
  by (simp add: pad_left_def char_count_ascii is_digit_ascii)

lemma digits_val_pad_left [simp]: "digits_val (pad_left CHR ''0'' w s) = digits_val s"
  by (simp add: pad_left_def digits_val_pad)

lemma digits_val_zero_Cons [simp]: "digits_val (CHR ''0'' # s) = digits_val s"
  using digits_val_append [of "''0''" s] by (simp add: digits_val_def)

lemma display_val_None_iff:
  "display_val oc v = None \<longleftrightarrow> (\<exists>d. v = VDate d \<and> civil_from_days oc (sint d) = None)"
  by (cases v) auto

lemma display_data_type_nonempty: "display_data_type t \<noteq> []"
  by (cases t) simp_all

lemma precision_of_len: "unat (precision_of w) = length (digits (unsigned_abs w))"
proof -
  let ?n = "length (digits (unsigned_abs w))"
  have n: "0 < ?n" "?n \<le> 19"
    using length_digits_i64 [of w] by (simp_all add: length_digits_pos)
  then have "unat (of_nat ?n :: u32) = ?n"
    by (simp add: unat_of_nat take_bit_nat_eq_self)
  with n show ?thesis
    by (simp add: precision_of_def Let_def word_less_nat_alt)
qed

subsection \<open>Properties\<close>

text \<open>C27: \<open>format_decimal\<close> writes the exact value \<open>whole / 10^scale\<close>: a minus sign
  exactly for negative numbers, an integer part without superfluous zeros and exactly
  \<open>scale\<close> fraction digits (no point when the scale is zero), whose digits together are
  \<open>|whole|\<close>.\<close>

theorem format_decimal_exact:
  "\<exists>ip fp. format_decimal whole scale =
       (if sint whole < 0 then ''-'' else []) @ ip @ (if scale = 0 then [] else ''.'' @ fp)
     \<and> canonical ip \<and> list_all is_digit fp \<and> length fp = unat scale
     \<and> digits_val ip * 10 ^ unat scale + digits_val fp = nat \<bar>sint whole\<bar>"
proof -
  define ds where "ds = digits (unsigned_abs whole)"
  define sc where "sc = unat scale"
  have zero: "scale = 0 \<longleftrightarrow> sc = 0" by (simp add: sc_def unat_eq_zero)
  have v: "digits_val ds = nat \<bar>sint whole\<bar>" by (simp add: ds_def unsigned_abs_def)
  have dig: "list_all is_digit ds" and can: "canonical ds" by (simp_all add: ds_def)
  consider "sc = 0" | "0 < sc" "sc < length ds" | "0 < sc" "length ds \<le> sc" by linarith
  then show ?thesis
  proof cases
    case 1
    then show ?thesis
      using v can by (intro exI [of _ ds] exI [of _ "[]"])
        (simp add: format_decimal_def Let_def zero ds_def [symmetric] sc_def [symmetric])
  next
    case 2
    define cut where "cut = length ds - sc"
    have "digits_val (take cut ds) * 10 ^ length (drop cut ds) + digits_val (drop cut ds)
        = digits_val (take cut ds @ drop cut ds)"
      by (rule digits_val_append [symmetric])
    moreover have "length (drop cut ds) = sc" using 2 by (simp add: cut_def)
    moreover have "canonical (take cut ds)"
      using can 2 by (intro canonical_take) (simp_all add: cut_def)
    moreover have "list_all is_digit (drop cut ds)"
      using dig by (auto simp: list_all_iff dest: in_set_dropD)
    ultimately show ?thesis
      using 2 v by (intro exI [of _ "take cut ds"] exI [of _ "drop cut ds"])
        (simp add: format_decimal_def Let_def zero ds_def [symmetric] sc_def [symmetric] cut_def)
  next
    case 3
    then show ?thesis
      using v dig by (intro exI [of _ "''0''"] exI [of _ "pad_left CHR ''0'' sc ds"])
        (simp add: format_decimal_def Let_def zero ds_def [symmetric] sc_def [symmetric]
          list_all_digit_pad length_pad_left_digits)
  qed
qed

text \<open>The precision reported for a decimal is its number of digits, so the value lies
  below \<open>10^p\<close> and, unless it is zero, not below \<open>10^(p-1)\<close>.\<close>

lemma decimal_precision:
  "\<exists>p. data_type_of (VDecimal whole scale) = TDecimal p scale \<and> 1 \<le> unat p
     \<and> \<bar>sint whole\<bar> < 10 ^ unat p \<and> (sint whole = 0 \<or> 10 ^ (unat p - 1) \<le> \<bar>sint whole\<bar>)"
proof -
  let ?n = "unsigned_abs whole" and ?p = "precision_of whole"
  have n: "int ?n = \<bar>sint whole\<bar>" by (simp add: unsigned_abs_def)
  have "int ?n < int (10 ^ unat ?p)" and "?n \<noteq> 0 \<Longrightarrow> int (10 ^ (unat ?p - 1)) \<le> int ?n"
    using length_digits_bounds [of ?n] by (auto simp only: precision_of_len of_nat_less_iff of_nat_le_iff)
  moreover have "?n = 0 \<longleftrightarrow> sint whole = 0" by (simp add: unsigned_abs_def)
  moreover have "1 \<le> unat ?p" using length_digits_pos [of ?n] by (simp add: precision_of_len Suc_leI)
  ultimately show ?thesis by (auto simp: n)
qed

text \<open>Displaying a value panics on no value but a date beyond the range of
  \<open>civil_from_days\<close>, and only in a build with overflow checks.\<close>

lemma display_val_panics:
  "display_val oc v = None \<longleftrightarrow> (oc \<and> (\<exists>d. v = VDate d \<and> 9223372036854056339 < sint d))"
proof -
  have "civil_from_days oc (sint d) = None \<longleftrightarrow> oc \<and> 9223372036854056339 < sint d" for d :: i64
    using civil_from_days_civil [of "sint d" oc] civil_from_days_overflow [of "sint d"]
      civil_from_days_returns [of "sint d"]
    by (cases oc; cases "sint d \<le> max_days") (simp_all add: max_days_def split: prod.splits)
  then show ?thesis by (auto simp: display_val_None_iff)
qed

text \<open>The type name used in diagnostics is the head of the name of the value's SQL
  type.\<close>

lemma type_name_of_data_type:
  "starts_with (type_name v) (display_data_type (data_type_of v))"
  by (cases v) (simp_all add: starts_with_def)

end
