(* ===== verification/Dates.thy ===== *)
theory Dates
  imports Values
begin

section \<open>Dates as text\<close>

text \<open>
  \<open>Display\<close> for a date, within the years of four digits: ten characters that read back as the
  date with that day count, and that sort as the dates do.
\<close>

subsection \<open>Strings of digits\<close>

lemma digits_val_Cons: "digits_val (c # s) = (of_char c - 48) * 10 ^ length s + digits_val s"
proof -
  have "digits_val [c] = of_char c - 48" by (simp add: digits_val_def)
  with digits_val_append [of "[c]" s] show ?thesis by simp
qed

lemma digits_val_bound: "list_all is_digit s \<Longrightarrow> digits_val s < 10 ^ length s"
proof (induction s)
  case (Cons c s)
  then have v: "digits_val s < 10 ^ length s" and "(of_char c :: nat) \<le> 57"
    by (simp_all add: is_digit_def)
  from this(2) have "(of_char c - 48 :: nat) \<le> 9" by arith
  then have "(of_char c - 48) * 10 ^ length s \<le> 9 * (10 :: nat) ^ length s"
    by (rule mult_le_mono1)
  from add_le_less_mono [OF this v] show ?case by (simp add: digits_val_Cons)
qed simp

lemma less_char_iff: "a < b \<longleftrightarrow> (of_char a :: nat) < of_char b" for a b :: char
  by (simp add: less_char_def)

text \<open>Of the same length, digits sort as their values.\<close>

lemma digit_strings_sort:
  "length s = length t \<Longrightarrow> list_all is_digit s \<Longrightarrow> list_all is_digit t \<Longrightarrow>
   (s < t \<longleftrightarrow> digits_val s < digits_val t) \<and> (s = t \<longleftrightarrow> digits_val s = digits_val t)"
proof (induction s t rule: list_induct2)
  case (Cons a s b t)
  let ?k = "(10 :: nat) ^ length t"
  have s: "digits_val s < ?k" "digits_val t < ?k"
    using Cons.hyps Cons.prems digits_val_bound [of s] digits_val_bound [of t] by simp_all
  have d: "48 \<le> (of_char a :: nat)" "48 \<le> (of_char b :: nat)" using Cons.prems by (simp_all add: is_digit_def)
  have step: "x * ?k + digits_val s < y * ?k + digits_val t" if "x < y" for x y
  proof -
    have "(x + 1) * ?k \<le> y * ?k" using that by (intro mult_le_mono1) simp
    with s show ?thesis by simp
  qed
  have step': "y * ?k + digits_val t < x * ?k + digits_val s" if "y < x" for x y
  proof -
    have "(y + 1) * ?k \<le> x * ?k" using that by (intro mult_le_mono1) simp
    with s show ?thesis by simp
  qed
  consider "a = b" | "a < b" "(of_char a - 48 :: nat) < of_char b - 48"
    | "b < a" "(of_char b - 48 :: nat) < of_char a - 48"
    using d by (cases a b rule: linorder_cases) (auto simp: less_char_iff)
  then show ?case
  proof cases
    case 1
    with Cons show ?thesis by (simp add: digits_val_Cons)
  next
    case 2
    with step [OF 2(2)] Cons.hyps show ?thesis by (auto simp: digits_val_Cons)
  next
    case 3
    with step' [OF 3(2)] Cons.hyps show ?thesis by (auto simp: digits_val_Cons)
  qed
qed simp

lemma append_less_iff:
  "length s = length t \<Longrightarrow> s @ u < t @ v \<longleftrightarrow> s < t \<or> s = t \<and> u < v" for s t u v :: string
  by (induction s t rule: list_induct2) auto

subsection \<open>The parts of a date\<close>

lemma padded_number:
  assumes "0 \<le> i" "nat i < 10 ^ w" "0 < w"
  shows "length (show_int_pad w i) = w" "list_all is_digit (show_int_pad w i)"
    "digits_val (show_int_pad w i) = nat i"
proof -
  have l: "length (digits (nat i)) \<le> w" by (rule length_digits_le [OF assms(2,3)])
  have s: "show_int_pad w i = replicate (w - length (digits (nat i))) CHR ''0'' @ digits (nat i)"
    using assms(1) by (simp add: show_int_pad_def Let_def)
  show "length (show_int_pad w i) = w" "digits_val (show_int_pad w i) = nat i"
    using l by (simp_all add: s digits_val_pad)
  show "list_all is_digit (show_int_pad w i)" unfolding s by (auto simp: list_all_iff)
      (metis digits_are_digits list_all_iff)
qed

text \<open>Reading a date back from its ten characters.\<close>

definition read_date :: "string \<Rightarrow> int \<times> int \<times> int" where
  "read_date s = (int (digits_val (take 4 s)), int (digits_val (take 2 (drop 5 s))), int (digits_val (drop 8 s)))"

definition four_digit_date :: "int \<times> int \<times> int \<Rightarrow> bool" where
  "four_digit_date t \<longleftrightarrow> valid_date t \<and> 0 \<le> fst t \<and> fst t \<le> 9999"

lemma month_len_le: "month_len y m \<le> 31"
  by (simp add: month_len_def)

lemma four_digit_parts:
  assumes "four_digit_date (y, m, d)"
  shows "0 \<le> y" "nat y < 10 ^ 4" "0 \<le> m" "nat m < 10 ^ 2" "0 \<le> d" "nat d < 10 ^ 2"
  using assms month_len_le [of y m] by (auto simp: four_digit_date_def valid_date_def)

lemma format_date_parts:
  assumes "four_digit_date (y, m, d)"
  shows "format_date (y, m, d) = show_int_pad 4 y @ ''-'' @ show_int_pad 2 m @ ''-'' @ show_int_pad 2 d"
    "length (show_int_pad 4 y) = 4" "length (show_int_pad 2 m) = 2" "length (show_int_pad 2 d) = 2"
  using padded_number(1) four_digit_parts [OF assms] by (simp_all add: format_date_def)

lemma read_format_date:
  assumes "four_digit_date t"
  shows "read_date (format_date t) = t" "length (format_date t) = 10"
    "format_date t ! 4 = CHR ''-''" "format_date t ! 7 = CHR ''-''"
proof -
  obtain y m d where t: "t = (y, m, d)" by (metis prod_cases3)
  note p = four_digit_parts [OF assms [unfolded t]]
  note f = format_date_parts [OF assms [unfolded t]]
  show "read_date (format_date t) = t"
    using p padded_number(3) by (simp add: t read_date_def f)
  show "length (format_date t) = 10" "format_date t ! 4 = CHR ''-''" "format_date t ! 7 = CHR ''-''"
    by (simp_all add: t f nth_append)
qed

lemma format_date_sorts:
  assumes "four_digit_date t" "four_digit_date t'"
  shows "format_date t < format_date t' \<longleftrightarrow> days_of_date t < days_of_date t'"
proof -
  obtain y m d where t: "t = (y, m, d)" by (metis prod_cases3)
  obtain y' m' d' where t': "t' = (y', m', d')" by (metis prod_cases3)
  note p = four_digit_parts [OF assms(1) [unfolded t]] and p' = four_digit_parts [OF assms(2) [unfolded t']]
  note f = format_date_parts [OF assms(1) [unfolded t]] and f' = format_date_parts [OF assms(2) [unfolded t']]
  have n: "show_int_pad w i < show_int_pad w j \<longleftrightarrow> i < j" "show_int_pad w i = show_int_pad w j \<longleftrightarrow> i = j"
    if "0 \<le> i" "nat i < 10 ^ w" "0 \<le> j" "nat j < 10 ^ w" "0 < w" for w i j
    using digit_strings_sort [of "show_int_pad w i" "show_int_pad w j"] padded_number [OF that(1,2,5)]
      padded_number [OF that(3,4,5)] that(1,3) by auto
  have "format_date t < format_date t' \<longleftrightarrow> y < y' \<or> y = y' \<and> (m < m' \<or> m = m' \<and> d < d')"
    unfolding t t' f(1) f'(1) using n p p' f(2-4) f'(2-4) by (simp add: append_less_iff)
  also have "\<dots> \<longleftrightarrow> days_of_date t < days_of_date t'"
  proof (cases y y' rule: linorder_cases)
    case less
    with assms days_of_date_less_year [of y m d y' m' d'] show ?thesis by (simp add: t t' four_digit_date_def)
  next
    case greater
    with assms days_of_date_less_year [of y' m' d' y m d] show ?thesis by (simp add: t t' four_digit_date_def)
  next
    case y: equal
    with assms days_of_date_less_month [of y m d m' d'] days_of_date_less_month [of y m' d' m d] show ?thesis
      by (cases m m' rule: linorder_cases) (simp_all add: t t' four_digit_date_def days_of_date_def)
  qed
  finally show ?thesis .
qed

subsection \<open>Property\<close>

text \<open>The day counts of 0000-01-01 and of 9999-12-31.\<close>

lemma four_digit_days:
  assumes "- 719528 \<le> days" "days \<le> 2932896"
  shows "\<exists>t. civil_from_days oc days = Some t \<and> four_digit_date t \<and> days_of_date t = days"
proof -
  have r: "date_range days" using assms by (simp add: date_range_def)
  obtain y m d where t: "civil days = (y, m, d)" by (metis prod_cases3)
  have v: "valid_date (y, m, d)" "days_of_date (y, m, d) = days" using civil_correct [of days] by (simp_all add: t)
  have e: "valid_date (0, 1, 1)" "days_of_date (0, 1, 1) = - 719528"
    "valid_date (9999, 12, 31)" "days_of_date (9999, 12, 31) = 2932896" by code_simp+
  have "0 \<le> y" using days_of_date_less_year [OF v(1) e(1)] v(2) e(2) assms(1) by (cases "y < 0") simp_all
  moreover have "y \<le> 9999"
    using days_of_date_less_year [OF e(3) v(1)] v(2) e(4) assms(2) by (cases "9999 < y") simp_all
  ultimately show ?thesis using r v by (simp add: civil_from_days_range t four_digit_date_def)
qed

text \<open>C28: a date from the year 0 to the year 9999 prints as ten characters, year, month and day with
  leading zeros, that read back as the valid date with the day count that was stored; and the
  texts of two such dates sort as the derived order sorts the values.\<close>

theorem dates_print_sortably:
  assumes "- 719528 \<le> sint a" "sint a \<le> 2932896" and "- 719528 \<le> sint b" "sint b \<le> 2932896"
  shows "\<exists>s t. display_val oc (VDate a) = Some s \<and> display_val oc (VDate b) = Some t
    \<and> length s = 10 \<and> s ! 4 = CHR ''-'' \<and> s ! 7 = CHR ''-''
    \<and> valid_date (read_date s) \<and> days_of_date (read_date s) = sint a
    \<and> (s < t \<longleftrightarrow> VDate a < VDate b)"
proof -
  obtain ta where a: "civil_from_days oc (sint a) = Some ta" "four_digit_date ta" "days_of_date ta = sint a"
    using four_digit_days [OF assms(1,2)] by blast
  obtain tb where b: "civil_from_days oc (sint b) = Some tb" "four_digit_date tb" "days_of_date tb = sint b"
    using four_digit_days [OF assms(3,4)] by blast
  have "VDate a < VDate b \<longleftrightarrow> sint a < sint b" by (simp add: less_val_def)
  then show ?thesis
    using a b read_format_date [OF a(2)] format_date_sorts [OF a(2) b(2)] by (auto simp: four_digit_date_def)
qed

theorem dates_print_sortably_witness:
  "\<exists>s t. display_val True (VDate 19782) = Some s \<and> display_val True (VDate 19783) = Some t
    \<and> days_of_date (read_date s) = 19782 \<and> s < t"
  using dates_print_sortably [of 19782 19783 True] by (auto simp: less_val_def)

end
