(* ===== verification/Convert.thy ===== *)
theory Convert
  imports Values
begin

section \<open>Reading values as Rust types (\<open>src/src/convert.rs\<close>)\<close>

text \<open>
  One definition per implementation of the trait \<open>FromValue\<close>. An integer of the target type
  is the \<open>int\<close> it denotes; \<open>int_from_value\<close> is the body of the macro, with the name and
  the bounds of the type. \<open>None\<close> is a panic, which only \<open>chrono::NaiveDate\<close> has; \<open>returning\<close>
  makes the implementation of the trait out of a function that always returns. The trait's
  contract is the locale \<open>value_reader\<close>, and every implementation interprets it.
\<close>

definition returning :: "('a \<Rightarrow> 'b) \<Rightarrow> 'a \<Rightarrow> 'b option" where
  "returning f = (\<lambda>x. Some (f x))"

lemma returning_apply [simp]: "returning f x = Some (f x)"
  by (simp add: returning_def)

definition out_of_range :: "string \<Rightarrow> val \<Rightarrow> conversion_error" where
  "out_of_range expected v = conversion_with_reason expected (type_name v) ''value out of range''"

definition int_from_value :: "string \<Rightarrow> int \<Rightarrow> int \<Rightarrow> val \<Rightarrow> conversion_error + int" where
  "int_from_value name lo hi v =
     and_then (ok_or (conversion_new name (type_name v)) (as_i64 v))
       (\<lambda>wide. if lo \<le> sint wide \<and> sint wide \<le> hi then Inr (sint wide)
               else Inl (out_of_range name v))"

definition i64_from_value :: "val \<Rightarrow> conversion_error + int" where
  "i64_from_value = int_from_value ''i64'' (- (2 ^ 63)) (2 ^ 63 - 1)"

definition i32_from_value :: "val \<Rightarrow> conversion_error + int" where
  "i32_from_value = int_from_value ''i32'' (- (2 ^ 31)) (2 ^ 31 - 1)"

definition i16_from_value :: "val \<Rightarrow> conversion_error + int" where
  "i16_from_value = int_from_value ''i16'' (- (2 ^ 15)) (2 ^ 15 - 1)"

definition i8_from_value :: "val \<Rightarrow> conversion_error + int" where
  "i8_from_value = int_from_value ''i8'' (- (2 ^ 7)) (2 ^ 7 - 1)"

definition u64_from_value :: "val \<Rightarrow> conversion_error + int" where
  "u64_from_value = int_from_value ''u64'' 0 (2 ^ 64 - 1)"

definition u32_from_value :: "val \<Rightarrow> conversion_error + int" where
  "u32_from_value = int_from_value ''u32'' 0 (2 ^ 32 - 1)"

definition u16_from_value :: "val \<Rightarrow> conversion_error + int" where
  "u16_from_value = int_from_value ''u16'' 0 (2 ^ 16 - 1)"

definition u8_from_value :: "val \<Rightarrow> conversion_error + int" where
  "u8_from_value = int_from_value ''u8'' 0 (2 ^ 8 - 1)"

definition usize_from_value :: "val \<Rightarrow> conversion_error + int" where
  "usize_from_value = int_from_value ''usize'' 0 (2 ^ 64 - 1)"

definition isize_from_value :: "val \<Rightarrow> conversion_error + int" where
  "isize_from_value = int_from_value ''isize'' (- (2 ^ 63)) (2 ^ 63 - 1)"

lemmas int_from_value_defs = i64_from_value_def i32_from_value_def i16_from_value_def
  i8_from_value_def u64_from_value_def u32_from_value_def u16_from_value_def
  u8_from_value_def usize_from_value_def isize_from_value_def

definition f64_from_value :: "'f f64_ops \<Rightarrow> val \<Rightarrow> conversion_error + 'f" where
  "f64_from_value F v = ok_or (conversion_new ''f64'' (type_name v)) (as_f64 F v)"

definition bool_from_value :: "val \<Rightarrow> conversion_error + bool" where
  "bool_from_value v = ok_or (conversion_new ''bool'' (type_name v)) (as_bool v)"

definition str_from_value :: "val \<Rightarrow> conversion_error + string" where
  "str_from_value v = ok_or (conversion_new ''&str'' (type_name v)) (as_str v)"

definition string_from_value :: "val \<Rightarrow> conversion_error + string" where
  "string_from_value v = ok_or (conversion_new ''String'' (type_name v)) (as_str v)"

definition ref_value_from_value :: "val \<Rightarrow> conversion_error + val" where
  "ref_value_from_value v = Inr v"

definition value_from_value :: "val \<Rightarrow> conversion_error + val" where
  "value_from_value v = Inr v"

definition option_from_value ::
    "(val \<Rightarrow> (conversion_error + 'a) option) \<Rightarrow> val \<Rightarrow> (conversion_error + 'a option) option" where
  "option_from_value from_value v =
     (case v of VNull \<Rightarrow> Some (Inr None) | other \<Rightarrow> map_option (map_ok Some) (from_value other))"

text \<open>\<open>chrono::NaiveDate\<close>: \<open>from_ymd_opt\<close> is a parameter, \<open>None\<close> the panic of
  \<open>as_date_ymd\<close>.\<close>

definition naive_date_from_value ::
    "(int \<Rightarrow> int \<Rightarrow> int \<Rightarrow> 'd option) \<Rightarrow> bool \<Rightarrow> val \<Rightarrow> (conversion_error + 'd) option" where
  "naive_date_from_value from_ymd_opt oc v =
     map_option
       (\<lambda>ymd. and_then (ok_or (conversion_new ''chrono::NaiveDate'' (type_name v)) ymd)
          (\<lambda>(year, month, day).
             ok_or (out_of_range ''chrono::NaiveDate'' v) (from_ymd_opt year month day)))
       (as_date_ymd oc v)"

subsection \<open>The contract of the trait\<close>

text \<open>A failed conversion names the Rust type that was asked for and the SQL type found.\<close>

locale value_reader =
  fixes from_value :: "val \<Rightarrow> (conversion_error + 'a) option"
    and rust_type :: string
  assumes error_types:
    "from_value v = Some (Inl e) \<Longrightarrow> ce_expected e = rust_type \<and> ce_found e = type_name v"
begin

lemma error_message:
  "from_value v = Some (Inl e) \<Longrightarrow>
   starts_with (''cannot read '' @ type_name v @ '' as '' @ rust_type) (display_conversion_error e)"
  using error_types [of v e]
  by (auto simp: display_conversion_error_def starts_with_iff split: option.splits)

lemma option_error:
  "option_from_value from_value v = Some (Inl e) \<Longrightarrow> from_value v = Some (Inl e) \<and> v \<noteq> VNull"
  by (cases v) (auto simp: option_from_value_def)

lemma option_reader: "value_reader (option_from_value from_value) rust_type"
  by unfold_locales (use option_error error_types in blast)+

end

text \<open>A bare type moreover rejects NULL, so wrapping it in \<open>Option\<close> loses nothing.\<close>

locale bare_reader = value_reader +
  assumes null_rejected: "\<exists>e. from_value VNull = Some (Inl e)"
begin

lemma option_Some_iff:
  "option_from_value from_value v = Some (Inr (Some x)) \<longleftrightarrow> from_value v = Some (Inr x)"
proof (cases "v = VNull")
  case True
  then show ?thesis using null_rejected by (auto simp: option_from_value_def)
next
  case False
  then have "option_from_value from_value v = map_option (map_ok Some) (from_value v)"
    by (cases v) (simp_all add: option_from_value_def)
  then show ?thesis by (cases "from_value v") (auto simp: map_ok_def split: sum.splits)
qed

lemma option_None_iff: "option_from_value from_value v = Some (Inr None) \<longleftrightarrow> v = VNull"
  by (cases v) (auto simp: option_from_value_def)

lemma option_panics_iff: "option_from_value from_value v = None \<longleftrightarrow> from_value v = None"
  using null_rejected by (cases v) (auto simp: option_from_value_def)

end

lemma bare_int_from_value: "bare_reader (returning (int_from_value name lo hi)) name"
  by unfold_locales
    (auto simp: int_from_value_def and_then_def conversion_new_def out_of_range_def
      conversion_with_reason_def split: sum.splits if_splits)

interpretation i64_fv: bare_reader "returning i64_from_value" "''i64''"
  unfolding i64_from_value_def by (rule bare_int_from_value)

interpretation i32_fv: bare_reader "returning i32_from_value" "''i32''"
  unfolding i32_from_value_def by (rule bare_int_from_value)

interpretation i16_fv: bare_reader "returning i16_from_value" "''i16''"
  unfolding i16_from_value_def by (rule bare_int_from_value)

interpretation i8_fv: bare_reader "returning i8_from_value" "''i8''"
  unfolding i8_from_value_def by (rule bare_int_from_value)

interpretation u64_fv: bare_reader "returning u64_from_value" "''u64''"
  unfolding u64_from_value_def by (rule bare_int_from_value)

interpretation u32_fv: bare_reader "returning u32_from_value" "''u32''"
  unfolding u32_from_value_def by (rule bare_int_from_value)

interpretation u16_fv: bare_reader "returning u16_from_value" "''u16''"
  unfolding u16_from_value_def by (rule bare_int_from_value)

interpretation u8_fv: bare_reader "returning u8_from_value" "''u8''"
  unfolding u8_from_value_def by (rule bare_int_from_value)

interpretation usize_fv: bare_reader "returning usize_from_value" "''usize''"
  unfolding usize_from_value_def by (rule bare_int_from_value)

interpretation isize_fv: bare_reader "returning isize_from_value" "''isize''"
  unfolding isize_from_value_def by (rule bare_int_from_value)

interpretation f64_fv: bare_reader "returning (f64_from_value F)" "''f64''" for F :: "'f f64_ops"
  by unfold_locales (auto simp: f64_from_value_def conversion_new_def ok_or_def split: option.splits)

interpretation bool_fv: bare_reader "returning bool_from_value" "''bool''"
  by unfold_locales (auto simp: bool_from_value_def conversion_new_def ok_or_def split: option.splits)

interpretation str_fv: bare_reader "returning str_from_value" "''&str''"
  by unfold_locales (auto simp: str_from_value_def conversion_new_def ok_or_def split: option.splits)

interpretation string_fv: bare_reader "returning string_from_value" "''String''"
  by unfold_locales (auto simp: string_from_value_def conversion_new_def ok_or_def split: option.splits)

interpretation option_i64_fv: value_reader "option_from_value (returning i64_from_value)" "''i64''"
  by (rule i64_fv.option_reader)

interpretation option_string_fv: value_reader "option_from_value (returning string_from_value)" "''String''"
  by (rule string_fv.option_reader)

interpretation value_fv: value_reader "returning value_from_value" "''Value''"
  by unfold_locales (simp add: value_from_value_def)

interpretation ref_value_fv: value_reader "returning ref_value_from_value" "''&Value''"
  by unfold_locales (simp add: ref_value_from_value_def)

text \<open>A date also fails for a day that \<open>chrono\<close> does not have, and may panic.\<close>

lemma naive_date_error:
  "naive_date_from_value from_ymd_opt oc v = Some (Inl e) \<Longrightarrow>
   ce_expected e = ''chrono::NaiveDate'' \<and> ce_found e = type_name v"
proof -
  assume e: "naive_date_from_value from_ymd_opt oc v = Some (Inl e)"
  then obtain ymd where d: "as_date_ymd oc v = Some ymd" by (auto simp: naive_date_from_value_def)
  show ?thesis
  proof (cases ymd)
    case None
    with e d show ?thesis by (auto simp: naive_date_from_value_def and_then_def ok_or_def conversion_new_def)
  next
    case (Some date)
    obtain year month day where "date = (year, month, day)" by (cases date)
    with e d Some show ?thesis
      by (cases "from_ymd_opt year month day")
        (auto simp: naive_date_from_value_def and_then_def ok_or_def out_of_range_def conversion_with_reason_def)
  qed
qed

lemma naive_date_panics_iff:
  "naive_date_from_value from_ymd_opt oc v = None \<longleftrightarrow>
   (\<exists>i. v = VDate i \<and> civil_from_days oc (sint i) = None)"
  by (cases v) (auto simp: naive_date_from_value_def)

interpretation naive_date_fv: bare_reader "naive_date_from_value from_ymd_opt oc" "''chrono::NaiveDate''"
  for from_ymd_opt :: "int \<Rightarrow> int \<Rightarrow> int \<Rightarrow> 'd option" and oc :: bool
  by unfold_locales
    (use naive_date_error in \<open>blast, simp add: naive_date_from_value_def and_then_def ok_or_def\<close>)

subsection \<open>Properties\<close>

text \<open>The integer a value stands for: the integer columns, whatever their width, and nothing else.\<close>

fun int_value :: "val \<Rightarrow> int option" where
  "int_value (VBigInt i) = Some (sint i)"
| "int_value (VInt j) = Some (sint j)"
| "int_value (VSmallInt k) = Some (sint k)"
| "int_value _ = None"

lemma int_value_as_i64: "int_value v = map_option sint (as_i64 v)"
  by (cases v) simp_all

lemma int_from_value_eq:
  "int_from_value name lo hi v =
     (case int_value v of
        None \<Rightarrow> Inl (conversion_new name (type_name v))
      | Some n \<Rightarrow> if lo \<le> n \<and> n \<le> hi then Inr n else Inl (out_of_range name v))"
  by (cases v) (simp_all add: int_from_value_def and_then_def ok_or_def)

text \<open>What a target type with the values \<open>ty\<close> promises.\<close>

definition reads_int :: "string \<Rightarrow> int set \<Rightarrow> val \<Rightarrow> conversion_error + int \<Rightarrow> bool" where
  "reads_int name ty v result \<longleftrightarrow>
     (case int_value v of
        None \<Rightarrow> result = Inl \<lparr>ce_expected = name, ce_found = type_name v, ce_reason = None\<rparr>
      | Some n \<Rightarrow>
          if n \<in> ty then result = Inr n
          else result = Inl \<lparr>ce_expected = name, ce_found = type_name v,
            ce_reason = Some ''value out of range''\<rparr>)"

lemma reads_int_between:
  "ty = {lo..hi} \<Longrightarrow> reads_int name ty v (int_from_value name lo hi v)"
  by (auto simp: reads_int_def int_from_value_eq conversion_new_def out_of_range_def
      conversion_with_reason_def split: option.splits)

lemma range_sint: "range (sint :: 'a::len word \<Rightarrow> int) = {- (2 ^ (LENGTH('a) - 1)) .. 2 ^ (LENGTH('a) - 1) - 1}"
proof
  show "range (sint :: 'a word \<Rightarrow> int) \<subseteq> {- (2 ^ (LENGTH('a) - 1)) .. 2 ^ (LENGTH('a) - 1) - 1}"
    using sint_ge [where 'a = 'a] sint_lt [where 'a = 'a] by (auto simp: less_le_not_le)
  show "{- (2 ^ (LENGTH('a) - 1)) .. 2 ^ (LENGTH('a) - 1) - 1} \<subseteq> range (sint :: 'a word \<Rightarrow> int)"
  proof
    fix n :: int
    assume n: "n \<in> {- (2 ^ (LENGTH('a) - 1)) .. 2 ^ (LENGTH('a) - 1) - 1}"
    then have "sint (word_of_int n :: 'a word) = n"
      unfolding sint_sbintrunc' by (intro signed_take_bit_int_eq_self) auto
    then show "n \<in> range (sint :: 'a word \<Rightarrow> int)" by (metis rangeI)
  qed
qed

lemma range_uint: "range (uint :: 'a::len word \<Rightarrow> int) = {0 .. 2 ^ LENGTH('a) - 1}"
proof
  show "range (uint :: 'a word \<Rightarrow> int) \<subseteq> {0 .. 2 ^ LENGTH('a) - 1}"
    using uint_bounded [where 'a = 'a] by (auto simp: zle_diff1_eq)
  show "{0 .. 2 ^ LENGTH('a) - 1} \<subseteq> range (uint :: 'a word \<Rightarrow> int)"
  proof
    fix n :: int
    assume n: "n \<in> {0 .. 2 ^ LENGTH('a) - 1}"
    then have "uint (word_of_int n :: 'a word) = n" by (simp add: uint_word_of_int)
    then show "n \<in> range (uint :: 'a word \<Rightarrow> int)" by (metis rangeI)
  qed
qed

text \<open>C29: the ten integer types. Reading a value as one of them returns the integer the value
  stands for exactly when a machine integer of that width and signedness has it; an integer that
  none has is reported as out of range, and a value of any other column type as a mismatch, both
  with the name of the Rust type and of the SQL type. \<open>usize\<close> and \<open>isize\<close> have 64 bits.\<close>

theorem int_from_value_spec:
  "reads_int ''i64'' (range (sint :: 64 word \<Rightarrow> int)) v (i64_from_value v)
   \<and> reads_int ''i32'' (range (sint :: 32 word \<Rightarrow> int)) v (i32_from_value v)
   \<and> reads_int ''i16'' (range (sint :: 16 word \<Rightarrow> int)) v (i16_from_value v)
   \<and> reads_int ''i8'' (range (sint :: 8 word \<Rightarrow> int)) v (i8_from_value v)
   \<and> reads_int ''u64'' (range (uint :: 64 word \<Rightarrow> int)) v (u64_from_value v)
   \<and> reads_int ''u32'' (range (uint :: 32 word \<Rightarrow> int)) v (u32_from_value v)
   \<and> reads_int ''u16'' (range (uint :: 16 word \<Rightarrow> int)) v (u16_from_value v)
   \<and> reads_int ''u8'' (range (uint :: 8 word \<Rightarrow> int)) v (u8_from_value v)
   \<and> reads_int ''usize'' (range (uint :: 64 word \<Rightarrow> int)) v (usize_from_value v)
   \<and> reads_int ''isize'' (range (sint :: 64 word \<Rightarrow> int)) v (isize_from_value v)"
  unfolding int_from_value_defs
  by (intro conjI reads_int_between) (simp_all add: range_sint range_uint)

text \<open>Every integer column can be read as an \<open>i64\<close>, whatever its declared width, with
  its value unchanged, and a value that was read narrower reads the same wider.\<close>

lemma integers_widen:
  "(\<forall>n. int_value v = Some n \<longrightarrow> i64_from_value v = Inr n)
   \<and> (i8_from_value v = Inr n \<longrightarrow> i16_from_value v = Inr n)
   \<and> (i16_from_value v = Inr n \<longrightarrow> i32_from_value v = Inr n)
   \<and> (i32_from_value v = Inr n \<longrightarrow> i64_from_value v = Inr n)
   \<and> (u8_from_value v = Inr n \<longrightarrow> i16_from_value v = Inr n \<and> u16_from_value v = Inr n)
   \<and> (u16_from_value v = Inr n \<longrightarrow> i32_from_value v = Inr n \<and> u32_from_value v = Inr n)
   \<and> (u32_from_value v = Inr n \<longrightarrow> i64_from_value v = Inr n \<and> u64_from_value v = Inr n)"
proof -
  have "- (2 ^ 63) \<le> n \<and> n \<le> 2 ^ 63 - 1" if v: "int_value v = Some n" for n
  proof -
    obtain w where "n = sint (w :: i64)" using v by (auto simp: int_value_as_i64)
    then show ?thesis using in_i64_sint [of w] by (simp add: in_i64_def)
  qed
  then show ?thesis
    by (simp add: int_from_value_defs int_from_value_eq split: option.splits)
qed

theorem integers_widen_witness:
  "i64_from_value (VSmallInt 7) = Inr 7 \<and> i32_from_value (VBigInt 7) = Inr 7
   \<and> i64_from_value (VBigInt 7) = Inr 7"
  using integers_widen [of "VSmallInt 7" 7] integers_widen [of "VBigInt 7" 7]
  by (simp add: int_from_value_defs int_from_value_eq)

text \<open>NULL is an error for every bare type and \<open>None\<close> for the \<open>Option\<close> of any type.\<close>

lemmas null_rejected = i64_fv.null_rejected i32_fv.null_rejected i16_fv.null_rejected
  i8_fv.null_rejected u64_fv.null_rejected u32_fv.null_rejected u16_fv.null_rejected
  u8_fv.null_rejected usize_fv.null_rejected isize_fv.null_rejected f64_fv.null_rejected
  bool_fv.null_rejected str_fv.null_rejected string_fv.null_rejected naive_date_fv.null_rejected

lemma option_accepts_null: "option_from_value from_value VNull = Some (Inr None)"
  by (simp add: option_from_value_def)

text \<open>\<open>Value\<close> and \<open>&Value\<close> accept NULL too.\<close>

lemma value_accepts_null: "value_from_value VNull = Inr VNull \<and> ref_value_from_value VNull = Inr VNull"
  by (simp add: value_from_value_def ref_value_from_value_def)

end
