(* ===== verification/Schema.thy ===== *)
theory Schema
  imports Values
begin

section \<open>Schemas (\<open>src/src/schema.rs\<close>)\<close>

text \<open>
  \<open>Constraint\<close>, \<open>Attribute\<close> and \<open>Schema\<close> with the lookup of a column by name:
  \<open>index_of\<close> looks for the full name first and then, when exactly one column qualifies, for
  the part after the last dot. The properties characterise the lookup completely.
\<close>

datatype constraint = CNone | CPrimaryKey | CUnique | CNotNull | CUniqueNotNull
  | CForeignKey u16 | CNotNullFKey u16

record attribute =
  attr_name :: string
  attr_dtype :: data_type
  attr_constraint :: constraint

record schema =
  attributes :: "attribute list"

definition is_primary_key :: "attribute \<Rightarrow> bool" where
  "is_primary_key a = (case attr_constraint a of CPrimaryKey \<Rightarrow> True | _ \<Rightarrow> False)"

definition schema_new :: "attribute list \<Rightarrow> schema" where
  "schema_new as = \<lparr>attributes = as\<rparr>"

definition columns :: "schema \<Rightarrow> attribute list" where
  "columns s = attributes s"

definition schema_len :: "schema \<Rightarrow> nat" where
  "schema_len s = length (attributes s)"

definition schema_is_empty :: "schema \<Rightarrow> bool" where
  "schema_is_empty s = (attributes s = [])"

text \<open>\<open>slice::get\<close> and \<open>Iterator::position\<close>.\<close>

definition slice_get :: "'a list \<Rightarrow> nat \<Rightarrow> 'a option" where
  "slice_get xs i = (if i < length xs then Some (xs ! i) else None)"

fun position :: "('a \<Rightarrow> bool) \<Rightarrow> 'a list \<Rightarrow> nat option" where
  "position P [] = None"
| "position P (x # xs) = (if P x then Some 0 else map_option Suc (position P xs))"

definition column :: "schema \<Rightarrow> nat \<Rightarrow> attribute option" where
  "column s index = slice_get (attributes s) index"

definition names :: "schema \<Rightarrow> string list" where
  "names s = map attr_name (attributes s)"

definition unqualified :: "string \<Rightarrow> string" where
  "unqualified name = (case rsplit CHR ''.'' name of [] \<Rightarrow> name | part # _ \<Rightarrow> part)"

text \<open>The loop of \<open>index_of\<close>: \<open>found\<close> is the match so far; a second match returns.\<close>

fun index_loop :: "string \<Rightarrow> nat \<Rightarrow> nat option \<Rightarrow> attribute list \<Rightarrow> nat option" where
  "index_loop name i found [] = found"
| "index_loop name i found (attr # attrs) =
     (if unqualified (attr_name attr) = name
      then if found \<noteq> None then None else index_loop name (Suc i) (Some i) attrs
      else index_loop name (Suc i) found attrs)"

definition index_of :: "schema \<Rightarrow> string \<Rightarrow> nat option" where
  "index_of s name =
     (case position (\<lambda>a. attr_name a = name) (attributes s) of
        Some i \<Rightarrow> Some i
      | None \<Rightarrow> index_loop name 0 None (attributes s))"

subsection \<open>Facts about the lookup\<close>

lemma position_None_iff: "position P xs = None \<longleftrightarrow> (\<forall>x\<in>set xs. \<not> P x)"
  by (induction xs) auto

lemma position_Some_iff:
  "position P xs = Some i \<longleftrightarrow> i < length xs \<and> P (xs ! i) \<and> (\<forall>j<i. \<not> P (xs ! j))"
proof (induction xs arbitrary: i)
  case Nil
  show ?case by simp
next
  case (Cons x xs)
  then show ?case
    by (cases i) (auto simp: less_Suc_eq_0_disj)
qed

lemma index_loop_found:
  "index_loop name i (Some f) as =
     (if \<exists>a\<in>set as. unqualified (attr_name a) = name then None else Some f)"
  by (induction as arbitrary: i) auto

lemma index_loop_first:
  "index_loop name i None as = Some k \<longleftrightarrow>
     (\<exists>j. position (\<lambda>a. unqualified (attr_name a) = name) as = Some j \<and> k = i + j
        \<and> (\<forall>a\<in>set (drop (Suc j) as). unqualified (attr_name a) \<noteq> name))"
proof (induction as arbitrary: i)
  case Nil
  show ?case by simp
next
  case (Cons a as)
  then show ?case
    by (cases "unqualified (attr_name a) = name") (auto simp: index_loop_found)
qed

lemma only_index:
  "(\<forall>j<length (xs @ c # ys). P ((xs @ c # ys) ! j) \<longrightarrow> j = length xs)
     \<longleftrightarrow> (\<forall>x\<in>set xs \<union> set ys. \<not> P x)" (is "?l \<longleftrightarrow> ?r")
proof
  assume l: ?l
  show ?r
  proof
    fix x assume "x \<in> set xs \<union> set ys"
    then consider j where "j < length xs" "x = xs ! j" | j where "j < length ys" "x = ys ! j"
      by (auto simp: in_set_conv_nth)
    then show "\<not> P x"
    proof cases
      case (1 j)
      then show ?thesis using l [rule_format, of j] by (auto simp: nth_append)
    next
      case (2 j)
      then show ?thesis using l [rule_format, of "Suc (length xs + j)"] by (auto simp: nth_append)
    qed
  qed
next
  assume r: ?r
  show ?l
  proof (intro allI impI)
    fix j assume j: "j < length (xs @ c # ys)" and P: "P ((xs @ c # ys) ! j)"
    consider "j < length xs" | "j = length xs" | m where "j = Suc (length xs + m)"
      by (metis less_imp_Suc_add linorder_neqE_nat)
    then show "j = length xs"
      using r j P nth_mem by cases (auto simp: nth_append)
  qed
qed

lemma index_loop_iff:
  "index_loop name 0 None as = Some i \<longleftrightarrow>
     i < length as \<and> unqualified (attr_name (as ! i)) = name
     \<and> (\<forall>j<length as. unqualified (attr_name (as ! j)) = name \<longrightarrow> j = i)"
proof (cases "i < length as")
  case True
  let ?P = "\<lambda>a. unqualified (attr_name a) = name"
  have as: "as = take i as @ as ! i # drop (Suc i) as"
    using True by (rule id_take_nth_drop)
  have "index_loop name 0 None as = Some i \<longleftrightarrow>
      ?P (as ! i) \<and> (\<forall>j<i. \<not> ?P (as ! j)) \<and> (\<forall>a\<in>set (drop (Suc i) as). \<not> ?P a)"
    using True by (auto simp: index_loop_first position_Some_iff)
  also have "(\<forall>j<i. \<not> ?P (as ! j)) \<longleftrightarrow> (\<forall>a\<in>set (take i as). \<not> ?P a)"
    using True by (simp add: all_set_conv_all_nth)
  also have "(\<forall>a\<in>set (take i as). \<not> ?P a) \<and> (\<forall>a\<in>set (drop (Suc i) as). \<not> ?P a)
      \<longleftrightarrow> (\<forall>j<length as. ?P (as ! j) \<longrightarrow> j = i)"
    using only_index [of "take i as" "as ! i" "drop (Suc i) as" ?P] True as by (simp add: ball_Un)
  finally show ?thesis using True by simp
next
  case False
  then show ?thesis by (auto simp: index_loop_first position_Some_iff)
qed

lemma unqualified_plain: "CHR ''.'' \<notin> set name \<Longrightarrow> unqualified name = name"
  by (simp add: unqualified_def rsplit_def split_on_no_sep)

lemma unqualified_qualified:
  "CHR ''.'' \<notin> set name \<Longrightarrow> unqualified (table @ CHR ''.'' # name) = name"
  using hd_rsplit_qualified [of "CHR ''.''" name table]
  by (cases "rsplit CHR ''.'' (table @ CHR ''.'' # name)") (simp_all add: unqualified_def)

lemma index_of_bound: "index_of s name = Some i \<Longrightarrow> i < schema_len s"
  by (auto simp: index_of_def schema_len_def position_Some_iff index_loop_iff split: option.splits)

lemma index_of_lookup:
  "index_of s name = Some i \<longleftrightarrow>
     i < length (names s)
     \<and> ((names s ! i = name \<and> name \<notin> set (take i (names s)))
        \<or> (name \<notin> set (names s) \<and> unqualified (names s ! i) = name
           \<and> (\<forall>j<length (names s). unqualified (names s ! j) = name \<longrightarrow> j = i)))"
proof (cases "position (\<lambda>a. attr_name a = name) (attributes s)")
  case None
  then have "name \<notin> set (names s)"
    by (auto simp: position_None_iff names_def)
  moreover from this have "i < length (names s) \<Longrightarrow> names s ! i \<noteq> name"
    using nth_mem by metis
  moreover have "index_of s name = Some i \<longleftrightarrow> index_loop name 0 None (attributes s) = Some i"
    using None by (simp add: index_of_def)
  ultimately show ?thesis
    by (auto simp: index_loop_iff names_def)
next
  case (Some k)
  then have k: "k < length (names s)" "names s ! k = name" "\<forall>j<k. names s ! j \<noteq> name"
    by (auto simp: position_Some_iff names_def)
  then have "name \<in> set (names s)" using nth_mem by metis
  moreover have "index_of s name = Some i \<longleftrightarrow> k = i"
    using Some by (simp add: index_of_def)
  moreover have "k = i \<longleftrightarrow> i < length (names s) \<and> names s ! i = name \<and> name \<notin> set (take i (names s))"
    using k by (auto simp: in_set_conv_nth) (metis linorder_neqE_nat)
  ultimately show ?thesis by auto
qed

subsection \<open>Properties\<close>

text \<open>C30: a name resolves to a column exactly when it is the first column with that full
  name or, no column having that full name, the only column whose part after the last dot is
  the name.\<close>

theorem index_of_spec:
  "index_of s name = Some i \<longleftrightarrow>
     i < length (names s)
     \<and> ((names s ! i = name \<and> name \<notin> set (take i (names s)))
        \<or> (name \<notin> set (names s) \<and> unqualified (names s ! i) = name
           \<and> (\<forall>j<length (names s). unqualified (names s ! j) = name \<longrightarrow> j = i)))"
  by (rule index_of_lookup)

theorem index_of_spec_witness:
  "index_of (schema_new [\<lparr>attr_name = ''a'', attr_dtype = TInt, attr_constraint = CNone\<rparr>,
      \<lparr>attr_name = ''a'', attr_dtype = TDate, attr_constraint = CNone\<rparr>]) ''a'' = Some 0"
  by (subst index_of_spec) (simp add: names_def schema_new_def)

text \<open>A column of a joined table is found under its unqualified name when no other
  column shares it, and is not found under a name that two columns share.\<close>

lemma index_of_qualified:
  assumes "names s = xs @ (table @ CHR ''.'' # name) # ys"
    and "CHR ''.'' \<notin> set name" and "name \<notin> set xs \<union> set ys"
  shows "index_of s name =
    (if \<exists>c\<in>set xs \<union> set ys. unqualified c = name then None else Some (length xs))"
proof -
  have "table @ CHR ''.'' # name \<noteq> name"
    by (metis append_self_conv2 assms(2) in_set_conv_decomp)
  then have n: "name \<notin> set (names s)" using assms by auto
  have u: "unqualified (names s ! length xs) = name"
    using assms by (simp add: unqualified_qualified nth_append)
  have others: "(\<forall>j<length (names s). unqualified (names s ! j) = name \<longrightarrow> j = length xs) \<longleftrightarrow>
      (\<forall>c\<in>set xs \<union> set ys. unqualified c \<noteq> name)"
    unfolding assms(1) by (rule only_index)
  show ?thesis
  proof (cases "index_of s name")
    case None
    have "length xs < length (names s)" using assms(1) by simp
    then have "\<not> (\<forall>c\<in>set xs \<union> set ys. unqualified c \<noteq> name)"
      using None index_of_lookup [of s name "length xs"] n u others by simp
    with None show ?thesis by auto
  next
    case (Some i)
    then have i: "i < length (names s)" "unqualified (names s ! i) = name"
      "\<forall>j<length (names s). unqualified (names s ! j) = name \<longrightarrow> j = i"
      using index_of_lookup [of s name i] n nth_mem by metis+
    have "length xs < length (names s)" using assms(1) by simp
    with i(3) u have "length xs = i" by blast
    moreover from this i(3) others have "\<forall>c\<in>set xs \<union> set ys. unqualified c \<noteq> name"
      by simp
    ultimately show ?thesis using Some by auto
  qed
qed

theorem index_of_qualified_witness:
  "index_of (schema_new
      [\<lparr>attr_name = ''users.id'', attr_dtype = TInt, attr_constraint = CNone\<rparr>,
       \<lparr>attr_name = ''orders.total'', attr_dtype = TInt, attr_constraint = CNone\<rparr>]) ''total''
    = Some 1"
proof -
  let ?s = "schema_new
      [\<lparr>attr_name = ''users.id'', attr_dtype = TInt, attr_constraint = CNone\<rparr>,
       \<lparr>attr_name = ''orders.total'', attr_dtype = TInt, attr_constraint = CNone\<rparr>]"
  have "names ?s = [''users.id''] @ (''orders'' @ CHR ''.'' # ''total'') # []"
    by (simp add: names_def schema_new_def)
  then have "index_of ?s ''total'' =
      (if \<exists>c\<in>set [''users.id''] \<union> set []. unqualified c = ''total'' then None
       else Some (length [''users.id'']))"
    by (rule index_of_qualified) simp_all
  moreover have "unqualified ''users.id'' = ''id''"
    by (simp add: unqualified_def rsplit_def)
  ultimately show ?thesis by simp
qed

end
