(* ===== verification/Sql.thy ===== *)
theory Sql
  imports Errors
begin

section \<open>The statement guard (\<open>src/src/sql.rs\<close>)\<close>

text \<open>
  \<open>scan\<close> walks the bytes of a statement by index. Each inner loop is a function of its own, and
  the outer loop \<open>scan_from\<close> carries the state of the source's: the position, the words
  collected and whether a semicolon was seen. The slice that takes a word can panic, which is
  the outer \<open>option\<close>.
\<close>

datatype statement_kind = SK_Query | SK_Insert | SK_CreateTable

subsection \<open>The code\<close>

definition byte_at :: "string \<Rightarrow> nat \<Rightarrow> char option" where
  "byte_at bs i = (if i < length bs then Some (bs ! i) else None)"

text \<open>To the end of a line comment.\<close>

function line_end :: "string \<Rightarrow> nat \<Rightarrow> nat" where
  "line_end bs i =
     (if i < length bs \<and> bs ! i \<noteq> CHR 0x0A then line_end bs (i + 1) else i)"
  by pat_completeness auto
termination
  by (relation "measure (\<lambda>(bs, i). length bs - i)") auto

text \<open>To the closing mark of a block comment, or the end.\<close>

function block_end :: "string \<Rightarrow> nat \<Rightarrow> nat" where
  "block_end bs i =
     (if i < length bs \<and> \<not> (bs ! i = CHR ''*'' \<and> byte_at bs (i + 1) = Some (CHR ''/''))
      then block_end bs (i + 1) else i)"
  by pat_completeness auto
termination
  by (relation "measure (\<lambda>(bs, i). length bs - i)") auto

text \<open>Past the closing quote of a string, a doubled quote standing for itself.\<close>

function string_end :: "string \<Rightarrow> nat \<Rightarrow> nat" where
  "string_end bs i =
     (if i < length bs
      then if bs ! i = CHR 0x27
           then if byte_at bs (i + 1) = Some (CHR 0x27) then string_end bs (i + 2) else i + 1
           else string_end bs (i + 1)
      else i)"
  by pat_completeness auto
termination
  by (relation "measure (\<lambda>(bs, i). length bs - i)") auto

text \<open>To the closing quote of a quoted identifier.\<close>

function ident_end :: "string \<Rightarrow> nat \<Rightarrow> nat" where
  "ident_end bs i =
     (if i < length bs \<and> bs ! i \<noteq> CHR 0x22 then ident_end bs (i + 1) else i)"
  by pat_completeness auto
termination
  by (relation "measure (\<lambda>(bs, i). length bs - i)") auto

definition word_start :: "char \<Rightarrow> bool" where
  "word_start b \<longleftrightarrow> is_ascii_alphanumeric b \<or> b = CHR ''_''"

definition word_byte :: "char \<Rightarrow> bool" where
  "word_byte b \<longleftrightarrow> is_ascii_alphanumeric b \<or> b = CHR ''_'' \<or> 128 \<le> (of_char b :: nat)"

function word_end :: "string \<Rightarrow> nat \<Rightarrow> nat" where
  "word_end bs i = (if i < length bs \<and> word_byte (bs ! i) then word_end bs (i + 1) else i)"
  by pat_completeness auto
termination
  by (relation "measure (\<lambda>(bs, i). length bs - i)") auto

declare line_end.simps [simp del] block_end.simps [simp del] string_end.simps [simp del]
  ident_end.simps [simp del] word_end.simps [simp del]

lemma line_end_ge [termination_simp]: "i \<le> line_end bs i"
  by (induction bs i rule: line_end.induct) (subst line_end.simps, auto dest: Suc_leD)

lemma block_end_ge [termination_simp]: "i \<le> block_end bs i"
  by (induction bs i rule: block_end.induct) (subst block_end.simps, auto dest: Suc_leD)

lemma string_end_ge [termination_simp]: "i \<le> string_end bs i"
  by (induction bs i rule: string_end.induct) (subst string_end.simps, auto dest: Suc_leD)

lemma ident_end_ge [termination_simp]: "i \<le> ident_end bs i"
  by (induction bs i rule: ident_end.induct) (subst ident_end.simps, auto dest: Suc_leD)

lemma word_end_ge: "i \<le> word_end bs i"
  by (induction bs i rule: word_end.induct) (subst word_end.simps, auto dest: Suc_leD)

lemma word_start_byte: "word_start b \<Longrightarrow> word_byte b"
  by (auto simp: word_start_def word_byte_def)

lemma word_end_gt [termination_simp]:
  "i < length bs \<Longrightarrow> word_start (bs ! i) \<Longrightarrow> i < word_end bs i"
  using word_end_ge [of "i + 1" bs] by (subst word_end.simps) (simp add: word_start_byte)

function scan_from ::
    "string \<Rightarrow> nat \<Rightarrow> string list \<Rightarrow> bool \<Rightarrow> (error + string list) option" where
  "scan_from sql i ws terminated =
     (if i < length sql
      then let b = sql ! i in
        if b = CHR ''-'' \<and> byte_at sql (i + 1) = Some (CHR ''-'')
        then scan_from sql (line_end sql (i + 2)) ws terminated
        else if b = CHR ''/'' \<and> byte_at sql (i + 1) = Some (CHR ''*'')
        then scan_from sql (min (block_end sql (i + 2) + 2) (length sql)) ws terminated
        else if b = CHR '';'' then scan_from sql (i + 1) ws True
        else if b = CHR 0x27
        then if terminated then Some (Inl MultipleStatements)
             else scan_from sql (string_end sql (i + 1)) ws terminated
        else if b = CHR 0x22
        then if terminated then Some (Inl MultipleStatements)
             else scan_from sql (ident_end sql (i + 1) + 1) ws terminated
        else if is_ascii_whitespace b then scan_from sql (i + 1) ws terminated
        else if word_start b
        then if terminated then Some (Inl MultipleStatements)
             else if length ws < 2
             then case str_slice sql i (word_end sql i) of
                    None \<Rightarrow> None
                  | Some w \<Rightarrow>
                      scan_from sql (word_end sql i) (ws @ [to_ascii_uppercase w]) terminated
             else scan_from sql (word_end sql i) ws terminated
        else if terminated then Some (Inl MultipleStatements)
        else scan_from sql (i + 1) ws terminated
      else Some (Inr ws))"
  by pat_completeness auto
termination
proof (relation "measure (\<lambda>(sql, i, ws, t). length sql - i)", goal_cases)
  case (2 sql i ws t b)
  then show ?case using line_end_ge [of "i + 2" sql] by simp
next
  case (3 sql i ws t b)
  then show ?case using block_end_ge [of "i + 2" sql] by simp
next
  case (5 sql i ws t b)
  then show ?case using string_end_ge [of "i + 1" sql] by simp
next
  case (6 sql i ws t b)
  then show ?case using ident_end_ge [of "i + 1" sql] by simp
next
  case (8 sql i ws t b w)
  then show ?case using word_end_gt [of i sql] by simp
next
  case (9 sql i ws t b)
  then show ?case using word_end_gt [of i sql] by simp
qed simp_all

declare scan_from.simps [simp del]

definition scan :: "string \<Rightarrow> (error + string list) option" where
  "scan sql = scan_from sql 0 [] False"

definition classify :: "string list \<Rightarrow> error + statement_kind" where
  "classify ws =
     (case ws of
        [] \<Rightarrow> Inl (InvalidArgument ''statement is empty'')
      | first # rest \<Rightarrow>
          if first = ''SELECT'' \<or> first = ''WITH'' then Inr SK_Query
          else if first = ''INSERT'' then Inr SK_Insert
          else if first = ''CREATE''
          then case rest of
                 [] \<Rightarrow> Inl (InvalidArgument ''incomplete CREATE statement'')
               | what # _ \<Rightarrow> if what = ''TABLE'' then Inr SK_CreateTable
                             else Inl (Unsupported (''CREATE '' @ what @ '' statements''))
          else Inl (Unsupported (first @ '' statements'')))"

definition inspect :: "string \<Rightarrow> (error + statement_kind) option" where
  "inspect sql = map_option (\<lambda>r. and_then r classify) (scan sql)"

subsection \<open>The specification: tokens\<close>

text \<open>
  The guard as a lexer followed by a verdict. A statement is cut into tokens; comments and white
  space do not count, a semicolon ends the statement, and any other token after it is a second
  statement.
\<close>

datatype token = T_Space | T_Comment | T_Semi | T_Literal | T_Quoted | T_Word string | T_Other

fun after_block :: "string \<Rightarrow> string" where
  "after_block [] = []"
| "after_block (c # cs) =
     (if c = CHR ''*'' \<and> cs \<noteq> [] \<and> hd cs = CHR ''/'' then tl cs else after_block cs)"

fun after_string :: "string \<Rightarrow> string" where
  "after_string [] = []"
| "after_string (c # cs) =
     (if c = CHR 0x27
      then case cs of [] \<Rightarrow> [] | d # ds \<Rightarrow> if d = CHR 0x27 then after_string ds else cs
      else after_string cs)"

definition after_ident :: "string \<Rightarrow> string" where
  "after_ident cs = tl (dropWhile (\<lambda>c. c \<noteq> CHR 0x22) cs)"

lemma length_after_block [termination_simp]: "length (after_block cs) < Suc (length cs)"
  by (induction cs rule: after_block.induct) auto

lemma length_after_string_le: "length (after_string cs) \<le> length cs"
proof (induction cs rule: after_string.induct)
  case (2 c cs)
  show ?case
  proof (cases "c = CHR 0x27")
    case True
    then show ?thesis using 2(1) by (cases cs) (simp_all add: le_Suc_eq)
  next
    case False
    then show ?thesis using 2(2) by simp
  qed
qed simp

lemma length_after_string [termination_simp]: "length (after_string cs) < Suc (length cs)"
  using length_after_string_le [of cs] by (rule le_imp_less_Suc)

lemma length_after_ident [termination_simp]: "length (after_ident cs) < Suc (length cs)"
  using length_dropWhile_le [of "\<lambda>c. c \<noteq> CHR 0x22" cs] by (simp add: after_ident_def)

lemma length_tl_less [termination_simp]:
  "length (after_block (tl cs)) < Suc (length cs)" "length (dropWhile P (tl cs)) < Suc (length cs)"
  using length_after_block [of "tl cs"] length_dropWhile_le [of P "tl cs"] by simp_all

fun sql_lex :: "string \<Rightarrow> token list" where
  "sql_lex [] = []"
| "sql_lex (b # cs) =
     (if b = CHR ''-'' \<and> cs \<noteq> [] \<and> hd cs = CHR ''-''
      then T_Comment # sql_lex (dropWhile (\<lambda>c. c \<noteq> CHR 0x0A) (tl cs))
      else if b = CHR ''/'' \<and> cs \<noteq> [] \<and> hd cs = CHR ''*''
      then T_Comment # sql_lex (after_block (tl cs))
      else if b = CHR '';'' then T_Semi # sql_lex cs
      else if b = CHR 0x27 then T_Literal # sql_lex (after_string cs)
      else if b = CHR 0x22 then T_Quoted # sql_lex (after_ident cs)
      else if is_ascii_whitespace b then T_Space # sql_lex cs
      else if word_start b
      then T_Word (b # takeWhile word_byte cs) # sql_lex (dropWhile word_byte cs)
      else T_Other # sql_lex cs)"

declare sql_lex.simps(2) [simp del]

definition significant :: "token \<Rightarrow> bool" where
  "significant t \<longleftrightarrow> t \<noteq> T_Space \<and> t \<noteq> T_Comment \<and> t \<noteq> T_Semi"

text \<open>The tokens of the first statement, and what follows its semicolon.\<close>

definition first_statement :: "string \<Rightarrow> token list" where
  "first_statement sql = takeWhile (\<lambda>t. t \<noteq> T_Semi) (sql_lex sql)"

definition more_statements :: "string \<Rightarrow> bool" where
  "more_statements sql \<longleftrightarrow> list_ex significant (dropWhile (\<lambda>t. t \<noteq> T_Semi) (sql_lex sql))"

fun token_words :: "token list \<Rightarrow> string list" where
  "token_words [] = []"
| "token_words (T_Word w # ts) = to_ascii_uppercase w # token_words ts"
| "token_words (_ # ts) = token_words ts"

definition leading_words :: "string \<Rightarrow> string list" where
  "leading_words sql = take 2 (token_words (first_statement sql))"

subsection \<open>Each inner loop finds the end of its token\<close>

lemma drop_nth: "i < length bs \<Longrightarrow> drop i bs = bs ! i # drop (Suc i) bs"
  by (rule Cons_nth_drop_Suc [symmetric])

lemma byte_at_Some_iff: "byte_at bs i = Some c \<longleftrightarrow> drop i bs \<noteq> [] \<and> hd (drop i bs) = c"
  by (auto simp: byte_at_def hd_drop_conv_nth)

lemma drop_line_end: "drop (line_end bs i) bs = dropWhile (\<lambda>c. c \<noteq> CHR 0x0A) (drop i bs)"
proof (induction bs i rule: line_end.induct)
  case (1 bs i)
  then show ?case
    by (cases "i < length bs") (subst line_end.simps, auto simp: drop_nth)+
qed

lemma drop_block_end: "drop (Suc (Suc (block_end bs i))) bs = after_block (drop i bs)"
proof (induction bs i rule: block_end.induct)
  case (1 bs i)
  show ?case
  proof (cases "i < length bs")
    case True
    let ?close = "bs ! i = CHR ''*'' \<and> byte_at bs (i + 1) = Some (CHR ''/'')"
    show ?thesis
    proof (cases ?close)
      case close: True
      with True have "block_end bs i = i" by (subst block_end.simps) simp
      moreover have "drop (i + 1) bs = CHR ''/'' # drop (i + 2) bs"
        using close drop_nth [of "i + 1" bs] by (simp add: byte_at_def split: if_splits)
      moreover have "drop i bs = CHR ''*'' # drop (i + 1) bs"
        using True close by (simp add: drop_nth)
      ultimately show ?thesis by simp
    next
      case False
      with True have "block_end bs i = block_end bs (i + 1)" by (subst block_end.simps) simp
      with 1 True False show ?thesis by (auto simp: drop_nth byte_at_Some_iff)
    qed
  qed (subst block_end.simps, simp)
qed

lemma drop_string_end: "drop (string_end bs i) bs = after_string (drop i bs)"
proof (induction bs i rule: string_end.induct)
  case (1 bs i)
  show ?case
  proof (cases "i < length bs")
    case True
    then have d: "drop i bs = bs ! i # drop (i + 1) bs" by (simp add: drop_nth)
    show ?thesis
    proof (cases "bs ! i = CHR 0x27")
      case quote: True
      show ?thesis
      proof (cases "byte_at bs (i + 1) = Some (CHR 0x27)")
        case doubled: True
        with True quote have "string_end bs i = string_end bs (i + 2)"
          by (subst string_end.simps) simp
        moreover have "drop (i + 1) bs = CHR 0x27 # drop (i + 2) bs"
          using doubled drop_nth [of "i + 1" bs] by (simp add: byte_at_def split: if_splits)
        ultimately show ?thesis
          using 1(1) True quote doubled d by simp
      next
        case False
        with True quote have "string_end bs i = i + 1" by (subst string_end.simps) simp
        with quote False d show ?thesis
          by (auto simp: byte_at_Some_iff split: list.split)
      qed
    next
      case False
      with True have "string_end bs i = string_end bs (i + 1)" by (subst string_end.simps) simp
      with 1(2) True False d show ?thesis by simp
    qed
  qed (subst string_end.simps, simp)
qed

lemma drop_ident_quote: "drop (ident_end bs i) bs = dropWhile (\<lambda>c. c \<noteq> CHR 0x22) (drop i bs)"
proof (induction bs i rule: ident_end.induct)
  case (1 bs i)
  then show ?case
    by (cases "i < length bs") (subst ident_end.simps, auto simp: drop_nth)+
qed

lemma drop_ident_end: "drop (Suc (ident_end bs i)) bs = after_ident (drop i bs)"
proof -
  have "drop (Suc (ident_end bs i)) bs = tl (drop (ident_end bs i) bs)"
    by (simp add: drop_Suc tl_drop)
  then show ?thesis by (simp only: drop_ident_quote after_ident_def)
qed

lemma drop_word_end: "drop (word_end bs i) bs = dropWhile word_byte (drop i bs)"
proof (induction bs i rule: word_end.induct)
  case (1 bs i)
  then show ?case
    by (cases "i < length bs") (subst word_end.simps, auto simp: drop_nth)+
qed

lemma take_word_end: "take (word_end bs i - i) (drop i bs) = takeWhile word_byte (drop i bs)"
proof -
  have "drop (word_end bs i - i) (drop i bs) = dropWhile word_byte (drop i bs)"
    using word_end_ge [of i bs] by (simp add: drop_word_end [symmetric])
  then show ?thesis
    by (metis append_same_eq append_take_drop_id takeWhile_dropWhile_id)
qed

lemma word_end_le: "i \<le> length bs \<Longrightarrow> word_end bs i \<le> length bs"
  by (induction bs i rule: word_end.induct) (subst word_end.simps, auto)

lemma word_end_stop: "word_end bs i < length bs \<Longrightarrow> \<not> word_byte (bs ! word_end bs i)"
  using drop_word_end [of bs i] drop_nth [of "word_end bs i" bs] dropWhile_head by metis

text \<open>A word starts at an ASCII byte and stops before one, so slicing it out cannot panic.\<close>

lemma word_slice:
  assumes "i < length bs" "word_start (bs ! i)"
  shows "str_slice bs i (word_end bs i) = Some (takeWhile word_byte (drop i bs))"
proof -
  have "is_char_boundary bs i"
    using assms by (auto simp: is_char_boundary_def is_cont_def word_start_def
        is_ascii_alphanumeric_def is_digit_def is_ascii_lower_def is_ascii_upper_def)
  moreover have "is_char_boundary bs (word_end bs i)"
    using assms(1) word_end_le [of i bs] word_end_stop [of bs i]
    by (auto simp: is_char_boundary_def is_cont_def word_byte_def)
  ultimately show ?thesis
    by (simp add: str_slice_def word_end_ge take_word_end)
qed

subsection \<open>The scanner is the lexer\<close>

fun verdict :: "string list \<Rightarrow> bool \<Rightarrow> token list \<Rightarrow> error + string list" where
  "verdict ws terminated [] = Inr ws"
| "verdict ws terminated (t # ts) =
     (if t = T_Semi then verdict ws True ts
      else if \<not> significant t then verdict ws terminated ts
      else if terminated then Inl MultipleStatements
      else verdict
        (case t of T_Word w \<Rightarrow> if length ws < 2 then ws @ [to_ascii_uppercase w] else ws | _ \<Rightarrow> ws)
        terminated ts)"

lemma significant_simps [simp]:
  "\<not> significant T_Space" "\<not> significant T_Comment" "\<not> significant T_Semi"
  "significant T_Literal" "significant T_Quoted" "significant (T_Word w)" "significant T_Other"
  by (simp_all add: significant_def)

lemma drop_min_length: "drop (min k (length xs)) xs = drop k xs"
  by (simp add: min_def)

lemma scan_from_lex: "scan_from sql i ws terminated = Some (verdict ws terminated (sql_lex (drop i sql)))"
proof (induction sql i ws terminated rule: scan_from.induct)
  case (1 sql i ws terminated)
  show ?case
  proof (cases "i < length sql")
    case False
    then show ?thesis by (simp add: scan_from.simps)
  next
    case True
    define b where "b = sql ! i"
    have d: "drop i sql = b # drop (i + 1) sql" using True by (simp add: b_def drop_nth)
    have nx: "tl (drop (Suc i) sql) = drop (Suc (Suc i)) sql" by (simp add: tl_drop drop_Suc)
    note IH = "1.IH" [OF True b_def]
    note lexd = sql_lex.simps(2) [of b "drop (i + 1) sql", folded d]
    show ?thesis
    proof (cases "b = CHR ''-'' \<and> byte_at sql (i + 1) = Some (CHR ''-'')")
      case c1: True
      then show ?thesis
        using IH(1) True by (subst scan_from.simps)
          (simp add: b_def [symmetric] Let_def lexd byte_at_Some_iff drop_line_end nx)
    next
      case n1: False
      show ?thesis
      proof (cases "b = CHR ''/'' \<and> byte_at sql (i + 1) = Some (CHR ''*'')")
        case c2: True
        then show ?thesis
          using IH(2) n1 True by (subst scan_from.simps)
            (simp add: b_def [symmetric] Let_def lexd byte_at_Some_iff drop_block_end
              drop_min_length nx)
      next
        case n2: False
        have l: "sql_lex (drop i sql) =
           (if b = CHR '';'' then T_Semi # sql_lex (drop (i + 1) sql)
            else if b = CHR 0x27 then T_Literal # sql_lex (after_string (drop (i + 1) sql))
            else if b = CHR 0x22 then T_Quoted # sql_lex (after_ident (drop (i + 1) sql))
            else if is_ascii_whitespace b then T_Space # sql_lex (drop (i + 1) sql)
            else if word_start b
            then T_Word (b # takeWhile word_byte (drop (i + 1) sql))
                 # sql_lex (dropWhile word_byte (drop (i + 1) sql))
            else T_Other # sql_lex (drop (i + 1) sql))"
          using n1 n2 lexd by (auto simp: byte_at_Some_iff)
        have word: "word_start b \<Longrightarrow> str_slice sql i (word_end sql i)
              = Some (b # takeWhile word_byte (drop (i + 1) sql))"
          and word_rest: "word_start b \<Longrightarrow>
              drop (word_end sql i) sql = dropWhile word_byte (drop (i + 1) sql)"
          using True d word_slice [of i sql] drop_word_end [of sql i]
          by (simp_all add: b_def word_start_byte)
        have st: "scan_from sql i ws terminated =
           (if b = CHR '';'' then scan_from sql (i + 1) ws True
            else if b = CHR 0x27
            then if terminated then Some (Inl MultipleStatements)
                 else scan_from sql (string_end sql (i + 1)) ws terminated
            else if b = CHR 0x22
            then if terminated then Some (Inl MultipleStatements)
                 else scan_from sql (ident_end sql (i + 1) + 1) ws terminated
            else if is_ascii_whitespace b then scan_from sql (i + 1) ws terminated
            else if word_start b
            then if terminated then Some (Inl MultipleStatements)
                 else if length ws < 2
                 then case str_slice sql i (word_end sql i) of
                        None \<Rightarrow> None
                      | Some w \<Rightarrow>
                          scan_from sql (word_end sql i) (ws @ [to_ascii_uppercase w]) terminated
                 else scan_from sql (word_end sql i) ws terminated
            else if terminated then Some (Inl MultipleStatements)
            else scan_from sql (i + 1) ws terminated)"
          by (subst scan_from.simps)
            (simp only: b_def [symmetric] Let_def True if_True if_not_P [OF n1] if_not_P [OF n2])
        consider "b = CHR '';''" | "b = CHR 0x27" | "b = CHR 0x22"
          | "b \<noteq> CHR '';''" "b \<noteq> CHR 0x27" "b \<noteq> CHR 0x22" "is_ascii_whitespace b"
          | "b \<noteq> CHR '';''" "b \<noteq> CHR 0x27" "b \<noteq> CHR 0x22" "\<not> is_ascii_whitespace b" "word_start b"
          | "b \<noteq> CHR '';''" "b \<noteq> CHR 0x27" "b \<noteq> CHR 0x22" "\<not> is_ascii_whitespace b" "\<not> word_start b"
          by blast
        then show ?thesis
          unfolding l st using n1 n2 IH(3-9) word word_rest
          by cases (cases terminated; simp add: drop_string_end drop_ident_end)+
      qed
    qed
  qed
qed

lemma verdict_terminated:
  "verdict ws True ts = (if list_ex significant ts then Inl MultipleStatements else Inr ws)"
  by (induction ts) auto

lemma verdict_eq:
  "length ws \<le> 2 \<Longrightarrow> verdict ws False ts =
     (if list_ex significant (dropWhile (\<lambda>t. t \<noteq> T_Semi) ts) then Inl MultipleStatements
      else Inr (ws @ take (2 - length ws) (token_words (takeWhile (\<lambda>t. t \<noteq> T_Semi) ts))))"
proof (induction ts arbitrary: ws)
  case (Cons t ts)
  show ?case
  proof (cases t)
    case (T_Word w)
    show ?thesis
    proof (cases "length ws < 2")
      case True
      then have "Suc (length ws) \<le> 2" "2 - length ws = Suc (2 - Suc (length ws))" by simp_all
      with True T_Word Cons.IH [of "ws @ [to_ascii_uppercase w]"] show ?thesis by simp
    next
      case False
      with Cons.prems have "length ws = 2" by simp
      with T_Word Cons.IH [of ws] show ?thesis by simp
    qed
  qed (use Cons in \<open>simp_all add: verdict_terminated\<close>)
qed simp

lemma scan_eq:
  "scan sql = Some (if more_statements sql then Inl MultipleStatements else Inr (leading_words sql))"
  by (simp add: scan_def scan_from_lex verdict_eq more_statements_def leading_words_def
      first_statement_def)

subsection \<open>Letter case\<close>

lemma ascii_lower_range:
  "is_ascii_lower c \<Longrightarrow> 65 \<le> (of_char c :: nat) - 32 \<and> (of_char c :: nat) - 32 \<le> 90"
  unfolding is_ascii_lower_def by (elim conjE) linarith

lemma of_char_ascii_upper:
  "(of_char (ascii_upper c) :: nat) = (if is_ascii_lower c then of_char c - 32 else of_char c)"
proof (cases "is_ascii_lower c")
  case True
  then have "(of_char c :: nat) - 32 < 256" using ascii_lower_range [of c] by linarith
  with True show ?thesis by (simp add: ascii_upper_def)
qed (simp add: ascii_upper_def)

lemma ascii_upper_eq_iff:
  assumes "\<not> is_ascii_upper x" "\<not> is_ascii_lower x"
  shows "ascii_upper c = x \<longleftrightarrow> c = x"
proof (cases "is_ascii_lower c")
  case True
  then have "is_ascii_upper (ascii_upper c)"
    using ascii_lower_range [of c] by (simp add: is_ascii_upper_def of_char_ascii_upper)
  with True assms show ?thesis by auto
qed (simp add: ascii_upper_def)

lemma ascii_upper_marks [simp]:
  "ascii_upper c = CHR ''-'' \<longleftrightarrow> c = CHR ''-''" "ascii_upper c = CHR ''/'' \<longleftrightarrow> c = CHR ''/''"
  "ascii_upper c = CHR ''*'' \<longleftrightarrow> c = CHR ''*''" "ascii_upper c = CHR '';'' \<longleftrightarrow> c = CHR '';''"
  "ascii_upper c = CHR 0x27 \<longleftrightarrow> c = CHR 0x27" "ascii_upper c = CHR 0x22 \<longleftrightarrow> c = CHR 0x22"
  "ascii_upper c = CHR 0x0A \<longleftrightarrow> c = CHR 0x0A" "ascii_upper c = CHR ''_'' \<longleftrightarrow> c = CHR ''_''"
  "ascii_upper c = CHR 0x20 \<longleftrightarrow> c = CHR 0x20" "ascii_upper c = CHR 0x09 \<longleftrightarrow> c = CHR 0x09"
  "ascii_upper c = CHR 0x0C \<longleftrightarrow> c = CHR 0x0C" "ascii_upper c = CHR 0x0D \<longleftrightarrow> c = CHR 0x0D"
  by (rule ascii_upper_eq_iff; simp add: is_ascii_upper_def is_ascii_lower_def)+

lemma ascii_upper_classes [simp]:
  "is_ascii_whitespace (ascii_upper c) = is_ascii_whitespace c"
  "is_ascii_alphanumeric (ascii_upper c) = is_ascii_alphanumeric c"
  "128 \<le> (of_char (ascii_upper c) :: nat) \<longleftrightarrow> 128 \<le> (of_char c :: nat)"
  "ascii_upper (ascii_upper c) = ascii_upper c"
proof -
  show "is_ascii_whitespace (ascii_upper c) = is_ascii_whitespace c"
    by (simp add: is_ascii_whitespace_def)
  have "65 \<le> (of_char (ascii_upper c) :: nat) \<and> (of_char (ascii_upper c) :: nat) \<le> 90"
    if "is_ascii_lower c"
    using that ascii_lower_range [of c] by (simp add: of_char_ascii_upper)
  then have "is_ascii_lower c \<Longrightarrow> is_ascii_alphanumeric c"
    and "is_ascii_lower c \<Longrightarrow> is_ascii_alphanumeric (ascii_upper c)"
    and up: "is_ascii_lower c \<Longrightarrow> \<not> is_ascii_lower (ascii_upper c)"
    by (auto simp: is_ascii_alphanumeric_def is_ascii_upper_def is_ascii_lower_def)
  then show "is_ascii_alphanumeric (ascii_upper c) = is_ascii_alphanumeric c"
    by (cases "is_ascii_lower c") (simp_all add: ascii_upper_def)
  show "128 \<le> (of_char (ascii_upper c) :: nat) \<longleftrightarrow> 128 \<le> (of_char c :: nat)"
    by (auto simp: of_char_ascii_upper is_ascii_lower_def)
  show "ascii_upper (ascii_upper c) = ascii_upper c"
    using up by (cases "is_ascii_lower c") (simp_all add: ascii_upper_def [of "ascii_upper c"], simp add: ascii_upper_def)
qed

lemma word_start_upper [simp]: "word_start (ascii_upper c) = word_start c"
  by (simp add: word_start_def)

lemma word_byte_upper [simp]: "word_byte (ascii_upper c) = word_byte c"
  by (simp add: word_byte_def)

fun token_upper :: "token \<Rightarrow> token" where
  "token_upper (T_Word w) = T_Word (map ascii_upper w)"
| "token_upper t = t"

lemma after_block_upper: "after_block (map ascii_upper cs) = map ascii_upper (after_block cs)"
  by (induction cs rule: after_block.induct) (auto simp: hd_map map_tl)

lemma after_string_upper: "after_string (map ascii_upper cs) = map ascii_upper (after_string cs)"
proof (induction cs rule: after_string.induct)
  case (2 c cs)
  show ?case
  proof (cases "c = CHR 0x27")
    case True
    then show ?thesis using 2(1) by (cases cs) simp_all
  next
    case False
    then show ?thesis using 2(2) by simp
  qed
qed simp

lemma dropWhile_upper:
  "(\<And>c. P (ascii_upper c) = P c) \<Longrightarrow>
     dropWhile P (map ascii_upper cs) = map ascii_upper (dropWhile P cs)"
  by (simp add: dropWhile_map comp_def)

lemma takeWhile_upper:
  "(\<And>c. P (ascii_upper c) = P c) \<Longrightarrow>
     takeWhile P (map ascii_upper cs) = map ascii_upper (takeWhile P cs)"
  by (simp add: takeWhile_map comp_def)

lemma after_ident_upper: "after_ident (map ascii_upper cs) = map ascii_upper (after_ident cs)"
  by (simp add: after_ident_def dropWhile_upper map_tl)

text \<open>A character that opens no comment.\<close>

lemma sql_lex_plain:
  assumes "\<not> (c = CHR ''-'' \<and> ds \<noteq> [] \<and> hd ds = CHR ''-'')"
    "\<not> (c = CHR ''/'' \<and> ds \<noteq> [] \<and> hd ds = CHR ''*'')"
  shows "sql_lex (c # ds) =
     (if c = CHR '';'' then T_Semi # sql_lex ds
      else if c = CHR 0x27 then T_Literal # sql_lex (after_string ds)
      else if c = CHR 0x22 then T_Quoted # sql_lex (after_ident ds)
      else if is_ascii_whitespace c then T_Space # sql_lex ds
      else if word_start c
      then T_Word (c # takeWhile word_byte ds) # sql_lex (dropWhile word_byte ds)
      else T_Other # sql_lex ds)"
  unfolding sql_lex.simps(2) if_not_P [OF assms(1)] if_not_P [OF assms(2)] ..

lemma lex_upper: "sql_lex (map ascii_upper s) = map token_upper (sql_lex s)"
proof (induction s rule: sql_lex.induct)
  case 1
  show ?case by simp
next
  case (2 b cs)
  have hd: "cs \<noteq> [] \<Longrightarrow> hd (map ascii_upper cs) = ascii_upper (hd cs)" by (rule hd_map)
  note up = hd map_tl [symmetric] dropWhile_upper takeWhile_upper after_block_upper
    after_string_upper after_ident_upper sql_lex.simps(2)
  show ?case
  proof (cases "b = CHR ''-'' \<and> cs \<noteq> [] \<and> hd cs = CHR ''-''")
    case True
    with 2(1) show ?thesis by (simp add: up)
  next
    case n1: False
    show ?thesis
    proof (cases "b = CHR ''/'' \<and> cs \<noteq> [] \<and> hd cs = CHR ''*''")
      case True
      with n1 2(2) show ?thesis by (simp add: up)
    next
      case n2: False
      have "\<not> (ascii_upper b = CHR ''-'' \<and> map ascii_upper cs \<noteq> [] \<and> hd (map ascii_upper cs) = CHR ''-'')"
        "\<not> (ascii_upper b = CHR ''/'' \<and> map ascii_upper cs \<noteq> [] \<and> hd (map ascii_upper cs) = CHR ''*'')"
        using n1 n2 by (auto simp: hd)
      from sql_lex_plain [OF this] sql_lex_plain [OF n1 n2] 2(3-8) n1 n2 show ?thesis
        by (simp add: up(2-7) split: if_split)
    qed
  qed
qed

lemma token_upper_simps [simp]:
  "token_upper t = T_Semi \<longleftrightarrow> t = T_Semi" "significant (token_upper t) = significant t"
  by (cases t; simp add: significant_def)+

lemma token_words_upper: "token_words (map token_upper ts) = token_words ts"
  by (induction ts rule: token_words.induct) (simp_all add: to_ascii_uppercase_def comp_def)

subsection \<open>Text that ends outside of quotes and comments\<close>

fun block_closed :: "string \<Rightarrow> bool" where
  "block_closed [] = False"
| "block_closed (c # cs) \<longleftrightarrow>
     (c = CHR ''*'' \<and> cs \<noteq> [] \<and> hd cs = CHR ''/'') \<or> block_closed cs"

fun string_closed :: "string \<Rightarrow> bool" where
  "string_closed [] = False"
| "string_closed (c # cs) =
     (if c = CHR 0x27
      then case cs of [] \<Rightarrow> True | d # ds \<Rightarrow> if d = CHR 0x27 then string_closed ds else True
      else string_closed cs)"

fun closed_text :: "string \<Rightarrow> bool" where
  "closed_text [] = True"
| "closed_text (b # cs) =
     (if b = CHR ''-'' \<and> cs \<noteq> [] \<and> hd cs = CHR ''-''
      then CHR 0x0A \<in> set (tl cs) \<and> closed_text (dropWhile (\<lambda>c. c \<noteq> CHR 0x0A) (tl cs))
      else if b = CHR ''/'' \<and> cs \<noteq> [] \<and> hd cs = CHR ''*''
      then block_closed (tl cs) \<and> closed_text (after_block (tl cs))
      else if b = CHR 0x27 then string_closed cs \<and> closed_text (after_string cs)
      else if b = CHR 0x22 then CHR 0x22 \<in> set cs \<and> closed_text (after_ident cs)
      else if word_start b then closed_text (dropWhile word_byte cs)
      else closed_text cs)"

declare closed_text.simps(2) [simp del]

lemma after_block_append: "block_closed cs \<Longrightarrow> after_block (cs @ x) = after_block cs @ x"
proof (induction cs rule: after_block.induct)
  case (2 c cs)
  show ?case
  proof (cases "c = CHR ''*'' \<and> cs \<noteq> [] \<and> hd cs = CHR ''/''")
    case False
    with 2 show ?thesis by (cases cs) auto
  qed simp
qed simp

lemma after_string_append:
  "string_closed cs \<Longrightarrow> x \<noteq> [] \<Longrightarrow> hd x = CHR 0x27 \<longrightarrow> last cs \<noteq> CHR 0x27
   \<Longrightarrow> after_string (cs @ x) = after_string cs @ x"
proof (induction cs rule: after_string.induct)
  case (2 c cs)
  show ?case
  proof (cases "c = CHR 0x27")
    case quote: True
    show ?thesis
    proof (cases cs)
      case Nil
      with quote 2 show ?thesis by (cases x) simp_all
    next
      case (Cons d ds)
      with quote 2 show ?thesis by (cases "d = CHR 0x27"; cases ds) auto
    qed
  next
    case False
    with 2 show ?thesis by (cases cs) auto
  qed
qed simp

text \<open>What remains after a token is a suffix, so it ends in the same character.\<close>

lemma after_block_suffix: "\<exists>p. cs = p @ after_block cs"
proof (induction cs rule: after_block.induct)
  case (2 c cs)
  show ?case
  proof (cases "c = CHR ''*'' \<and> cs \<noteq> [] \<and> hd cs = CHR ''/''")
    case True
    then have "c # cs = [c, hd cs] @ after_block (c # cs)" by (cases cs) simp_all
    then show ?thesis by blast
  next
    case False
    with 2 obtain p where "cs = p @ after_block cs" by auto
    then have "c # cs = (c # p) @ after_block (c # cs)" using False by auto
    then show ?thesis by blast
  qed
qed simp

lemma after_string_suffix: "\<exists>p. cs = p @ after_string cs"
proof (induction cs rule: after_string.induct)
  case (2 c cs)
  show ?case
  proof (cases "c = CHR 0x27")
    case True
    show ?thesis
    proof (cases cs)
      case (Cons d ds)
      show ?thesis
      proof (cases "d = CHR 0x27")
        case d: True
        with 2(1) True Cons obtain p where "ds = p @ after_string ds" by auto
        then have "c # cs = (c # d # p) @ after_string (c # cs)" using True Cons d by simp
        then show ?thesis by blast
      qed (use True Cons in auto)
    qed (use True in auto)
  next
    case False
    with 2(2) obtain p where "cs = p @ after_string cs" by auto
    then have "c # cs = (c # p) @ after_string (c # cs)" using False by simp
    then show ?thesis by blast
  qed
qed simp

lemma after_ident_suffix: "\<exists>p. cs = p @ after_ident cs"
proof (cases "dropWhile (\<lambda>c. c \<noteq> CHR 0x22) cs")
  case Nil
  then have "cs = cs @ after_ident cs" unfolding after_ident_def Nil by simp
  then show ?thesis by blast
next
  case (Cons c r)
  then have "cs = (takeWhile (\<lambda>c. c \<noteq> CHR 0x22) cs @ [c]) @ after_ident cs"
    using takeWhile_dropWhile_id [of "\<lambda>c. c \<noteq> CHR 0x22" cs] by (simp add: after_ident_def)
  then show ?thesis by blast
qed

lemma dropWhile_suffix: "\<exists>p. cs = p @ dropWhile P cs"
  by (metis takeWhile_dropWhile_id)

lemma tl_suffix: "\<exists>p. cs = p @ r \<Longrightarrow> \<exists>p. c # cs = p @ r"
  by (metis append_Cons)

lemma suffix_tl: "\<exists>p. tl cs = p @ r \<Longrightarrow> \<exists>p. c # cs = p @ r"
  by (cases cs) (simp, metis append_Cons append_Nil list.sel(3))

lemma dropWhile_append_stop:
  "\<exists>c\<in>set cs. \<not> P c \<Longrightarrow> dropWhile P (cs @ x) = dropWhile P cs @ x"
  by (induction cs) auto

lemma after_ident_append: "CHR 0x22 \<in> set cs \<Longrightarrow> after_ident (cs @ x) = after_ident cs @ x"
  using dropWhile_append_stop [of cs "\<lambda>c. c \<noteq> CHR 0x22" x]
  by (cases "dropWhile (\<lambda>c. c \<noteq> CHR 0x22) cs") (auto simp: after_ident_def dropWhile_eq_Nil_conv)

lemma word_append:
  assumes "x \<noteq> []" "\<not> word_byte (hd x)"
  shows "takeWhile word_byte (cs @ x) = takeWhile word_byte cs"
    and "dropWhile word_byte (cs @ x) = dropWhile word_byte cs @ x"
  using assms by (induction cs) (auto simp: neq_Nil_conv)

lemma not_word_start:
  "\<not> word_start CHR '';''" "is_ascii_whitespace b \<Longrightarrow> \<not> word_start b"
  by (auto simp: word_start_def is_ascii_whitespace_def is_ascii_alphanumeric_def is_digit_def
      is_ascii_lower_def is_ascii_upper_def)

text \<open>After closed text, a semicolon, a quote, a space or the slash of a comment starts afresh; a
  single quote only where the text does not itself end in one.\<close>

definition fresh_start :: "string \<Rightarrow> string \<Rightarrow> bool" where
  "fresh_start a x \<longleftrightarrow> x \<noteq> [] \<and> hd x \<in> {CHR '';'', CHR 0x22, CHR 0x27, CHR '' '', CHR ''/''}
     \<and> (hd x = CHR 0x27 \<longrightarrow> a = [] \<or> last a \<noteq> CHR 0x27)"

lemma fresh_suffix: "fresh_start a x \<Longrightarrow> \<exists>p. a = p @ r \<Longrightarrow> fresh_start r x"
  by (auto simp: fresh_start_def)

lemma fresh_start_hd:
  "fresh_start a x \<Longrightarrow> \<not> word_byte (hd x) \<and> hd x \<noteq> CHR ''-'' \<and> hd x \<noteq> CHR ''*'' \<and> x \<noteq> []"
  by (auto simp: fresh_start_def word_byte_def is_ascii_alphanumeric_def is_digit_def
      is_ascii_lower_def is_ascii_upper_def)

lemma fresh_start_rests:
  assumes "fresh_start (b # cs) x"
  shows "fresh_start cs x" "fresh_start (after_string cs) x" "fresh_start (after_ident cs) x"
    "fresh_start (dropWhile P cs) x" "fresh_start (dropWhile P (tl cs)) x"
    "fresh_start (after_block (tl cs)) x"
  by (intro fresh_suffix [OF assms] tl_suffix suffix_tl after_string_suffix after_ident_suffix
      dropWhile_suffix after_block_suffix; simp)+

lemma fresh_start_string:
  "fresh_start cs x \<Longrightarrow> string_closed cs \<Longrightarrow> after_string (cs @ x) = after_string cs @ x"
  using after_string_append [of cs x] by (cases cs) (auto simp: fresh_start_def)

lemma sql_lex_append_plain:
  assumes n: "\<not> (b = CHR ''-'' \<and> cs \<noteq> [] \<and> hd cs = CHR ''-'')"
      "\<not> (b = CHR ''/'' \<and> cs \<noteq> [] \<and> hd cs = CHR ''*'')"
    and x: "fresh_start (b # cs) x" and cl: "closed_text (b # cs)"
    and IH: "\<And>r. r \<in> {cs, after_string cs, after_ident cs, dropWhile word_byte cs} \<Longrightarrow>
      closed_text r \<Longrightarrow> sql_lex (r @ x) = sql_lex r @ sql_lex x"
  shows "sql_lex (b # cs @ x) = sql_lex (b # cs) @ sql_lex x"
proof -
  note hx = fresh_start_hd [OF x]
  have m: "\<not> (b = CHR ''-'' \<and> cs @ x \<noteq> [] \<and> hd (cs @ x) = CHR ''-'')"
    "\<not> (b = CHR ''/'' \<and> cs @ x \<noteq> [] \<and> hd (cs @ x) = CHR ''*'')"
    using n hx by (auto simp: hd_append split: if_splits)
  have w: "takeWhile word_byte (cs @ x) = takeWhile word_byte cs"
    "dropWhile word_byte (cs @ x) = dropWhile word_byte cs @ x"
    using word_append hx by auto
  note s = sql_lex_plain [OF m] sql_lex_plain [OF n]
  note c = cl [unfolded closed_text.simps(2) if_not_P [OF n(1)] if_not_P [OF n(2)]]
  consider "b = CHR '';''" | "b = CHR 0x27" | "b = CHR 0x22"
    | "b \<noteq> CHR '';''" "b \<noteq> CHR 0x27" "b \<noteq> CHR 0x22" "is_ascii_whitespace b"
    | "b \<noteq> CHR '';''" "b \<noteq> CHR 0x27" "b \<noteq> CHR 0x22" "\<not> is_ascii_whitespace b" "word_start b"
    | "b \<noteq> CHR '';''" "b \<noteq> CHR 0x27" "b \<noteq> CHR 0x22" "\<not> is_ascii_whitespace b" "\<not> word_start b"
    by blast
  then show ?thesis
  proof cases
    case 1
    with IH [of cs] c show ?thesis unfolding s by (simp add: not_word_start)
  next
    case 2
    with IH [of "after_string cs"] c fresh_start_string [OF fresh_start_rests(1) [OF x]]
    show ?thesis unfolding s by simp
  next
    case 3
    with IH [of "after_ident cs"] c show ?thesis unfolding s by (simp add: after_ident_append)
  next
    case 4
    with IH [of cs] c show ?thesis unfolding s by (simp add: not_word_start)
  next
    case 5
    with IH [of "dropWhile word_byte cs"] c show ?thesis unfolding s by (simp add: w)
  next
    case 6
    with IH [of cs] c show ?thesis unfolding s by simp
  qed
qed

lemma sql_lex_append:
  "closed_text a \<Longrightarrow> fresh_start a x \<Longrightarrow> sql_lex (a @ x) = sql_lex a @ sql_lex x"
proof (induction "length a" arbitrary: a rule: less_induct)
  case less
  show ?case
  proof (cases a)
    case (Cons b cs)
    note x = less.prems(2) [unfolded Cons]
    note cl = less.prems(1) [unfolded Cons]
    have IH: "sql_lex (r @ x) = sql_lex r @ sql_lex x"
      if "length r < Suc (length cs)" "closed_text r" "fresh_start r x" for r
      using that Cons by (intro less.hyps) simp_all
    note f = fresh_start_rests [OF x]
    show ?thesis
    proof (cases "b = CHR ''-'' \<and> cs \<noteq> [] \<and> hd cs = CHR ''-''")
      case True
      then show ?thesis
        using cl IH [OF length_tl_less(2) _ f(5)] unfolding Cons append_Cons
        by (simp add: sql_lex.simps(2) closed_text.simps(2) dropWhile_append_stop)
    next
      case n1: False
      show ?thesis
      proof (cases "b = CHR ''/'' \<and> cs \<noteq> [] \<and> hd cs = CHR ''*''")
        case True
        then show ?thesis
          using cl IH [OF length_tl_less(1) _ f(6)] unfolding Cons append_Cons
          by (simp add: sql_lex.simps(2) closed_text.simps(2) after_block_append)
      next
        case n2: False
        have "sql_lex (r @ x) = sql_lex r @ sql_lex x" if "closed_text r"
          "r \<in> {cs, after_string cs, after_ident cs, dropWhile word_byte cs}" for r
          using that(2) f length_after_string [of cs] length_after_ident [of cs]
            length_dropWhile_le [of word_byte cs] by (intro IH that(1)) auto
        then show ?thesis unfolding Cons append_Cons
          by (intro sql_lex_append_plain [OF n1 n2 x cl]) blast
      qed
    qed
  qed simp
qed

lemma list_ex_significant_dropWhile:
  "list_ex significant (dropWhile (\<lambda>t. t \<noteq> T_Semi) (ts @ T_Semi # us)) \<longleftrightarrow>
     list_ex significant (dropWhile (\<lambda>t. t \<noteq> T_Semi) ts) \<or> list_ex significant us"
  by (induction ts) auto

lemma takeWhile_semi:
  "takeWhile (\<lambda>t. t \<noteq> T_Semi) (ts @ T_Semi # us) = takeWhile (\<lambda>t. t \<noteq> T_Semi) ts"
  by (induction ts) auto

lemma sql_lex_quoted:
  assumes "CHR 0x22 \<notin> set t"
  shows "sql_lex (CHR 0x22 # t @ CHR 0x22 # r) = T_Quoted # sql_lex r"
proof -
  have "after_ident (t @ CHR 0x22 # r) = r"
    using assms by (induction t) (auto simp: after_ident_def)
  moreover have "\<not> is_ascii_whitespace CHR 0x22" by (simp add: is_ascii_whitespace_def)
  ultimately show ?thesis by (simp add: sql_lex.simps(2))
qed

lemma sql_lex_literal:
  assumes "CHR 0x27 \<notin> set t" and "r = [] \<or> hd r \<noteq> CHR 0x27"
  shows "sql_lex (CHR 0x27 # t @ CHR 0x27 # r) = T_Literal # sql_lex r"
proof -
  have "after_string (t @ CHR 0x27 # r) = r"
    using assms by (induction t) (auto split: list.split)
  then show ?thesis by (simp add: sql_lex.simps(2))
qed

text \<open>A block comment in the place of a space.\<close>

lemma after_block_close: "\<not> block_closed c \<Longrightarrow> after_block (c @ ''*/'' @ r) = r"
proof (induction c)
  case (Cons d c)
  then show ?case by (cases c) auto
qed simp

lemma sql_lex_block: "\<not> block_closed c \<Longrightarrow> sql_lex (''/*'' @ c @ ''*/'' @ r) = T_Comment # sql_lex r"
  using after_block_close [of c r] by (simp add: sql_lex.simps(2))

lemma sql_lex_space: "sql_lex (CHR '' '' # r) = T_Space # sql_lex r"
  by (simp add: sql_lex.simps(2) is_ascii_whitespace_def)

lemma insignificant_between:
  "list_ex significant (dropWhile (\<lambda>t. t \<noteq> T_Semi) (ts @ T_Comment # us)) =
     list_ex significant (dropWhile (\<lambda>t. t \<noteq> T_Semi) (ts @ T_Space # us))"
  "token_words (takeWhile (\<lambda>t. t \<noteq> T_Semi) (ts @ T_Comment # us)) =
     token_words (takeWhile (\<lambda>t. t \<noteq> T_Semi) (ts @ T_Space # us))"
proof -
  show "list_ex significant (dropWhile (\<lambda>t. t \<noteq> T_Semi) (ts @ T_Comment # us)) =
     list_ex significant (dropWhile (\<lambda>t. t \<noteq> T_Semi) (ts @ T_Space # us))"
    by (induction ts) auto
  show "token_words (takeWhile (\<lambda>t. t \<noteq> T_Semi) (ts @ T_Comment # us)) =
     token_words (takeWhile (\<lambda>t. t \<noteq> T_Semi) (ts @ T_Space # us))"
    by (induction ts rule: token_words.induct) auto
qed

lemma inspect_eq:
  "inspect sql =
     Some (if more_statements sql then Inl MultipleStatements else classify (leading_words sql))"
  by (simp add: inspect_def scan_eq and_then_def)

lemma classify_Inr_iff:
  "classify ws = Inr k \<longleftrightarrow>
     (\<exists>r. (ws = ''SELECT'' # r \<or> ws = ''WITH'' # r) \<and> k = SK_Query
        \<or> ws = ''INSERT'' # r \<and> k = SK_Insert
        \<or> ws = ''CREATE'' # ''TABLE'' # r \<and> k = SK_CreateTable)"
  by (cases ws) (auto simp: classify_def split: list.splits)

subsection \<open>Properties\<close>

text \<open>C12: on every input the index-driven scanner returns, its slices never fall inside a
  character, and its result is the one of the token specification: an error when anything but
  comments and white space follows a semicolon, else the first two words of the first
  statement in upper case.\<close>

theorem scan_refines_lexer:
  "scan sql = Some (if more_statements sql then Inl MultipleStatements else Inr (leading_words sql))"
  by (rule scan_eq)

text \<open>C13: the guard lets a statement through exactly when it is a single statement whose
  first words are SELECT, WITH, INSERT or CREATE TABLE, and classifies it by them.\<close>

theorem inspect_accepts:
  "inspect sql = Some (Inr k) \<longleftrightarrow>
     \<not> more_statements sql \<and>
     (\<exists>r. (leading_words sql = ''SELECT'' # r \<or> leading_words sql = ''WITH'' # r) \<and> k = SK_Query
        \<or> leading_words sql = ''INSERT'' # r \<and> k = SK_Insert
        \<or> leading_words sql = ''CREATE'' # ''TABLE'' # r \<and> k = SK_CreateTable)"
  by (simp add: inspect_eq classify_Inr_iff)

text \<open>The verdict of the guard does not depend on the letter case of the statement.\<close>

lemma inspect_ignores_case: "inspect (to_ascii_uppercase sql) = inspect sql"
proof -
  have "first_statement (to_ascii_uppercase sql) = map token_upper (first_statement sql)"
    and "more_statements (to_ascii_uppercase sql) = more_statements sql"
    by (simp_all add: first_statement_def more_statements_def to_ascii_uppercase_def lex_upper
        takeWhile_map dropWhile_map comp_def list_ex_iff)
  then show ?thesis
    by (simp add: inspect_eq leading_words_def token_words_upper)
qed

text \<open>C14: after a statement whose quotes and comments are closed, a semicolon followed by
  nothing that counts changes nothing, and one followed by anything else is rejected.\<close>

theorem inspect_semicolon:
  assumes "closed_text a"
  shows "inspect (a @ '';'' @ b) =
    (if list_ex significant (sql_lex b) then Some (Inl MultipleStatements) else inspect a)"
proof -
  have "fresh_start a ('';'' @ b)" by (simp add: fresh_start_def)
  with assms have "sql_lex (a @ '';'' @ b) = sql_lex a @ T_Semi # sql_lex b"
    by (subst sql_lex_append) (simp_all add: sql_lex.simps(2))
  then show ?thesis
    by (simp add: inspect_eq more_statements_def leading_words_def first_statement_def
        list_ex_significant_dropWhile takeWhile_semi)
qed

theorem inspect_semicolon_witness:
  "inspect (''SELECT 1'' @ '';'' @ '' SELECT 2'') = Some (Inl MultipleStatements)"
proof -
  have "closed_text ''SELECT 1''" and "list_ex significant (sql_lex '' SELECT 2'')" by code_simp+
  then show ?thesis using inspect_semicolon [of "''SELECT 1''" "'' SELECT 2''"] by simp
qed

text \<open>C15: the text inside a quoted identifier or a string literal, whatever semicolons,
  keywords or comment marks it holds, has no influence on the verdict.\<close>

theorem inspect_quoted_text:
  assumes "closed_text a" and "q = CHR 0x22 \<or> q = CHR 0x27"
    and "q = CHR 0x27 \<longrightarrow> (a = [] \<or> last a \<noteq> CHR 0x27) \<and> (r = [] \<or> hd r \<noteq> CHR 0x27)"
    and "q \<notin> set s" and "q \<notin> set t"
  shows "inspect (a @ [q] @ s @ [q] @ r) = inspect (a @ [q] @ t @ [q] @ r)"
proof -
  have lex: "sql_lex (a @ q # u @ q # r) = sql_lex a @ (if q = CHR 0x22 then T_Quoted else T_Literal) # sql_lex r"
    if "q \<notin> set u" for u
  proof -
    have "fresh_start a (q # u @ q # r)" using assms(2,3) by (auto simp: fresh_start_def)
    with assms(1) have "sql_lex (a @ q # u @ q # r) = sql_lex a @ sql_lex (q # u @ q # r)"
      by (rule sql_lex_append)
    with assms(2,3) that show ?thesis by (auto simp: sql_lex_quoted sql_lex_literal)
  qed
  have "sql_lex (a @ q # s @ q # r) = sql_lex (a @ q # t @ q # r)"
    using lex [OF assms(4)] lex [OF assms(5)] by simp
  then show ?thesis
    by (simp add: inspect_eq more_statements_def leading_words_def first_statement_def)
qed

theorem inspect_quoted_text_witness:
  "inspect (''INSERT INTO t VALUES ('' @ [CHR 0x27] @ ''a;b'' @ [CHR 0x27] @ '')'') =
   inspect (''INSERT INTO t VALUES ('' @ [CHR 0x27] @ ''ab'' @ [CHR 0x27] @ '')'')"
  by (rule inspect_quoted_text) (code_simp, simp_all)

text \<open>C16: outside of quotes a block comment counts as a space, whatever it holds: semicolons, quotes
  and keywords in it have no influence on the verdict, and nothing can be smuggled past the guard
  in one.\<close>

theorem inspect_comment_is_space:
  assumes "closed_text a" and "\<not> block_closed c"
  shows "inspect (a @ ''/*'' @ c @ ''*/'' @ b) = inspect (a @ '' '' @ b)"
proof -
  have "fresh_start a (''/*'' @ c @ ''*/'' @ b)" "fresh_start a ('' '' @ b)" by (simp_all add: fresh_start_def)
  with assms(1) have "sql_lex (a @ ''/*'' @ c @ ''*/'' @ b) = sql_lex a @ sql_lex (''/*'' @ c @ ''*/'' @ b)"
    "sql_lex (a @ '' '' @ b) = sql_lex a @ sql_lex ('' '' @ b)" by (simp_all only: sql_lex_append)
  then have "sql_lex (a @ ''/*'' @ c @ ''*/'' @ b) = sql_lex a @ T_Comment # sql_lex b"
    "sql_lex (a @ '' '' @ b) = sql_lex a @ T_Space # sql_lex b"
    using sql_lex_block [OF assms(2)] sql_lex_space by simp_all
  then show ?thesis
    unfolding inspect_eq more_statements_def leading_words_def first_statement_def
    by (simp only: insignificant_between)
qed

theorem inspect_comment_is_space_witness:
  "inspect (''SELECT'' @ ''/*'' @ ''; DROP'' @ ''*/'' @ ''1'') = inspect (''SELECT'' @ '' '' @ ''1'')"
  by (rule inspect_comment_is_space) code_simp+

text \<open>C21: the guard returns on every input, without a panic and after finitely many steps, and each
  of its errors has one cause: a second statement, no statement, a CREATE with nothing after it, a
  CREATE of anything but a table, or another first word, which the error names.\<close>

theorem inspect_total:
  "case inspect sql of
     None \<Rightarrow> False
   | Some (Inr k) \<Rightarrow> more_statements sql = False
   | Some (Inl e) \<Rightarrow>
       more_statements sql \<and> e = MultipleStatements
       \<or> leading_words sql = [] \<and> e = InvalidArgument ''statement is empty''
       \<or> leading_words sql = [''CREATE''] \<and> e = InvalidArgument ''incomplete CREATE statement''
       \<or> (\<exists>w r. leading_words sql = ''CREATE'' # w # r \<and> w \<noteq> ''TABLE''
            \<and> e = Unsupported (''CREATE '' @ w @ '' statements''))
       \<or> (\<exists>w r. leading_words sql = w # r \<and> w \<notin> {''SELECT'', ''WITH'', ''INSERT'', ''CREATE''}
            \<and> e = Unsupported (w @ '' statements''))"
  by (cases "leading_words sql"; cases "tl (leading_words sql)")
    (simp_all add: inspect_eq classify_def)

end
