(* ===== verification/Protocol.thy ===== *)
theory Protocol
  imports Schema
begin

section \<open>The wire types (\<open>src/src/protocol.rs\<close>)\<close>

text \<open>
  Commands, result rows and responses, with the two constructors of \<open>CommandWithArgs\<close> and the
  text that \<open>derive(Debug)\<close> prints of a response, which the client puts into its errors.
  Which non-ASCII characters \<open>Debug\<close> prints as they are is decided by the Unicode tables of the
  standard library: the parameter \<open>printable\<close>, on code points.
\<close>

datatype system_command = SC_Create | SC_Connect | SC_Reset | SC_Shutdown | SC_CloseConnection
  | SC_QuietMode | SC_ShowDatabases | SC_Test | SC_Help

datatype db_command = DC_ExecuteSQL | DC_RegisterQuery | DC_RunQueryFull | DC_RunQueryPartial
  | DC_ConvertQuery | DC_ShowTables | DC_ShowQueries | DC_Generate | DC_Import | DC_Commit

datatype command = System system_command | DB db_command

record command_with_args =
  cwa_command :: command
  cwa_args :: "string list"

definition cwa_system :: "system_command \<Rightarrow> string list \<Rightarrow> command_with_args" where
  "cwa_system c args = \<lparr>cwa_command = System c, cwa_args = args\<rparr>"

definition cwa_db :: "db_command \<Rightarrow> string list \<Rightarrow> command_with_args" where
  "cwa_db c args = \<lparr>cwa_command = DB c, cwa_args = args\<rparr>"

record value_id =
  container_id :: u16
  segment_id :: "u8 option"
  page_id :: "u32 option"
  slot_id :: "u16 option"

record row_tuple =
  tid :: u64
  value_id :: "value_id option"
  field_vals :: "val list"

record paging_info =
  current_page :: u32
  total_pages :: u32
  has_next_page :: bool
  page_size :: u32

datatype query_result =
    QR_MessageOnly string
  | QR_Select schema "row_tuple list" "paging_info option"
  | QR_Insert u64 string

datatype response =
    R_Ok
  | R_SystemMsg string
  | R_SystemErr string
  | R_QueryResult query_result
  | R_QueryExecutionError string
  | R_Shutdown bool
  | R_QuietOk
  | R_QuietErr

subsection \<open>\<open>Debug\<close> of strings\<close>

fun code_point :: "string \<Rightarrow> nat" where
  "code_point [a] = of_char a"
| "code_point [a, b] = (of_char a - 192) * 64 + (of_char b - 128)"
| "code_point [a, b, c] = (of_char a - 224) * 4096 + (of_char b - 128) * 64 + (of_char c - 128)"
| "code_point [a, b, c, d] =
     (of_char a - 240) * 262144 + (of_char b - 128) * 4096 + (of_char c - 128) * 64
     + (of_char d - 128)"
| "code_point _ = 0"

definition hex_digit :: "nat \<Rightarrow> char" where
  "hex_digit d = (if d < 10 then char_of (48 + d) else char_of (87 + d))"

fun hex :: "nat \<Rightarrow> string" where
  "hex n = (if n < 16 then [hex_digit n] else hex (n div 16) @ [hex_digit (n mod 16)])"

declare hex.simps [simp del]

definition debug_char :: "(nat \<Rightarrow> bool) \<Rightarrow> string \<Rightarrow> string" where
  "debug_char printable g =
     (if g = [CHR 0x00] then [CHR 0x5C, CHR ''0'']
      else if g = [CHR 0x09] then [CHR 0x5C, CHR ''t'']
      else if g = [CHR 0x0D] then [CHR 0x5C, CHR ''r'']
      else if g = [CHR 0x0A] then [CHR 0x5C, CHR ''n'']
      else if g = [CHR 0x22] then [CHR 0x5C, CHR 0x22]
      else if g = [CHR 0x5C] then [CHR 0x5C, CHR 0x5C]
      else if (if code_point g < 128 then 32 \<le> code_point g \<and> code_point g < 127
               else printable (code_point g)) then g
      else [CHR 0x5C] @ ''u{'' @ hex (code_point g) @ ''}'')"

definition debug_str :: "(nat \<Rightarrow> bool) \<Rightarrow> string \<Rightarrow> string" where
  "debug_str printable s =
     [CHR 0x22] @ concat (map (debug_char printable) (chars s)) @ [CHR 0x22]"

subsection \<open>Derived \<open>Debug\<close>\<close>

definition debug_tuple :: "string \<Rightarrow> string list \<Rightarrow> string" where
  "debug_tuple name fs = name @ ''('' @ join '', '' fs @ '')''"

definition debug_struct :: "string \<Rightarrow> (string \<times> string) list \<Rightarrow> string" where
  "debug_struct name fs =
     name @ '' { '' @ join '', '' (map (\<lambda>(f, v). f @ '': '' @ v) fs) @ '' }''"

definition debug_list :: "('a \<Rightarrow> string) \<Rightarrow> 'a list \<Rightarrow> string" where
  "debug_list dbg xs = ''['' @ join '', '' (map dbg xs) @ '']''"

definition debug_option :: "('a \<Rightarrow> string) \<Rightarrow> 'a option \<Rightarrow> string" where
  "debug_option dbg x = (case x of None \<Rightarrow> ''None'' | Some y \<Rightarrow> debug_tuple ''Some'' [dbg y])"

definition debug_bool :: "bool \<Rightarrow> string" where
  "debug_bool b = (if b then ''true'' else ''false'')"

definition debug_uint :: "'a::len word \<Rightarrow> string" where
  "debug_uint w = digits (unat w)"

fun debug_data_type :: "data_type \<Rightarrow> string" where
  "debug_data_type TBigInt = ''BigInt''"
| "debug_data_type TInt = ''Int''"
| "debug_data_type TSmallInt = ''SmallInt''"
| "debug_data_type (TChar n) = debug_tuple ''Char'' [debug_uint n]"
| "debug_data_type TString = ''String''"
| "debug_data_type (TDecimal p s) = debug_tuple ''Decimal'' [debug_uint p, debug_uint s]"
| "debug_data_type TDate = ''Date''"
| "debug_data_type TBool = ''Bool''"
| "debug_data_type TNull = ''Null''"

fun debug_val :: "(nat \<Rightarrow> bool) \<Rightarrow> val \<Rightarrow> string" where
  "debug_val P (VBigInt i) = debug_tuple ''BigInt'' [show_int (sint i)]"
| "debug_val P (VInt i) = debug_tuple ''Int'' [show_int (sint i)]"
| "debug_val P (VSmallInt i) = debug_tuple ''SmallInt'' [show_int (sint i)]"
| "debug_val P (VChar n s) = debug_tuple ''Char'' [debug_uint n, debug_str P s]"
| "debug_val P (VString s) = debug_tuple ''String'' [debug_str P s]"
| "debug_val P (VDecimal w s) = debug_tuple ''Decimal'' [show_int (sint w), debug_uint s]"
| "debug_val P (VDate d) = debug_tuple ''Date'' [show_int (sint d)]"
| "debug_val P (VBool b) = debug_tuple ''Bool'' [debug_bool b]"
| "debug_val P VNull = ''Null''"

fun debug_constraint :: "constraint \<Rightarrow> string" where
  "debug_constraint CNone = ''None''"
| "debug_constraint CPrimaryKey = ''PrimaryKey''"
| "debug_constraint CUnique = ''Unique''"
| "debug_constraint CNotNull = ''NotNull''"
| "debug_constraint CUniqueNotNull = ''UniqueNotNull''"
| "debug_constraint (CForeignKey c) = debug_tuple ''ForeignKey'' [debug_uint c]"
| "debug_constraint (CNotNullFKey c) = debug_tuple ''NotNullFKey'' [debug_uint c]"

definition debug_attribute :: "(nat \<Rightarrow> bool) \<Rightarrow> attribute \<Rightarrow> string" where
  "debug_attribute P a = debug_struct ''Attribute''
     [(''name'', debug_str P (attr_name a)), (''dtype'', debug_data_type (attr_dtype a)),
      (''constraint'', debug_constraint (attr_constraint a))]"

definition debug_schema :: "(nat \<Rightarrow> bool) \<Rightarrow> schema \<Rightarrow> string" where
  "debug_schema P s = debug_struct ''Schema''
     [(''attributes'', debug_list (debug_attribute P) (attributes s))]"

definition debug_value_id :: "value_id \<Rightarrow> string" where
  "debug_value_id v = debug_struct ''ValueId''
     [(''container_id'', debug_uint (container_id v)),
      (''segment_id'', debug_option debug_uint (segment_id v)),
      (''page_id'', debug_option debug_uint (page_id v)),
      (''slot_id'', debug_option debug_uint (slot_id v))]"

definition debug_row_tuple :: "(nat \<Rightarrow> bool) \<Rightarrow> row_tuple \<Rightarrow> string" where
  "debug_row_tuple P t = debug_struct ''Tuple''
     [(''tid'', debug_uint (tid t)), (''value_id'', debug_option debug_value_id (value_id t)),
      (''field_vals'', debug_list (debug_val P) (field_vals t))]"

definition debug_paging_info :: "paging_info \<Rightarrow> string" where
  "debug_paging_info p = debug_struct ''PagingInfo''
     [(''current_page'', debug_uint (current_page p)), (''total_pages'', debug_uint (total_pages p)),
      (''has_next_page'', debug_bool (has_next_page p)), (''page_size'', debug_uint (page_size p))]"

fun debug_query_result :: "(nat \<Rightarrow> bool) \<Rightarrow> query_result \<Rightarrow> string" where
  "debug_query_result P (QR_MessageOnly m) = debug_tuple ''MessageOnly'' [debug_str P m]"
| "debug_query_result P (QR_Select s ts pg) = debug_struct ''Select''
     [(''schema'', debug_schema P s), (''result'', debug_list (debug_row_tuple P) ts),
      (''paging_info'', debug_option debug_paging_info pg)]"
| "debug_query_result P (QR_Insert n t) = debug_struct ''Insert''
     [(''inserted'', debug_uint n), (''table_name'', debug_str P t)]"

fun debug_response :: "(nat \<Rightarrow> bool) \<Rightarrow> response \<Rightarrow> string" where
  "debug_response P R_Ok = ''Ok''"
| "debug_response P (R_SystemMsg m) = debug_tuple ''SystemMsg'' [debug_str P m]"
| "debug_response P (R_SystemErr m) = debug_tuple ''SystemErr'' [debug_str P m]"
| "debug_response P (R_QueryResult q) = debug_tuple ''QueryResult'' [debug_query_result P q]"
| "debug_response P (R_QueryExecutionError m) =
     debug_tuple ''QueryExecutionError'' [debug_str P m]"
| "debug_response P (R_Shutdown b) = debug_tuple ''Shutdown'' [debug_bool b]"
| "debug_response P R_QuietOk = ''QuietOk''"
| "debug_response P R_QuietErr = ''QuietErr''"

lemma cwa_args_simps [simp]:
  "cwa_args (cwa_system c args) = args" "cwa_args (cwa_db d args) = args"
  by (simp_all add: cwa_system_def cwa_db_def)

lemma cwa_command_simps [simp]:
  "cwa_command (cwa_system c args) = System c" "cwa_command (cwa_db d args) = DB d"
  by (simp_all add: cwa_system_def cwa_db_def)

end
