(* ===== verification/Cbor.thy ===== *)
theory Cbor
  imports Prelude
begin

section \<open>Bytes and a reference CBOR codec\<close>

text \<open>
  Big-endian integers, and the part of CBOR (RFC 8949) that the protocol uses, as a tree type
  with an encoder and a decoder. \<open>serde_cbor\<close> itself is not in this repository and stays a
  parameter of the model; this codec is the concrete function by which the theories show that
  what they assume of it can hold, and by which the captured server response is checked.
\<close>

subsection \<open>Big-endian integers\<close>

fun be_bytes :: "nat \<Rightarrow> nat \<Rightarrow> u8 list" where
  "be_bytes 0 n = []"
| "be_bytes (Suc k) n = be_bytes k (n div 256) @ [of_nat (n mod 256)]"

definition be_val :: "u8 list \<Rightarrow> nat" where
  "be_val bs = foldl (\<lambda>a b. 256 * a + unat b) 0 bs"

text \<open>\<open>u64::from_be_bytes\<close> and \<open>u64::to_be_bytes\<close>.\<close>

definition from_be_bytes :: "u8 list \<Rightarrow> u64" where
  "from_be_bytes bs = of_nat (be_val bs)"

definition to_be_bytes :: "u64 \<Rightarrow> u8 list" where
  "to_be_bytes w = be_bytes 8 (unat w)"

lemma be_val_snoc [simp]: "be_val (bs @ [b]) = 256 * be_val bs + unat b"
  by (simp add: be_val_def)

lemma be_val_Nil [simp]: "be_val [] = 0"
  by (simp add: be_val_def)

lemma length_be_bytes [simp]: "length (be_bytes k n) = k"
  by (induction k arbitrary: n) simp_all

lemma unat_byte [simp]: "n < 256 \<Longrightarrow> unat (of_nat n :: u8) = n"
  by (simp add: unat_of_nat)

lemma be_val_be_bytes: "n < 256 ^ k \<Longrightarrow> be_val (be_bytes k n) = n"
proof (induction k arbitrary: n)
  case (Suc k)
  then have "n div 256 < 256 ^ k" by (simp add: less_mult_imp_div_less mult.commute)
  with Suc.IH have "be_val (be_bytes k (n div 256)) = n div 256" by blast
  moreover have "n mod 256 < 256" by simp
  ultimately have "be_val (be_bytes (Suc k) n) = 256 * (n div 256) + n mod 256"
    by (simp only: be_bytes.simps be_val_snoc unat_byte)
  then show ?case by (simp only: mult_div_mod_eq)
qed simp

lemma length_to_be_bytes [simp]: "length (to_be_bytes w) = 8"
  by (simp add: to_be_bytes_def)

lemma from_to_be_bytes [simp]: "from_be_bytes (to_be_bytes w) = w"
proof -
  have "unat w < 256 ^ 8" using unsigned_less [of w] by simp
  then show ?thesis by (simp add: from_be_bytes_def to_be_bytes_def be_val_be_bytes)
qed

subsection \<open>Trees and their encoding\<close>

datatype cbor = C_Int int | C_Text string | C_Array "cbor list"
  | C_Map "(string \<times> cbor) list" | C_Bool bool | C_Null

definition bytes_of :: "string \<Rightarrow> u8 list" where
  "bytes_of s = map of_char s"

definition text_of :: "u8 list \<Rightarrow> string" where
  "text_of bs = map (\<lambda>b. char_of (unat b)) bs"

lemma text_of_bytes_of [simp]: "text_of (bytes_of s) = s"
proof -
  have "unat (of_char c :: u8) = of_char c" for c :: char
  proof -
    have "(of_char c :: u8) = of_nat (of_char c)" by (simp only: of_nat_of_char)
    moreover have "(of_char c :: nat) < 256" by (rule nat_of_char_less_256)
    ultimately show ?thesis by (simp only: unat_byte)
  qed
  then show ?thesis by (simp add: text_of_def bytes_of_def comp_def)
qed

lemma length_bytes_of [simp]: "length (bytes_of s) = length s"
  by (simp add: bytes_of_def)

text \<open>The head of an item: the major type in the top three bits, then its argument.\<close>

definition enc_head :: "nat \<Rightarrow> nat \<Rightarrow> u8 list" where
  "enc_head m n =
     (if n < 24 then [of_nat (m * 32 + n)]
      else if n < 2 ^ 8 then of_nat (m * 32 + 24) # be_bytes 1 n
      else if n < 2 ^ 16 then of_nat (m * 32 + 25) # be_bytes 2 n
      else if n < 2 ^ 32 then of_nat (m * 32 + 26) # be_bytes 4 n
      else of_nat (m * 32 + 27) # be_bytes 8 n)"

definition enc_text :: "string \<Rightarrow> u8 list" where
  "enc_text s = enc_head 3 (length s) @ bytes_of s"

fun cbor_encode :: "cbor \<Rightarrow> u8 list" where
  "cbor_encode (C_Int i) =
     (if 0 \<le> i then enc_head 0 (nat i) else enc_head 1 (nat (- 1 - i)))"
| "cbor_encode (C_Text s) = enc_text s"
| "cbor_encode (C_Array xs) = enc_head 4 (length xs) @ concat (map cbor_encode xs)"
| "cbor_encode (C_Map fs) =
     enc_head 5 (length fs) @ concat (map (\<lambda>f. enc_text (fst f) @ cbor_encode (snd f)) fs)"
| "cbor_encode (C_Bool b) = [if b then 0xF5 else 0xF4]"
| "cbor_encode C_Null = [0xF6]"

subsection \<open>Decoding\<close>

text \<open>Take an exact number of bytes.\<close>

definition split_at :: "nat \<Rightarrow> 'a list \<Rightarrow> ('a list \<times> 'a list) option" where
  "split_at n bs = (if n \<le> length bs then Some (take n bs, drop n bs) else None)"

definition dec_arg :: "nat \<Rightarrow> u8 list \<Rightarrow> (nat \<times> u8 list) option" where
  "dec_arg k bs = map_option (\<lambda>(x, r). (be_val x, r)) (split_at k bs)"

definition dec_head :: "u8 list \<Rightarrow> (nat \<times> nat \<times> u8 list) option" where
  "dec_head bs =
     (case bs of [] \<Rightarrow> None | b # r \<Rightarrow>
        let m = unat b div 32; a = unat b mod 32 in
        if a < 24 then Some (m, a, r)
        else if a < 28 then map_option (Pair m) (dec_arg (2 ^ (a - 24)) r)
        else None)"

definition dec_text :: "u8 list \<Rightarrow> (string \<times> u8 list) option" where
  "dec_text bs =
     (case dec_head bs of
        Some (m, n, r) \<Rightarrow> if m = 3 then map_option (\<lambda>(x, r). (text_of x, r)) (split_at n r) else None
      | None \<Rightarrow> None)"

fun dec :: "nat \<Rightarrow> u8 list \<Rightarrow> (cbor \<times> u8 list) option"
  and dec_items :: "nat \<Rightarrow> nat \<Rightarrow> u8 list \<Rightarrow> (cbor list \<times> u8 list) option"
  and dec_fields :: "nat \<Rightarrow> nat \<Rightarrow> u8 list \<Rightarrow> ((string \<times> cbor) list \<times> u8 list) option" where
  "dec 0 bs = None"
| "dec (Suc f) bs =
     (case dec_head bs of
        None \<Rightarrow> None
      | Some (m, n, r) \<Rightarrow>
          if m = 0 then Some (C_Int (int n), r)
          else if m = 1 then Some (C_Int (- 1 - int n), r)
          else if m = 3 then map_option (\<lambda>(x, r). (C_Text (text_of x), r)) (split_at n r)
          else if m = 4 then map_option (\<lambda>(xs, r). (C_Array xs, r)) (dec_items f n r)
          else if m = 5 then map_option (\<lambda>(fs, r). (C_Map fs, r)) (dec_fields f n r)
          else if m = 7 then
            (if n = 20 then Some (C_Bool False, r)
             else if n = 21 then Some (C_Bool True, r)
             else if n = 22 then Some (C_Null, r) else None)
          else None)"
| "dec_items f 0 bs = Some ([], bs)"
| "dec_items 0 (Suc n) bs = None"
| "dec_items (Suc f) (Suc n) bs =
     (case dec f bs of
        None \<Rightarrow> None
      | Some (x, r) \<Rightarrow> map_option (\<lambda>(xs, r). (x # xs, r)) (dec_items f n r))"
| "dec_fields f 0 bs = Some ([], bs)"
| "dec_fields 0 (Suc n) bs = None"
| "dec_fields (Suc f) (Suc n) bs =
     (case dec_text bs of
        None \<Rightarrow> None
      | Some (k, r) \<Rightarrow>
          (case dec f r of
             None \<Rightarrow> None
           | Some (x, r) \<Rightarrow> map_option (\<lambda>(fs, r). ((k, x) # fs, r)) (dec_fields f n r)))"

text \<open>An item takes at least one byte and two units of fuel; nothing may follow it.\<close>

definition cbor_decode :: "u8 list \<Rightarrow> cbor option" where
  "cbor_decode bs =
     (case dec (2 * length bs + 1) bs of Some (x, []) \<Rightarrow> Some x | _ \<Rightarrow> None)"

subsection \<open>Decoding inverts encoding\<close>

fun cbor_ok :: "cbor \<Rightarrow> bool" where
  "cbor_ok (C_Int i) \<longleftrightarrow> - (2 ^ 64) \<le> i \<and> i < 2 ^ 64"
| "cbor_ok (C_Text s) \<longleftrightarrow> length s < 2 ^ 64"
| "cbor_ok (C_Array xs) \<longleftrightarrow> length xs < 2 ^ 64 \<and> list_all cbor_ok xs"
| "cbor_ok (C_Map fs) \<longleftrightarrow>
     length fs < 2 ^ 64 \<and> list_all (\<lambda>f. length (fst f) < 2 ^ 64 \<and> cbor_ok (snd f)) fs"
| "cbor_ok (C_Bool b) \<longleftrightarrow> True"
| "cbor_ok C_Null \<longleftrightarrow> True"

lemma split_at_append: "length xs = n \<Longrightarrow> split_at n (xs @ r) = Some (xs, r)"
  by (auto simp: split_at_def)

lemma dec_arg_be_bytes: "n < 256 ^ k \<Longrightarrow> dec_arg k (be_bytes k n @ r) = Some (n, r)"
  by (simp add: dec_arg_def split_at_append be_val_be_bytes)

lemma dec_head_byte:
  assumes "m < 8" "a < 28"
  shows "dec_head (of_nat (m * 32 + a) # r) =
    (if a < 24 then Some (m, a, r) else map_option (Pair m) (dec_arg (2 ^ (a - 24)) r))"
proof -
  have "m * 32 + a < 256" using assms by linarith
  then have "unat (of_nat (m * 32 + a) :: u8) = m * 32 + a" by (rule unat_byte)
  moreover have "(m * 32 + a) div 32 = m" "(m * 32 + a) mod 32 = a" using assms by simp_all
  ultimately show ?thesis using assms(2) by (simp add: dec_head_def Let_def)
qed

lemma dec_head_enc_head:
  assumes "m < 8" "n < 2 ^ 64"
  shows "dec_head (enc_head m n @ r) = Some (m, n, r)"
proof -
  consider "n < 24" | "\<not> n < 24" "n < 2 ^ 8" | "\<not> n < 24" "\<not> n < 2 ^ 8" "n < 2 ^ 16"
    | "\<not> n < 24" "\<not> n < 2 ^ 8" "\<not> n < 2 ^ 16" "n < 2 ^ 32"
    | "\<not> n < 24" "\<not> n < 2 ^ 8" "\<not> n < 2 ^ 16" "\<not> n < 2 ^ 32" by blast
  then show ?thesis
  proof cases
    case 1
    then show ?thesis using dec_head_byte [OF assms(1), of n r] by (simp add: enc_head_def)
  next
    case 2
    then show ?thesis using dec_head_byte [OF assms(1), of 24 "be_bytes 1 n @ r"]
        dec_arg_be_bytes [of n 1 r] unfolding enc_head_def if_not_P [OF 2(1)] by simp
  next
    case 3
    then show ?thesis using dec_head_byte [OF assms(1), of 25 "be_bytes 2 n @ r"]
        dec_arg_be_bytes [of n 2 r] unfolding enc_head_def if_not_P [OF 3(1)] if_not_P [OF 3(2)]
      by simp
  next
    case 4
    then show ?thesis using dec_head_byte [OF assms(1), of 26 "be_bytes 4 n @ r"]
        dec_arg_be_bytes [of n 4 r]
      unfolding enc_head_def if_not_P [OF 4(1)] if_not_P [OF 4(2)] if_not_P [OF 4(3)] by simp
  next
    case 5
    then show ?thesis using dec_head_byte [OF assms(1), of 27 "be_bytes 8 n @ r"]
        dec_arg_be_bytes [of n 8 r] assms(2)
      unfolding enc_head_def if_not_P [OF 5(1)] if_not_P [OF 5(2)] if_not_P [OF 5(3)]
        if_not_P [OF 5(4)] by simp
  qed
qed

lemma enc_head_not_Nil [simp]: "enc_head m n \<noteq> []"
  by (simp add: enc_head_def)

text \<open>Fuel left after an item of length \<open>a\<close>.\<close>

lemma fuel_step:
  assumes "xs \<noteq> []" "2 * (length xs + b) < f"
  obtains g where "f = Suc (Suc g)" "2 * b < g"
proof
  have "0 < length xs" using assms(1) by (rule length_greater_0_conv [THEN iffD2])
  with assms(2) show "f = Suc (Suc (f - 2))" by arith
  from assms(2) \<open>0 < length xs\<close> show "2 * b < f - 2" by arith
qed

lemma encode_not_Nil [simp]: "cbor_encode c \<noteq> []" "enc_text s \<noteq> []"
  by (cases c) (simp_all add: enc_text_def)

lemma dec_text_enc_text: "length s < 2 ^ 64 \<Longrightarrow> dec_text (enc_text s @ r) = Some (s, r)"
  by (simp add: dec_text_def enc_text_def dec_head_enc_head split_at_append)

lemma dec_items_encode:
  assumes "\<And>x f r. x \<in> set xs \<Longrightarrow> 2 * length (cbor_encode x) < f \<Longrightarrow>
    dec f (cbor_encode x @ r) = Some (x, r)"
  shows "2 * length (concat (map cbor_encode xs)) < f \<Longrightarrow>
    dec_items (Suc f) (length xs) (concat (map cbor_encode xs) @ r) = Some (xs, r)"
  using assms
proof (induction xs arbitrary: f)
  case (Cons x xs)
  have "2 * (length (cbor_encode x) + length (concat (map cbor_encode xs))) < f"
    using Cons.prems(1) by simp
  with encode_not_Nil(1) obtain g' where "f = Suc (Suc g')"
    "2 * length (concat (map cbor_encode xs)) < g'" by (rule fuel_step)
  then obtain g where f: "f = Suc g" and g: "2 * length (concat (map cbor_encode xs)) < g"
    using less_SucI by blast
  have "dec f (cbor_encode x @ concat (map cbor_encode xs) @ r) = Some (x, concat (map cbor_encode xs) @ r)"
    by (rule Cons.prems(2)) (use Cons.prems(1) in simp_all)
  moreover have "dec_items (Suc g) (length xs) (concat (map cbor_encode xs) @ r) = Some (xs, r)"
    by (rule Cons.IH [OF g]) (rule Cons.prems(2), simp_all)
  ultimately show ?case by (simp add: f)
qed simp

lemma dec_fields_encode:
  assumes "\<And>k x f r. (k, x) \<in> set fs \<Longrightarrow> 2 * length (cbor_encode x) < f \<Longrightarrow>
    length k < 2 ^ 64 \<and> dec f (cbor_encode x @ r) = Some (x, r)"
  shows "2 * length (concat (map (\<lambda>f. enc_text (fst f) @ cbor_encode (snd f)) fs)) < f \<Longrightarrow>
    dec_fields (Suc f) (length fs) (concat (map (\<lambda>f. enc_text (fst f) @ cbor_encode (snd f)) fs) @ r)
      = Some (fs, r)"
  using assms
proof (induction fs arbitrary: f)
  case (Cons kx fs)
  obtain k x where kx: "kx = (k, x)" by fastforce
  let ?fs = "concat (map (\<lambda>f. enc_text (fst f) @ cbor_encode (snd f)) fs)"
  have "2 * (length (enc_text k) + length ?fs) < f" using Cons.prems(1) kx by simp
  with encode_not_Nil(2) obtain g' where "f = Suc (Suc g')" "2 * length ?fs < g'"
    by (rule fuel_step)
  then obtain g where f: "f = Suc g" and g: "2 * length ?fs < g" using less_SucI by blast
  have "length k < 2 ^ 64 \<and> dec f (cbor_encode x @ ?fs @ r) = Some (x, ?fs @ r)"
    by (rule Cons.prems(2)) (use Cons.prems(1) kx in simp_all)
  moreover have "dec_fields (Suc g) (length fs) (?fs @ r) = Some (fs, r)"
    by (rule Cons.IH [OF g]) (rule Cons.prems(2), simp_all)
  ultimately show ?case by (simp add: f kx dec_text_enc_text)
qed simp

lemma dec_encode:
  "cbor_ok c \<Longrightarrow> 2 * length (cbor_encode c) < f \<Longrightarrow> dec f (cbor_encode c @ r) = Some (c, r)"
proof (induction c arbitrary: f r)
  case (C_Array xs)
  have "2 * (length (enc_head 4 (length xs)) + length (concat (map cbor_encode xs))) < f"
    using C_Array.prems(2) by simp
  with enc_head_not_Nil obtain g where f: "f = Suc (Suc g)"
    and g: "2 * length (concat (map cbor_encode xs)) < g" by (rule fuel_step)
  have "dec_items (Suc g) (length xs) (concat (map cbor_encode xs) @ r) = Some (xs, r)"
    by (rule dec_items_encode [OF _ g]) (use C_Array in \<open>simp add: list_all_iff\<close>)
  with C_Array.prems(1) show ?case by (simp add: f dec_head_enc_head del: dec_items.simps)
next
  case (C_Map fs)
  let ?fs = "concat (map (\<lambda>f. enc_text (fst f) @ cbor_encode (snd f)) fs)"
  have "2 * (length (enc_head 5 (length fs)) + length ?fs) < f" using C_Map.prems(2) by simp
  with enc_head_not_Nil obtain g where f: "f = Suc (Suc g)" and g: "2 * length ?fs < g"
    by (rule fuel_step)
  have "dec_fields (Suc g) (length fs) (?fs @ r) = Some (fs, r)"
    by (rule dec_fields_encode [OF _ g]) (use C_Map in \<open>fastforce simp: list_all_iff\<close>)
  with C_Map.prems(1) show ?case by (simp add: f dec_head_enc_head del: dec_fields.simps)
next
  case (C_Bool b)
  then show ?case by (cases f) (simp_all add: dec_head_def Let_def)
next
  case C_Null
  then show ?case by (cases f) (simp_all add: dec_head_def Let_def)
next
  case (C_Int i)
  then show ?case by (cases f) (auto simp: dec_head_enc_head nat_less_iff)
next
  case (C_Text s)
  then show ?case
    by (cases f) (simp_all add: enc_text_def dec_head_enc_head split_at_append)
qed

lemma cbor_decode_encode: "cbor_ok c \<Longrightarrow> cbor_decode (cbor_encode c) = Some c"
  using dec_encode [of c "2 * length (cbor_encode c) + 1" "[]"] by (simp add: cbor_decode_def)

subsection \<open>What keeps the lengths within bounds\<close>

text \<open>The integers of a tree fit the head of an item; the lengths do when the encoding is short.\<close>

fun cbor_ints :: "cbor \<Rightarrow> bool" where
  "cbor_ints (C_Int i) \<longleftrightarrow> - (2 ^ 64) \<le> i \<and> i < 2 ^ 64"
| "cbor_ints (C_Array xs) \<longleftrightarrow> list_all cbor_ints xs"
| "cbor_ints (C_Map fs) \<longleftrightarrow> list_all (\<lambda>f. cbor_ints (snd f)) fs"
| "cbor_ints _ \<longleftrightarrow> True"

lemma length_concat_parts:
  assumes "\<And>x. x \<in> set xs \<Longrightarrow> f x \<noteq> []"
  shows "length xs \<le> length (concat (map f xs))"
  using assms
proof (induction xs)
  case (Cons x xs)
  then have "1 \<le> length (f x)" "length xs \<le> length (concat (map f xs))" by (simp_all add: Suc_leI)
  from add_mono [OF this] show ?case by simp
qed simp

lemma length_part: "x \<in> set xs \<Longrightarrow> length (f x) \<le> length (concat (map f xs))"
  by (induction xs) auto

lemma short_ok: "length (cbor_encode c) < 2 ^ 64 \<Longrightarrow> cbor_ints c \<Longrightarrow> cbor_ok c"
proof (induction c)
  case (C_Text s)
  then show ?case by (simp add: enc_text_def)
next
  case (C_Array xs)
  have l: "length (concat (map cbor_encode xs)) < 2 ^ 64" using C_Array.prems(1) by simp
  then have "length xs < 2 ^ 64" using length_concat_parts [of xs cbor_encode] by simp
  moreover have "cbor_ok x" if "x \<in> set xs" for x
    using C_Array.IH [OF that] C_Array.prems(2) that l length_part [OF that, of cbor_encode]
    by (simp add: list_all_iff)
  ultimately show ?case by (simp add: list_all_iff)
next
  case (C_Map fs)
  let ?f = "\<lambda>f. enc_text (fst f) @ cbor_encode (snd f)"
  have l: "length (concat (map ?f fs)) < 2 ^ 64" using C_Map.prems(1) by simp
  then have "length fs < 2 ^ 64" using length_concat_parts [of fs ?f] by simp
  moreover have "length (fst f) < 2 ^ 64 \<and> cbor_ok (snd f)" if f: "f \<in> set fs" for f
  proof -
    have "length (?f f) < 2 ^ 64" using l length_part [OF f, of ?f] by linarith
    then have "length (fst f) < 2 ^ 64" "length (cbor_encode (snd f)) < 2 ^ 64"
      by (simp_all add: enc_text_def)
    moreover have "cbor_ints (snd f)" using C_Map.prems(2) f by (simp add: list_all_iff)
    ultimately show ?thesis using C_Map.IH [of f "snd f"] f by (cases f) simp
  qed
  ultimately show ?case by (simp add: list_all_iff)
qed simp_all

end
