(* ===== verification/Wire.thy ===== *)
theory Wire
  imports Protocol Cbor "HOL-Library.Monad_Syntax"
begin

section \<open>The wire format of the protocol types\<close>

text \<open>
  The types of \<open>protocol.rs\<close>, \<open>schema.rs\<close> and \<open>value.rs\<close> as CBOR trees. A
  \<open>ser_\<close> function is what \<open>derive(Serialize)\<close> with the attributes of the source documents:
  a struct is a map from field names, an enum is externally tagged (a unit variant is its name,
  any other variant a map from its name to its payload), \<open>Option\<close> is null or the value. A
  \<open>de_\<close> function reads that form back: the order of the fields does not matter, unknown fields
  are ignored, a repeated one is an error, a missing one is an error unless it is an \<open>Option\<close>.
  \<open>Schema\<close> has hand-written impls: a bare sequence of attributes. The other forms \<open>serde\<close>
  accepts (a struct as an array, a variant by its index) are not modelled: no peer sends them.
\<close>

subsection \<open>Primitives\<close>

definition ser_uint :: "'a::len word \<Rightarrow> cbor" where
  "ser_uint w = C_Int (uint w)"

definition ser_sint :: "'a::len word \<Rightarrow> cbor" where
  "ser_sint w = C_Int (sint w)"

fun de_uint :: "cbor \<Rightarrow> 'a::len word option" where
  "de_uint (C_Int i) =
     (if 0 \<le> i \<and> i < 2 ^ LENGTH('a) then Some (word_of_int i) else None)"
| "de_uint _ = None"

fun de_sint :: "cbor \<Rightarrow> 'a::len word option" where
  "de_sint (C_Int i) =
     (if - (2 ^ (LENGTH('a) - 1)) \<le> i \<and> i < 2 ^ (LENGTH('a) - 1) then Some (word_of_int i)
      else None)"
| "de_sint _ = None"

fun de_text :: "cbor \<Rightarrow> string option" where
  "de_text (C_Text s) = Some s"
| "de_text _ = None"

fun de_bool :: "cbor \<Rightarrow> bool option" where
  "de_bool (C_Bool b) = Some b"
| "de_bool _ = None"

definition ser_option :: "('a \<Rightarrow> cbor) \<Rightarrow> 'a option \<Rightarrow> cbor" where
  "ser_option ser x = (case x of None \<Rightarrow> C_Null | Some y \<Rightarrow> ser y)"

definition de_option :: "(cbor \<Rightarrow> 'a option) \<Rightarrow> cbor \<Rightarrow> 'a option option" where
  "de_option de x = (case x of C_Null \<Rightarrow> Some None | _ \<Rightarrow> map_option Some (de x))"

definition ser_list :: "('a \<Rightarrow> cbor) \<Rightarrow> 'a list \<Rightarrow> cbor" where
  "ser_list ser xs = C_Array (map ser xs)"

fun de_list :: "(cbor \<Rightarrow> 'a option) \<Rightarrow> cbor \<Rightarrow> 'a list option" where
  "de_list de (C_Array xs) = those (map de xs)"
| "de_list de _ = None"

text \<open>A field of a struct, and one that is an \<open>Option\<close>.\<close>

fun de_struct :: "cbor \<Rightarrow> (string \<times> cbor) list option" where
  "de_struct (C_Map fs) = Some fs"
| "de_struct _ = None"

definition de_field :: "(string \<times> cbor) list \<Rightarrow> string \<Rightarrow> (cbor \<Rightarrow> 'a option) \<Rightarrow> 'a option" where
  "de_field fs k de = (case filter (\<lambda>f. fst f = k) fs of [f] \<Rightarrow> de (snd f) | _ \<Rightarrow> None)"

definition de_field_option ::
    "(string \<times> cbor) list \<Rightarrow> string \<Rightarrow> (cbor \<Rightarrow> 'a option) \<Rightarrow> 'a option option" where
  "de_field_option fs k de =
     (if filter (\<lambda>f. fst f = k) fs = [] then Some None else de_field fs k (de_option de))"

lemma de_uint_ser [simp]: "de_uint (ser_uint w) = Some w"
  by (simp add: ser_uint_def)

lemma de_sint_ser [simp]: "de_sint (ser_sint (w :: 'a::len word)) = Some w"
  using sint_ge [of w] sint_lt [of w] by (simp add: ser_sint_def)

lemma cbor_ok_uint [simp]: "LENGTH('a) \<le> 64 \<Longrightarrow> cbor_ok (ser_uint (w :: 'a::len word))"
proof -
  assume "LENGTH('a) \<le> 64"
  then have "uint w < 2 ^ 64"
    using uint_lt2p [of w] power_increasing [of "LENGTH('a)" 64 "2 :: int"] by linarith
  moreover have "0 \<le> uint w" by simp
  ultimately have "- (2 ^ 64) \<le> uint w" "uint w < 2 ^ 64" by linarith+
  then show ?thesis unfolding ser_uint_def cbor_ok.simps by simp
qed

lemma cbor_ok_sint [simp]: "LENGTH('a) \<le> 64 \<Longrightarrow> cbor_ok (ser_sint (w :: 'a::len word))"
proof -
  assume "LENGTH('a) \<le> 64"
  then have "(2 :: int) ^ (LENGTH('a) - Suc 0) \<le> 2 ^ 64" by (intro power_increasing) simp_all
  moreover have "- (2 ^ (LENGTH('a) - Suc 0)) \<le> sint w" "sint w < 2 ^ (LENGTH('a) - Suc 0)"
    using sint_greater_eq [of w] sint_less [of w] by simp_all
  ultimately have "- (2 ^ 64) \<le> sint w" "sint w < 2 ^ 64" by linarith+
  then show ?thesis unfolding ser_sint_def cbor_ok.simps by simp
qed

lemma de_option_ser [simp]:
  "(\<And>y. x = Some y \<Longrightarrow> de (ser y) = Some y \<and> ser y \<noteq> C_Null) \<Longrightarrow>
     de_option de (ser_option ser x) = Some x"
  by (cases x) (auto simp: de_option_def ser_option_def split: cbor.split)

lemma ser_not_null [simp]: "ser_uint w \<noteq> C_Null"
  by (simp add: ser_uint_def)

lemma de_list_ser:
  "(\<And>x. x \<in> set xs \<Longrightarrow> de (ser x) = Some (f x)) \<Longrightarrow> de_list de (ser_list ser xs) = Some (map f xs)"
  unfolding ser_list_def de_list.simps by (induction xs) simp_all

lemma de_list_ser_id:
  "(\<And>x. x \<in> set xs \<Longrightarrow> de (ser x) = Some x) \<Longrightarrow> de_list de (ser_list ser xs) = Some xs"
  using de_list_ser [of xs de ser id] by simp

subsection \<open>Types, values and schemas\<close>

fun ser_data_type :: "data_type \<Rightarrow> cbor" where
  "ser_data_type TBigInt = C_Text ''BigInt''"
| "ser_data_type TInt = C_Text ''Int''"
| "ser_data_type TSmallInt = C_Text ''SmallInt''"
| "ser_data_type (TChar n) = C_Map [(''Char'', ser_uint n)]"
| "ser_data_type TString = C_Text ''String''"
| "ser_data_type (TDecimal p s) = C_Map [(''Decimal'', C_Array [ser_uint p, ser_uint s])]"
| "ser_data_type TDate = C_Text ''Date''"
| "ser_data_type TBool = C_Text ''Bool''"
| "ser_data_type TNull = C_Text ''Null''"

fun de_data_type :: "cbor \<Rightarrow> data_type option" where
  "de_data_type (C_Text s) =
     map_of [(''BigInt'', TBigInt), (''Int'', TInt), (''SmallInt'', TSmallInt),
       (''String'', TString), (''Date'', TDate), (''Bool'', TBool), (''Null'', TNull)] s"
| "de_data_type (C_Map [(k, x)]) =
     (if k = ''Char'' then map_option TChar (de_uint x)
      else if k = ''Decimal''
      then case x of
             C_Array [p, s] \<Rightarrow> do { p \<leftarrow> de_uint p; s \<leftarrow> de_uint s; Some (TDecimal p s) }
           | _ \<Rightarrow> None
      else None)"
| "de_data_type _ = None"

fun ser_val :: "val \<Rightarrow> cbor" where
  "ser_val (VBigInt i) = C_Map [(''BigInt'', ser_sint i)]"
| "ser_val (VInt i) = C_Map [(''Int'', ser_sint i)]"
| "ser_val (VSmallInt i) = C_Map [(''SmallInt'', ser_sint i)]"
| "ser_val (VChar n s) = C_Map [(''Char'', C_Array [ser_uint n, C_Text s])]"
| "ser_val (VString s) = C_Map [(''String'', C_Text s)]"
| "ser_val (VDecimal w s) = C_Map [(''Decimal'', C_Array [ser_sint w, ser_uint s])]"
| "ser_val (VDate d) = C_Map [(''Date'', ser_sint d)]"
| "ser_val (VBool b) = C_Map [(''Bool'', C_Bool b)]"
| "ser_val VNull = C_Text ''Null''"

fun de_val :: "cbor \<Rightarrow> val option" where
  "de_val (C_Text s) = (if s = ''Null'' then Some VNull else None)"
| "de_val (C_Map [(k, x)]) =
     (if k = ''BigInt'' then map_option VBigInt (de_sint x)
      else if k = ''Int'' then map_option VInt (de_sint x)
      else if k = ''SmallInt'' then map_option VSmallInt (de_sint x)
      else if k = ''Char''
      then case x of
             C_Array [n, s] \<Rightarrow> do { n \<leftarrow> de_uint n; s \<leftarrow> de_text s; Some (VChar n s) }
           | _ \<Rightarrow> None
      else if k = ''String'' then map_option VString (de_text x)
      else if k = ''Decimal''
      then case x of
             C_Array [w, s] \<Rightarrow> do { w \<leftarrow> de_sint w; s \<leftarrow> de_uint s; Some (VDecimal w s) }
           | _ \<Rightarrow> None
      else if k = ''Date'' then map_option VDate (de_sint x)
      else if k = ''Bool'' then map_option VBool (de_bool x)
      else None)"
| "de_val _ = None"

fun ser_constraint :: "constraint \<Rightarrow> cbor" where
  "ser_constraint CNone = C_Text ''None''"
| "ser_constraint CPrimaryKey = C_Text ''PrimaryKey''"
| "ser_constraint CUnique = C_Text ''Unique''"
| "ser_constraint CNotNull = C_Text ''NotNull''"
| "ser_constraint CUniqueNotNull = C_Text ''UniqueNotNull''"
| "ser_constraint (CForeignKey c) = C_Map [(''ForeignKey'', ser_uint c)]"
| "ser_constraint (CNotNullFKey c) = C_Map [(''NotNullFKey'', ser_uint c)]"

fun de_constraint :: "cbor \<Rightarrow> constraint option" where
  "de_constraint (C_Text s) =
     map_of [(''None'', CNone), (''PrimaryKey'', CPrimaryKey), (''Unique'', CUnique),
       (''NotNull'', CNotNull), (''UniqueNotNull'', CUniqueNotNull)] s"
| "de_constraint (C_Map [(k, x)]) =
     (if k = ''ForeignKey'' then map_option CForeignKey (de_uint x)
      else if k = ''NotNullFKey'' then map_option CNotNullFKey (de_uint x)
      else None)"
| "de_constraint _ = None"

definition ser_attribute :: "attribute \<Rightarrow> cbor" where
  "ser_attribute a = C_Map
     [(''name'', C_Text (attr_name a)), (''dtype'', ser_data_type (attr_dtype a)),
      (''constraint'', ser_constraint (attr_constraint a))]"

definition de_attribute :: "cbor \<Rightarrow> attribute option" where
  "de_attribute x = do {
     fs \<leftarrow> de_struct x;
     n \<leftarrow> de_field fs ''name'' de_text;
     t \<leftarrow> de_field fs ''dtype'' de_data_type;
     c \<leftarrow> de_field fs ''constraint'' de_constraint;
     Some \<lparr>attr_name = n, attr_dtype = t, attr_constraint = c\<rparr> }"

definition ser_schema :: "schema \<Rightarrow> cbor" where
  "ser_schema s = ser_list ser_attribute (attributes s)"

definition de_schema :: "cbor \<Rightarrow> schema option" where
  "de_schema x = map_option schema_new (de_list de_attribute x)"

lemma de_data_type_ser [simp]: "de_data_type (ser_data_type t) = Some t"
  by (cases t) simp_all

lemma de_val_ser [simp]: "de_val (ser_val v) = Some v"
  by (cases v) simp_all

lemma de_constraint_ser [simp]: "de_constraint (ser_constraint c) = Some c"
  by (cases c) simp_all

lemma de_attribute_ser [simp]: "de_attribute (ser_attribute a) = Some a"
  by (simp add: de_attribute_def ser_attribute_def de_field_def)

lemma de_schema_ser [simp]: "de_schema (ser_schema s) = Some s"
  by (simp add: de_schema_def ser_schema_def schema_new_def de_list_ser_id)

subsection \<open>Commands\<close>

fun system_command_name :: "system_command \<Rightarrow> string" where
  "system_command_name SC_Create = ''Create''"
| "system_command_name SC_Connect = ''Connect''"
| "system_command_name SC_Reset = ''Reset''"
| "system_command_name SC_Shutdown = ''Shutdown''"
| "system_command_name SC_CloseConnection = ''CloseConnection''"
| "system_command_name SC_QuietMode = ''QuietMode''"
| "system_command_name SC_ShowDatabases = ''ShowDatabases''"
| "system_command_name SC_Test = ''Test''"
| "system_command_name SC_Help = ''Help''"

fun db_command_name :: "db_command \<Rightarrow> string" where
  "db_command_name DC_ExecuteSQL = ''ExecuteSQL''"
| "db_command_name DC_RegisterQuery = ''RegisterQuery''"
| "db_command_name DC_RunQueryFull = ''RunQueryFull''"
| "db_command_name DC_RunQueryPartial = ''RunQueryPartial''"
| "db_command_name DC_ConvertQuery = ''ConvertQuery''"
| "db_command_name DC_ShowTables = ''ShowTables''"
| "db_command_name DC_ShowQueries = ''ShowQueries''"
| "db_command_name DC_Generate = ''Generate''"
| "db_command_name DC_Import = ''Import''"
| "db_command_name DC_Commit = ''Commit''"

fun ser_command :: "command \<Rightarrow> cbor" where
  "ser_command (System c) = C_Map [(''System'', C_Text (system_command_name c))]"
| "ser_command (DB c) = C_Map [(''DB'', C_Text (db_command_name c))]"

definition ser_command_with_args :: "command_with_args \<Rightarrow> cbor" where
  "ser_command_with_args c = C_Map
     [(''command'', ser_command (cwa_command c)), (''args'', ser_list C_Text (cwa_args c))]"

definition de_named :: "('a \<Rightarrow> string) \<Rightarrow> 'a list \<Rightarrow> cbor \<Rightarrow> 'a option" where
  "de_named nm vs x = (case x of C_Text s \<Rightarrow> map_of (map (\<lambda>v. (nm v, v)) vs) s | _ \<Rightarrow> None)"

definition de_system_command :: "cbor \<Rightarrow> system_command option" where
  "de_system_command = de_named system_command_name
     [SC_Create, SC_Connect, SC_Reset, SC_Shutdown, SC_CloseConnection, SC_QuietMode,
      SC_ShowDatabases, SC_Test, SC_Help]"

definition de_db_command :: "cbor \<Rightarrow> db_command option" where
  "de_db_command = de_named db_command_name
     [DC_ExecuteSQL, DC_RegisterQuery, DC_RunQueryFull, DC_RunQueryPartial, DC_ConvertQuery,
      DC_ShowTables, DC_ShowQueries, DC_Generate, DC_Import, DC_Commit]"

fun de_command :: "cbor \<Rightarrow> command option" where
  "de_command (C_Map [(k, x)]) =
     (if k = ''System'' then map_option System (de_system_command x)
      else if k = ''DB'' then map_option DB (de_db_command x)
      else None)"
| "de_command _ = None"

definition de_command_with_args :: "cbor \<Rightarrow> command_with_args option" where
  "de_command_with_args x = do {
     fs \<leftarrow> de_struct x;
     c \<leftarrow> de_field fs ''command'' de_command;
     args \<leftarrow> de_field fs ''args'' (de_list de_text);
     Some \<lparr>cwa_command = c, cwa_args = args\<rparr> }"

lemma de_command_ser [simp]: "de_command (ser_command c) = Some c"
proof (cases c)
  case (System d)
  then show ?thesis by (cases d) (simp_all add: de_system_command_def de_named_def)
next
  case (DB d)
  then show ?thesis by (cases d) (simp_all add: de_db_command_def de_named_def)
qed

lemma de_command_with_args_ser: "de_command_with_args (ser_command_with_args c) = Some c"
  by (simp add: de_command_with_args_def ser_command_with_args_def de_field_def de_list_ser_id)

subsection \<open>Responses\<close>

definition ser_value_id :: "value_id \<Rightarrow> cbor" where
  "ser_value_id v = C_Map
     [(''container_id'', ser_uint (container_id v)),
      (''segment_id'', ser_option ser_uint (segment_id v)),
      (''page_id'', ser_option ser_uint (page_id v)),
      (''slot_id'', ser_option ser_uint (slot_id v))]"

definition de_value_id :: "cbor \<Rightarrow> value_id option" where
  "de_value_id x = do {
     fs \<leftarrow> de_struct x;
     c \<leftarrow> de_field fs ''container_id'' de_uint;
     s \<leftarrow> de_field_option fs ''segment_id'' de_uint;
     p \<leftarrow> de_field_option fs ''page_id'' de_uint;
     l \<leftarrow> de_field_option fs ''slot_id'' de_uint;
     Some \<lparr>container_id = c, segment_id = s, page_id = p, slot_id = l\<rparr> }"

text \<open>\<open>value_id\<close> is never written, and read as \<open>None\<close> when it is absent.\<close>

definition ser_row_tuple :: "row_tuple \<Rightarrow> cbor" where
  "ser_row_tuple t = C_Map
     [(''tid'', ser_uint (tid t)), (''field_vals'', ser_list ser_val (field_vals t))]"

definition de_row_tuple :: "cbor \<Rightarrow> row_tuple option" where
  "de_row_tuple x = do {
     fs \<leftarrow> de_struct x;
     t \<leftarrow> de_field fs ''tid'' de_uint;
     v \<leftarrow> de_field_option fs ''value_id'' de_value_id;
     vs \<leftarrow> de_field fs ''field_vals'' (de_list de_val);
     Some \<lparr>tid = t, value_id = v, field_vals = vs\<rparr> }"

definition ser_paging_info :: "paging_info \<Rightarrow> cbor" where
  "ser_paging_info p = C_Map
     [(''current_page'', ser_uint (current_page p)), (''total_pages'', ser_uint (total_pages p)),
      (''has_next_page'', C_Bool (has_next_page p)), (''page_size'', ser_uint (page_size p))]"

definition de_paging_info :: "cbor \<Rightarrow> paging_info option" where
  "de_paging_info x = do {
     fs \<leftarrow> de_struct x;
     c \<leftarrow> de_field fs ''current_page'' de_uint;
     t \<leftarrow> de_field fs ''total_pages'' de_uint;
     h \<leftarrow> de_field fs ''has_next_page'' de_bool;
     s \<leftarrow> de_field fs ''page_size'' de_uint;
     Some \<lparr>current_page = c, total_pages = t, has_next_page = h, page_size = s\<rparr> }"

fun ser_query_result :: "query_result \<Rightarrow> cbor" where
  "ser_query_result (QR_MessageOnly m) = C_Map [(''MessageOnly'', C_Text m)]"
| "ser_query_result (QR_Select s ts pg) = C_Map [(''Select'', C_Map
     [(''schema'', ser_schema s), (''result'', ser_list ser_row_tuple ts),
      (''paging_info'', ser_option ser_paging_info pg)])]"
| "ser_query_result (QR_Insert n t) = C_Map [(''Insert'', C_Map
     [(''inserted'', ser_uint n), (''table_name'', C_Text t)])]"

fun de_query_result :: "cbor \<Rightarrow> query_result option" where
  "de_query_result (C_Map [(k, x)]) =
     (if k = ''MessageOnly'' then map_option QR_MessageOnly (de_text x)
      else if k = ''Select''
      then do {
        fs \<leftarrow> de_struct x;
        s \<leftarrow> de_field fs ''schema'' de_schema;
        ts \<leftarrow> de_field fs ''result'' (de_list de_row_tuple);
        pg \<leftarrow> de_field_option fs ''paging_info'' de_paging_info;
        Some (QR_Select s ts pg) }
      else if k = ''Insert''
      then do {
        fs \<leftarrow> de_struct x;
        n \<leftarrow> de_field fs ''inserted'' de_uint;
        t \<leftarrow> de_field fs ''table_name'' de_text;
        Some (QR_Insert n t) }
      else None)"
| "de_query_result _ = None"

fun ser_response :: "response \<Rightarrow> cbor" where
  "ser_response R_Ok = C_Text ''Ok''"
| "ser_response (R_SystemMsg m) = C_Map [(''SystemMsg'', C_Text m)]"
| "ser_response (R_SystemErr m) = C_Map [(''SystemErr'', C_Text m)]"
| "ser_response (R_QueryResult q) = C_Map [(''QueryResult'', ser_query_result q)]"
| "ser_response (R_QueryExecutionError m) = C_Map [(''QueryExecutionError'', C_Text m)]"
| "ser_response (R_Shutdown b) = C_Map [(''Shutdown'', C_Bool b)]"
| "ser_response R_QuietOk = C_Text ''QuietOk''"
| "ser_response R_QuietErr = C_Text ''QuietErr''"

fun de_response :: "cbor \<Rightarrow> response option" where
  "de_response (C_Text s) =
     map_of [(''Ok'', R_Ok), (''QuietOk'', R_QuietOk), (''QuietErr'', R_QuietErr)] s"
| "de_response (C_Map [(k, x)]) =
     (if k = ''SystemMsg'' then map_option R_SystemMsg (de_text x)
      else if k = ''SystemErr'' then map_option R_SystemErr (de_text x)
      else if k = ''QueryResult'' then map_option R_QueryResult (de_query_result x)
      else if k = ''QueryExecutionError'' then map_option R_QueryExecutionError (de_text x)
      else if k = ''Shutdown'' then map_option R_Shutdown (de_bool x)
      else None)"
| "de_response _ = None"

text \<open>What a response is after a trip over the wire.\<close>

definition forget_value_id :: "row_tuple \<Rightarrow> row_tuple" where
  "forget_value_id t = t\<lparr>value_id := None\<rparr>"

fun forget_value_ids :: "response \<Rightarrow> response" where
  "forget_value_ids (R_QueryResult (QR_Select s ts pg)) =
     R_QueryResult (QR_Select s (map forget_value_id ts) pg)"
| "forget_value_ids r = r"

lemma de_row_tuple_ser [simp]: "de_row_tuple (ser_row_tuple t) = Some (forget_value_id t)"
  by (simp add: de_row_tuple_def ser_row_tuple_def de_field_def de_field_option_def
      de_list_ser_id forget_value_id_def)

lemma de_paging_info_ser [simp]: "de_paging_info (ser_paging_info p) = Some p"
  by (simp add: de_paging_info_def ser_paging_info_def de_field_def)

lemma ser_paging_not_null [simp]: "ser_paging_info p \<noteq> C_Null"
  by (simp add: ser_paging_info_def)

lemma de_query_result_ser:
  "map_option R_QueryResult (de_query_result (ser_query_result q)) =
     Some (forget_value_ids (R_QueryResult q))"
  by (cases q) (simp_all add: de_field_def de_field_option_def de_list_ser [of _ _ _ forget_value_id])

lemma de_value_id_ser: "de_value_id (ser_value_id v) = Some v"
  by (simp add: de_value_id_def ser_value_id_def de_field_def de_field_option_def)

lemma de_response_ser: "de_response (ser_response r) = Some (forget_value_ids r)"
  by (cases r) (simp_all add: de_query_result_ser)

subsection \<open>What is short enough can be decoded\<close>

text \<open>The integers of every message are machine integers of at most 64 bits.\<close>

lemma ints_of_words [simp]:
  "LENGTH('a) \<le> 64 \<Longrightarrow> cbor_ints (ser_uint (w :: 'a::len word))"
  "LENGTH('a) \<le> 64 \<Longrightarrow> cbor_ints (ser_sint (w :: 'a::len word))"
  using cbor_ok_uint [of w] cbor_ok_sint [of w]
  unfolding ser_uint_def ser_sint_def cbor_ok.simps cbor_ints.simps by blast+

lemma ints_of_list [simp]: "(\<And>x. cbor_ints (ser x)) \<Longrightarrow> cbor_ints (ser_list ser xs)"
  by (simp add: ser_list_def list_all_iff)

lemma ints_of_option [simp]: "(\<And>x. cbor_ints (ser x)) \<Longrightarrow> cbor_ints (ser_option ser x)"
  by (cases x) (simp_all add: ser_option_def)

lemma ints_of_val [simp]: "cbor_ints (ser_val v)"
  by (cases v) simp_all

lemma ints_of_schema [simp]: "cbor_ints (ser_schema s)"
proof -
  have "cbor_ints (ser_data_type t)" "cbor_ints (ser_constraint c)" for t c
    by (cases t; simp) (cases c; simp)
  then show ?thesis unfolding ser_schema_def by (intro ints_of_list) (simp add: ser_attribute_def)
qed

lemma ints_of_response: "cbor_ints (ser_response r)"
proof -
  have t: "cbor_ints (ser_row_tuple t)" "cbor_ints (ser_paging_info p)" for t p
    by (simp_all add: ser_row_tuple_def ser_paging_info_def)
  have "cbor_ints (ser_query_result q)" for q using t by (cases q) simp_all
  then show ?thesis by (cases r) simp_all
qed

lemma ints_of_command: "cbor_ints (ser_command_with_args c)"
proof -
  have "cbor_ints (ser_command cmd)" for cmd by (cases cmd) simp_all
  then show ?thesis by (simp add: ser_command_with_args_def)
qed

lemma short_response_ok: "length (cbor_encode (ser_response r)) < 2 ^ 64 \<Longrightarrow> cbor_ok (ser_response r)"
  using short_ok ints_of_response by blast

lemma short_command_ok:
  "length (cbor_encode (ser_command_with_args c)) < 2 ^ 64 \<Longrightarrow> cbor_ok (ser_command_with_args c)"
  using short_ok ints_of_command by blast

subsection \<open>Properties of the format\<close>

text \<open>The response captured from a server, \<open>tests/fixtures/select_response.cbor\<close>.\<close>

definition captured_response :: "u8 list" where
  "captured_response =
     [161, 107, 81, 117, 101, 114, 121, 82, 101, 115, 117, 108, 116, 161, 102, 83, 101, 108,
      101, 99, 116, 163, 102, 115, 99, 104, 101, 109, 97, 130, 163, 100, 110, 97, 109, 101,
      98, 105, 100, 101, 100, 116, 121, 112, 101, 102, 66, 105, 103, 73, 110, 116, 106, 99,
      111, 110, 115, 116, 114, 97, 105, 110, 116, 106, 80, 114, 105, 109, 97, 114, 121, 75,
      101, 121, 163, 100, 110, 97, 109, 101, 100, 110, 97, 109, 101, 101, 100, 116, 121, 112,
      101, 102, 83, 116, 114, 105, 110, 103, 106, 99, 111, 110, 115, 116, 114, 97, 105, 110,
      116, 100, 78, 111, 110, 101, 102, 114, 101, 115, 117, 108, 116, 130, 162, 99, 116, 105,
      100, 0, 106, 102, 105, 101, 108, 100, 95, 118, 97, 108, 115, 130, 161, 102, 66, 105,
      103, 73, 110, 116, 1, 161, 102, 83, 116, 114, 105, 110, 103, 101, 97, 108, 105, 99,
      101, 162, 99, 116, 105, 100, 0, 106, 102, 105, 101, 108, 100, 95, 118, 97, 108, 115,
      130, 161, 102, 66, 105, 103, 73, 110, 116, 2, 161, 102, 83, 116, 114, 105, 110, 103,
      100, 90, 105, 97, 100, 107, 112, 97, 103, 105, 110, 103, 95, 105, 110, 102, 111, 246]"

lemma length_enc_head:
  "length (enc_head m n) =
     (if n < 24 then 1 else if n < 2 ^ 8 then 2 else if n < 2 ^ 16 then 3
      else if n < 2 ^ 32 then 5 else 9)"
  unfolding enc_head_def by (simp only: if_distrib [of length] list.size length_be_bytes) simp

text \<open>The size of an \<open>ExecuteSQL\<close> request: thirty bytes, the head of the text and the text.\<close>

lemma length_execute_request:
  "length (cbor_encode (ser_command_with_args (cwa_db DC_ExecuteSQL [sql]))) =
     30 + length (enc_head 3 (length sql)) + length sql"
  by (simp add: ser_command_with_args_def ser_list_def enc_text_def length_enc_head)

lemma execute_request_fits:
  "length (cbor_encode (ser_command_with_args (cwa_db DC_ExecuteSQL [sql]))) \<le> 1024
     \<longleftrightarrow> length sql \<le> 991"
  unfolding length_execute_request length_enc_head by simp

text \<open>A response survives the wire except for the storage locations of its rows, which
  are dropped: decoding the encoding gives the response with every \<open>value_id\<close> absent.\<close>

lemma response_wire_roundtrip:
  assumes "cbor_ok (ser_response r)"
  shows "Option.bind (cbor_decode (cbor_encode (ser_response r))) de_response =
    Some (forget_value_ids r)"
  using assms by (simp add: cbor_decode_encode de_response_ser)

theorem response_wire_roundtrip_witness:
  "Option.bind (cbor_decode (cbor_encode (ser_response (R_QueryResult (QR_Select
       \<lparr>attributes = []\<rparr> [\<lparr>tid = 7, value_id = Some \<lparr>container_id = 1, segment_id = None,
         page_id = Some 2, slot_id = Some 3\<rparr>, field_vals = [VBigInt 1]\<rparr>] None))))) de_response =
     Some (R_QueryResult (QR_Select \<lparr>attributes = []\<rparr>
       [\<lparr>tid = 7, value_id = None, field_vals = [VBigInt 1]\<rparr>] None))"
  by (subst response_wire_roundtrip)
    (simp_all add: ser_schema_def ser_list_def ser_row_tuple_def ser_option_def ser_uint_def
      ser_sint_def forget_value_id_def)

text \<open>A command survives the wire unchanged.\<close>

lemma command_wire_roundtrip:
  assumes "cbor_ok (ser_command_with_args c)"
  shows "Option.bind (cbor_decode (cbor_encode (ser_command_with_args c))) de_command_with_args =
    Some c"
  using assms by (simp add: cbor_decode_encode de_command_with_args_ser)

theorem command_wire_roundtrip_witness:
  "Option.bind (cbor_decode (cbor_encode (ser_command_with_args (cwa_system SC_Connect [''mydb'']))))
     de_command_with_args = Some (cwa_system SC_Connect [''mydb''])"
  by (rule command_wire_roundtrip) (simp add: ser_command_with_args_def ser_list_def)

text \<open>The result set these bytes stand for.\<close>

definition captured_result :: response where
  "captured_result =
     R_QueryResult (QR_Select
       \<lparr>attributes =
          [\<lparr>attr_name = ''id'', attr_dtype = TBigInt, attr_constraint = CPrimaryKey\<rparr>,
           \<lparr>attr_name = ''name'', attr_dtype = TString, attr_constraint = CNone\<rparr>]\<rparr>
       [\<lparr>tid = 0, value_id = None, field_vals = [VBigInt 1, VString ''alice'']\<rparr>,
        \<lparr>tid = 0, value_id = None, field_vals = [VBigInt 2, VString ''Ziad'']\<rparr>]
       None)"

lemma captured_is_encoding: "captured_response = cbor_encode (ser_response captured_result)"
  by code_simp

lemma captured_ok: "cbor_ok (ser_response captured_result)"
  by (simp add: captured_result_def ser_schema_def ser_attribute_def ser_list_def
      ser_row_tuple_def ser_option_def ser_uint_def ser_sint_def)

text \<open>The bytes captured from a server are what the types of this crate encode, and they
  decode to the result set they stand for: the primary key column \<open>id\<close>, the column
  \<open>name\<close> and two rows without storage locations.\<close>

lemma captured_response_decodes:
  "captured_response = cbor_encode (ser_response captured_result)
   \<and> Option.bind (cbor_decode captured_response) de_response = Some captured_result"
  by (simp add: captured_is_encoding cbor_decode_encode [OF captured_ok] de_response_ser)
    (simp add: captured_result_def forget_value_id_def)

end
