(* ===== verification/Codec.thy ===== *)
theory Codec
  imports Wire
begin

section \<open>Wire framing (\<open>src/src/codec.rs\<close>)\<close>

text \<open>
  Requests go out as bare CBOR, responses come in as an 8-byte big-endian length and that many
  bytes. \<open>serde_cbor\<close> is a parameter (\<open>libs\<close>): the encoder of commands, the decoder of
  responses, and with them the table of printable characters that \<open>Debug\<close> consults.

  A \<open>tcp_stream\<close> holds what the coming reads deliver, in the pieces they deliver it, the bytes
  handed to the kernel so far and how the coming writes go. A stream with nothing left to
  deliver is one whose peer has closed it; a read that blocks until the read timeout is an error
  event, one that blocks for ever is not modelled.
\<close>

record libs =
  to_vec :: "command_with_args \<Rightarrow> cbor_error + u8 list"
  from_slice :: "u8 list \<Rightarrow> cbor_error + response"
  printable :: "nat \<Rightarrow> bool"

datatype rx_event = Chunk "u8 list" | RdErr io_error

datatype wr_event = Accept nat | WrErr io_error

record tcp_stream =
  rx :: "rx_event list"
  tx :: "u8 list"
  wr :: "wr_event list"
  nodelay :: bool
  read_timeout :: "nat option"
  write_timeout :: "nat option"

definition max_request_bytes :: nat where
  "max_request_bytes = 1024"

definition max_response_bytes :: u64 where
  "max_response_bytes = 512 * 1024 * 1024"

subsection \<open>Reading and writing a stream\<close>

text \<open>One \<open>read\<close> into a buffer of \<open>n\<close> bytes; an empty result is the end of the stream.\<close>

fun read_events :: "nat \<Rightarrow> rx_event list \<Rightarrow> (io_error + u8 list) \<times> rx_event list" where
  "read_events n [] = (Inr [], [])"
| "read_events n (RdErr e # evs) = (Inl e, evs)"
| "read_events n (Chunk bs # evs) =
     (if bs = [] then read_events n evs
      else if length bs \<le> n then (Inr bs, evs)
      else (Inr (take n bs), Chunk (drop n bs) # evs))"

definition tcp_read :: "nat \<Rightarrow> tcp_stream \<Rightarrow> (io_error + u8 list) \<times> tcp_stream" where
  "tcp_read n s = (case read_events n (rx s) of (r, evs) \<Rightarrow> (r, s\<lparr>rx := evs\<rparr>))"

definition read_exact_eof :: io_error where
  "read_exact_eof = \<lparr>io_kind = UnexpectedEof, io_message = ''failed to fill whole buffer''\<rparr>"

definition write_all_eof :: io_error where
  "write_all_eof = \<lparr>io_kind = WriteZero, io_message = ''failed to write whole buffer''\<rparr>"

lemma read_events_length: "length (snd (read_events n evs)) \<le> length evs"
  by (induction n evs rule: read_events.induct) auto

lemma read_events_err:
  "read_events n evs = (Inl e, evs') \<Longrightarrow> length evs' < length evs"
proof (induction n evs rule: read_events.induct)
  case (3 n bs evs)
  then show ?case by (cases "bs = []"; cases "length bs \<le> n") auto
qed simp_all

lemma read_events_ok:
  "read_events n evs = (Inr bs, evs') \<Longrightarrow> length bs \<le> n"
proof (induction n evs rule: read_events.induct)
  case (3 n bs evs)
  then show ?case by (cases "bs = []"; cases "length bs \<le> n") auto
qed simp_all

text \<open>\<open>Read::read_exact\<close>: it retries an interrupted read.\<close>

function read_exact :: "nat \<Rightarrow> tcp_stream \<Rightarrow> (io_error + u8 list) \<times> tcp_stream" where
  "read_exact n s =
     (if n = 0 then (Inr [], s)
      else case tcp_read n s of
        (Inl e, s') \<Rightarrow> if io_kind e = Interrupted then read_exact n s' else (Inl e, s')
      | (Inr bs, s') \<Rightarrow>
          if bs = [] then (Inl read_exact_eof, s')
          else case read_exact (n - length bs) s' of (r, s'') \<Rightarrow> (map_ok (\<lambda>t. bs @ t) r, s''))"
  by pat_completeness auto
termination
proof (relation "measure (\<lambda>(n, s). n + length (rx s))", goal_cases)
  case (2 n s x s' e)
  then have "length (rx s') < length (rx s)"
    using read_events_err [of n "rx s" e "rx s'"] by (auto simp: tcp_read_def split: prod.splits)
  then show ?case by simp
next
  case (3 n s x s' bs)
  then have "read_events n (rx s) = (Inr bs, rx s')"
    by (auto simp: tcp_read_def split: prod.splits)
  from read_events_ok [OF this] have "length bs \<le> n" .
  moreover from \<open>read_events n (rx s) = (Inr bs, rx s')\<close> have "length (rx s') \<le> length (rx s)"
    using read_events_length [of n "rx s"] by simp
  ultimately show ?case using 3 by (cases bs) auto
qed simp

declare read_exact.simps [simp del]

text \<open>One \<open>write\<close>, and \<open>Write::write_all\<close>. \<open>flush\<close> of a stream does nothing.\<close>

definition tcp_write :: "u8 list \<Rightarrow> tcp_stream \<Rightarrow> (io_error + nat) \<times> tcp_stream" where
  "tcp_write bs s =
     (case wr s of
        [] \<Rightarrow> (Inr (length bs), s\<lparr>tx := tx s @ bs\<rparr>)
      | Accept k # evs \<Rightarrow>
          (Inr (min k (length bs)), s\<lparr>tx := tx s @ take k bs, wr := evs\<rparr>)
      | WrErr e # evs \<Rightarrow> (Inl e, s\<lparr>wr := evs\<rparr>))"

function write_all :: "u8 list \<Rightarrow> tcp_stream \<Rightarrow> (io_error + unit) \<times> tcp_stream" where
  "write_all bs s =
     (if bs = [] then (Inr (), s)
      else case tcp_write bs s of
        (Inl e, s') \<Rightarrow> if io_kind e = Interrupted then write_all bs s' else (Inl e, s')
      | (Inr k, s') \<Rightarrow> if k = 0 then (Inl write_all_eof, s') else write_all (drop k bs) s')"
  by pat_completeness auto
termination
proof (relation "measure (\<lambda>(bs, s). length bs + length (wr s))", goal_cases)
  case (2 bs s x s' e)
  then have "length (wr s') < length (wr s)"
    by (auto simp: tcp_write_def split: list.splits wr_event.splits)
  then show ?case by simp
next
  case (3 bs s x s' k)
  then have "length (wr s') \<le> length (wr s)" "0 < k" "0 < length bs"
    by (auto simp: tcp_write_def split: list.splits wr_event.splits)
  then show ?case unfolding in_measure case_prod_conv length_drop by arith
qed simp

declare write_all.simps [simp del]

definition tcp_flush :: "tcp_stream \<Rightarrow> (io_error + unit) \<times> tcp_stream" where
  "tcp_flush s = (Inr (), s)"

subsection \<open>Requests and responses\<close>

definition encode_request :: "libs \<Rightarrow> command_with_args \<Rightarrow> error + u8 list" where
  "encode_request L command =
     and_then (map_err Encode (to_vec L command)) (\<lambda>bytes.
       if length bytes > max_request_bytes
       then Inl (RequestTooLarge (length bytes) max_request_bytes)
       else Inr bytes)"

definition write_request ::
    "libs \<Rightarrow> command_with_args \<Rightarrow> tcp_stream \<Rightarrow> (error + unit) \<times> tcp_stream" where
  "write_request L command s =
     (case encode_request L command of
        Inl e \<Rightarrow> (Inl e, s)
      | Inr bytes \<Rightarrow>
          (case write_all bytes s of
             (Inl e, s) \<Rightarrow> (Inl (from_io e), s)
           | (Inr _, s) \<Rightarrow>
               (case tcp_flush s of
                  (Inl e, s) \<Rightarrow> (Inl (from_io e), s)
                | (Inr _, s) \<Rightarrow> (Inr (), s))))"

definition read_response :: "libs \<Rightarrow> tcp_stream \<Rightarrow> (error + response) \<times> tcp_stream" where
  "read_response L s =
     (case read_exact 8 s of
        (Inl e, s) \<Rightarrow> (Inl (from_io e), s)
      | (Inr header, s) \<Rightarrow>
          let len = from_be_bytes header in
          if len = 0 then (Inr R_QuietOk, s)
          else if len > max_response_bytes
          then (Inl (ResponseTooLarge len max_response_bytes), s)
          else
            (case read_exact (unat len) s of
               (Inl e, s) \<Rightarrow> (Inl (from_io e), s)
             | (Inr body, s) \<Rightarrow> (map_err Decode (from_slice L body), s)))"

subsection \<open>What a stream delivers\<close>

text \<open>The bytes up to the first error that is not an interruption, and what ends them.\<close>

fun avail :: "rx_event list \<Rightarrow> u8 list" where
  "avail [] = []"
| "avail (Chunk bs # evs) = bs @ avail evs"
| "avail (RdErr e # evs) = (if io_kind e = Interrupted then avail evs else [])"

fun rx_end :: "rx_event list \<Rightarrow> io_error" where
  "rx_end [] = read_exact_eof"
| "rx_end (Chunk bs # evs) = rx_end evs"
| "rx_end (RdErr e # evs) = (if io_kind e = Interrupted then rx_end evs else e)"

text \<open>What comes after that error: the bytes up to the next one and that error, and so on. The
  \<open>deliveries\<close> of a stream are all of these runs of bytes, the first included; the last run is
  ended by the end of the stream.\<close>

fun later :: "rx_event list \<Rightarrow> (u8 list \<times> io_error) list" where
  "later [] = []"
| "later (Chunk bs # evs) = later evs"
| "later (RdErr e # evs) =
     (if io_kind e = Interrupted then later evs else (avail evs, rx_end evs) # later evs)"

definition deliveries :: "rx_event list \<Rightarrow> (u8 list \<times> io_error) list" where
  "deliveries evs = (avail evs, rx_end evs) # later evs"

text \<open>What is left when a read has met the end of its run.\<close>

definition next_run :: "(u8 list \<times> io_error) list \<Rightarrow> (u8 list \<times> io_error) list" where
  "next_run ds = (if ds = [] then [([], read_exact_eof)] else ds)"

lemma deliveries_Nil: "deliveries [] = [([], read_exact_eof)]"
  by (simp add: deliveries_def)

text \<open>One read: an interruption, the end, or some of the bytes.\<close>

lemma read_events_cases:
  assumes "0 < (n :: nat)"
  obtains (err) e evs' where "read_events n evs = (Inl e, evs')"
      "avail evs = (if io_kind e = Interrupted then avail evs' else [])"
      "rx_end evs = (if io_kind e = Interrupted then rx_end evs' else e)"
      "later evs = (if io_kind e = Interrupted then later evs' else deliveries evs')"
    | (eof) "read_events n evs = (Inr [], [])" "avail evs = []" "rx_end evs = read_exact_eof"
      "later evs = []"
    | (data) bs evs' where "read_events n evs = (Inr bs, evs')" "bs \<noteq> []" "length bs \<le> n"
      "avail evs = bs @ avail evs'" "rx_end evs = rx_end evs'"
      "later evs = later evs'"
  using assms
proof (induction n evs arbitrary: thesis rule: read_events.induct)
  case (1 n)
  show ?case by (rule 1(2)) simp_all
next
  case (2 n e evs)
  show ?case by (rule 2(1)) (auto simp: deliveries_def)
next
  case (3 n bs evs)
  consider "bs = []" | "bs \<noteq> []" "length bs \<le> n" | "bs \<noteq> []" "\<not> length bs \<le> n" by blast
  then show ?case
  proof cases
    case 1
    then have eq: "read_events n (Chunk bs # evs) = read_events n evs"
      "avail (Chunk bs # evs) = avail evs" "rx_end (Chunk bs # evs) = rx_end evs" "later (Chunk bs # evs) = later evs" by simp_all
    show ?thesis
      by (rule "3.IH" [OF 1 "3.prems"(1-3) [unfolded eq] "3.prems"(4)])
  next
    case 2
    then show ?thesis by (intro "3.prems"(3)) simp_all
  next
    case 3
    then show ?thesis using \<open>0 < n\<close>
      by (intro "3.prems"(3) [of "take n bs" "Chunk (drop n bs) # evs"]) simp_all
  qed
qed

lemma rx_update_again [simp]: "s\<lparr>rx := x\<rparr>\<lparr>rx := y\<rparr> = s\<lparr>rx := y\<rparr>"
  by simp

text \<open>\<open>read_exact\<close> depends on the bytes a stream delivers, not on their pieces.\<close>

lemma read_exact_spec:
  "if n \<le> length (avail (rx s))
   then \<exists>evs. read_exact n s = (Inr (take n (avail (rx s))), s\<lparr>rx := evs\<rparr>)
          \<and> avail evs = drop n (avail (rx s)) \<and> rx_end evs = rx_end (rx s)
          \<and> later evs = later (rx s)
   else \<exists>evs. read_exact n s = (Inl (rx_end (rx s)), s\<lparr>rx := evs\<rparr>)
          \<and> deliveries evs = next_run (later (rx s))"
proof (induction n s rule: read_exact.induct)
  case (1 n s)
  show ?case
  proof (cases "n = 0")
    case True
    then show ?thesis by (subst read_exact.simps) (auto intro: exI [of _ "rx s"])
  next
    case False
    then have "0 < n" by simp
    from \<open>0 < n\<close> show ?thesis
    proof (cases rule: read_events_cases [of n "rx s", consumes 1, case_names err eof data])
      case (err e evs')
      then have r: "tcp_read n s = (Inl e, s\<lparr>rx := evs'\<rparr>)" by (simp add: tcp_read_def)
      show ?thesis
      proof (cases "io_kind e = Interrupted")
        case True
        with False r have "read_exact n s = read_exact n (s\<lparr>rx := evs'\<rparr>)"
          by (subst read_exact.simps) simp
        with "1.IH"(1) [OF False r [symmetric] refl True] err True show ?thesis
          by (cases "n \<le> length (avail evs')") simp_all
      next
        case hard: False
        with False r have "read_exact n s = (Inl e, s\<lparr>rx := evs'\<rparr>)"
          by (subst read_exact.simps) simp
        with err hard \<open>0 < n\<close> show ?thesis by (auto simp: next_run_def deliveries_def)
      qed
    next
      case eof
      then have "read_exact n s = (Inl read_exact_eof, s\<lparr>rx := []\<rparr>)" using False
        by (subst read_exact.simps) (simp add: tcp_read_def)
      with eof \<open>0 < n\<close> show ?thesis by (auto simp: next_run_def deliveries_Nil)
    next
      case (data bs evs')
      then have r: "tcp_read n s = (Inr bs, s\<lparr>rx := evs'\<rparr>)" by (simp add: tcp_read_def)
      with False data have e: "read_exact n s = (case read_exact (n - length bs) (s\<lparr>rx := evs'\<rparr>) of
          (r, s'') \<Rightarrow> (map_ok (\<lambda>t. bs @ t) r, s''))"
        by (subst read_exact.simps) simp
      have "n \<le> length (avail (rx s)) \<longleftrightarrow> n - length bs \<le> length (avail evs')"
        using data(3,4) by auto
      with "1.IH"(2) [OF False r [symmetric] refl data(2)] data e show ?thesis
        by (cases "n - length bs \<le> length (avail evs')") (auto simp: map_ok_def)
    qed
  qed
qed

subsection \<open>A response as a function of the bytes\<close>

text \<open>What \<open>read_response\<close> answers when the stream delivers \<open>bs\<close> and then ends in
  \<open>e\<close>, and how many of the bytes it takes.\<close>

definition parse_frame :: "libs \<Rightarrow> u8 list \<Rightarrow> io_error \<Rightarrow> error + response" where
  "parse_frame L bs e =
     (if length bs < 8 then Inl (from_io e)
      else let len = from_be_bytes (take 8 bs) in
        if len = 0 then Inr R_QuietOk
        else if len > max_response_bytes then Inl (ResponseTooLarge len max_response_bytes)
        else if length bs < 8 + unat len then Inl (from_io e)
        else map_err Decode (from_slice L (take (unat len) (drop 8 bs))))"

definition frame_length :: "u8 list \<Rightarrow> nat" where
  "frame_length bs =
     (let len = from_be_bytes (take 8 bs) in
      if length bs < 8 \<or> len > max_response_bytes then 8 else 8 + unat len)"

text \<open>How the server frames a body.\<close>

definition server_frame :: "u8 list \<Rightarrow> u8 list" where
  "server_frame body = to_be_bytes (of_nat (length body)) @ body"

lemma read_response_eq:
  "\<exists>evs. read_response L s = (parse_frame L (avail (rx s)) (rx_end (rx s)), s\<lparr>rx := evs\<rparr>)
     \<and> (if frame_length (avail (rx s)) \<le> length (avail (rx s))
         then avail evs = drop (frame_length (avail (rx s))) (avail (rx s))
           \<and> rx_end evs = rx_end (rx s) \<and> later evs = later (rx s)
         else deliveries evs = next_run (later (rx s)))"
proof (cases "8 \<le> length (avail (rx s))")
  case False
  with read_exact_spec [of 8 s] show ?thesis
    by (auto simp: read_response_def parse_frame_def frame_length_def)
next
  case True
  let ?bs = "avail (rx s)"
  let ?len = "from_be_bytes (take 8 ?bs)"
  from True read_exact_spec [of 8 s] obtain evs where
    h: "read_exact 8 s = (Inr (take 8 ?bs), s\<lparr>rx := evs\<rparr>)"
      "avail evs = drop 8 ?bs" "rx_end evs = rx_end (rx s)"
      "later evs = later (rx s)" by auto
  show ?thesis
  proof (cases "?len = 0 \<or> ?len > max_response_bytes")
    case short: True
    with h True show ?thesis
      by (intro exI [of _ evs]) (auto simp: read_response_def parse_frame_def frame_length_def Let_def)
  next
    case False
    with h have r: "read_response L s = (case read_exact (unat ?len) (s\<lparr>rx := evs\<rparr>) of
        (Inl e, s) \<Rightarrow> (Inl (from_io e), s)
      | (Inr body, s) \<Rightarrow> (map_err Decode (from_slice L body), s))"
      by (simp add: read_response_def)
    have f: "frame_length ?bs = 8 + unat ?len"
      and p: "parse_frame L ?bs e = (if length ?bs < 8 + unat ?len then Inl (from_io e)
        else map_err Decode (from_slice L (take (unat ?len) (drop 8 ?bs))))" for e
      using True False by (simp_all add: frame_length_def parse_frame_def Let_def)
    show ?thesis
    proof (cases "unat ?len \<le> length (avail evs)")
      case body: True
      moreover have "8 + unat ?len \<le> length ?bs" using body True h(2) by simp
      ultimately show ?thesis
        using read_exact_spec [of "unat ?len" "s\<lparr>rx := evs\<rparr>"] h(2,3,4) unfolding r f p
        by (auto simp: add.commute)
    next
      case body: False
      moreover have "length ?bs < 8 + unat ?len" using body True h(2) by simp
      ultimately show ?thesis
        using read_exact_spec [of "unat ?len" "s\<lparr>rx := evs\<rparr>"] h(2,3,4) unfolding r f p by auto
    qed
  qed
qed

subsection \<open>What a write hands over\<close>

text \<open>How many of \<open>n\<close> bytes \<open>write_all\<close> gets rid of, the error that stops it, and what the
  stream has in store for the writes after it. It fails exactly when something is left over.\<close>

fun write_run :: "nat \<Rightarrow> wr_event list \<Rightarrow> nat \<times> io_error option \<times> wr_event list" where
  "write_run n [] = (n, None, [])"
| "write_run n (ev # evs) =
     (if n = 0 then (0, None, ev # evs)
      else case ev of
        WrErr e \<Rightarrow> if io_kind e = Interrupted then write_run n evs else (0, Some e, evs)
      | Accept k \<Rightarrow>
          if k = 0 then (0, Some write_all_eof, evs)
          else case write_run (n - k) evs of (m, r, evs) \<Rightarrow> (min k n + m, r, evs))"

lemma write_run_0 [simp]: "write_run 0 evs = (0, None, evs)"
  by (cases evs) simp_all

lemma write_run_all_or_error:
  "write_run n evs = (k, r, evs') \<Longrightarrow> k \<le> n \<and> (r = None \<longleftrightarrow> k = n)"
proof (induction n evs arbitrary: k rule: write_run.induct)
  case (2 n ev evs)
  show ?case
  proof (cases "n = 0 \<or> (\<exists>e. ev = WrErr e) \<or> ev = Accept 0")
    case True
    with 2 show ?thesis by (auto split: if_splits)
  next
    case False
    then obtain j where j: "ev = Accept j" "j \<noteq> 0" "n \<noteq> 0" by (cases ev) auto
    obtain m r' evs'' where m: "write_run (n - j) evs = (m, r', evs'')" by (metis prod_cases3)
    with "2.IH"(1) [OF j(3,1,2), of m] "2.prems" j show ?thesis by (cases "j \<le> n") (auto simp: min_def)
  qed
qed auto

text \<open>A stream whose writes keep making progress: none takes nothing and none fails for good.\<close>

definition accepting :: "wr_event list \<Rightarrow> bool" where
  "accepting evs \<longleftrightarrow>
     list_all (\<lambda>e. case e of Accept k \<Rightarrow> 0 < k | WrErr e \<Rightarrow> io_kind e = Interrupted) evs"

lemma accepting_simps [simp]:
  "accepting []" "accepting (Accept k # evs) \<longleftrightarrow> 0 < k \<and> accepting evs"
  "accepting (WrErr e # evs) \<longleftrightarrow> io_kind e = Interrupted \<and> accepting evs"
  by (simp_all add: accepting_def)

lemma write_run_accepting:
  "accepting evs \<Longrightarrow> \<exists>evs'. write_run n evs = (n, None, evs') \<and> accepting evs'"
proof (induction n evs rule: write_run.induct)
  case (2 n ev evs)
  then show ?case by (cases ev) (fastforce split: prod.split)+
qed simp

lemma write_all_eq:
  "write_all bs s =
     (case write_run (length bs) (wr s) of (k, r, evs) \<Rightarrow>
        (case r of None \<Rightarrow> Inr () | Some e \<Rightarrow> Inl e, s\<lparr>tx := tx s @ take k bs, wr := evs\<rparr>))"
proof (induction bs s rule: write_all.induct)
  case (1 bs s)
  note e = write_all.simps [of bs s]
  show ?case
  proof (cases "bs = []")
    case True
    then show ?thesis unfolding e by simp
  next
    case False
    show ?thesis
    proof (cases "wr s")
      case Nil
      with False show ?thesis unfolding e
        by (subst write_all.simps) (simp add: tcp_write_def)
    next
      case (Cons ev evs)
      show ?thesis
      proof (cases ev)
        case (WrErr x)
        with Cons have w: "tcp_write bs s = (Inl x, s\<lparr>wr := evs\<rparr>)" by (simp add: tcp_write_def)
        show ?thesis
          using "1.IH"(1) [OF False w [symmetric] refl] False Cons WrErr w unfolding e by simp
      next
        case (Accept k)
        let ?s = "s\<lparr>tx := tx s @ take k bs, wr := evs\<rparr>"
        from Accept Cons have w: "tcp_write bs s = (Inr (min k (length bs)), ?s)" by (simp add: tcp_write_def)
        have d: "drop (min k (length bs)) bs = drop k bs" by (simp add: min_def)
        show ?thesis
        proof (cases "k = 0")
          case True
          with False Cons Accept w show ?thesis unfolding e by simp
        next
          case k: False
          with False have "min k (length bs) \<noteq> 0" by simp
          with "1.IH"(2) [OF False w [symmetric] refl this] False Cons Accept w k show ?thesis
            unfolding e by (auto simp: d take_add min_def split: prod.split)
        qed
      qed
    qed
  qed
qed

lemma write_all_accepting:
  "accepting (wr s) \<Longrightarrow>
     \<exists>ws. write_all bs s = (Inr (), s\<lparr>tx := tx s @ bs, wr := ws\<rparr>) \<and> accepting ws"
  using write_run_accepting [of "wr s" "length bs"] by (auto simp: write_all_eq)

lemma parse_frame_body:
  assumes "body \<noteq> []" "length body \<le> unat max_response_bytes"
  shows "parse_frame L (server_frame body @ rest) e = map_err Decode (from_slice L body)"
    and "frame_length (server_frame body @ rest) = 8 + length body"
proof -
  have n: "unat (of_nat (length body) :: u64) = length body"
    using assms(2) by (simp add: unat_of_nat max_response_bytes_def)
  then have "(of_nat (length body) :: u64) \<noteq> 0" using assms(1) by (metis length_0_conv unat_0)
  moreover have "\<not> (of_nat (length body) :: u64) > max_response_bytes"
    using assms(2) n by (simp add: not_less word_le_nat_alt)
  ultimately show "parse_frame L (server_frame body @ rest) e = map_err Decode (from_slice L body)"
    and "frame_length (server_frame body @ rest) = 8 + length body"
    using n by (simp_all add: parse_frame_def frame_length_def server_frame_def Let_def)
qed

lemma read_framed:
  assumes "body \<noteq> []" "length body \<le> unat max_response_bytes"
    and "avail (rx s) = server_frame body @ rest"
  shows "\<exists>evs. read_response L s = (map_err Decode (from_slice L body), s\<lparr>rx := evs\<rparr>)
    \<and> avail evs = rest \<and> rx_end evs = rx_end (rx s)"
  using read_response_eq [of L s] parse_frame_body(1) [OF assms(1,2), of L rest]
    parse_frame_body(2) [OF assms(1,2), of rest]
  unfolding assms(3) by (auto simp: server_frame_def)

text \<open>A frame that is cut off, and one whose length is over the limit.\<close>

lemma read_truncated:
  assumes "avail (rx s) = take k (server_frame body)" and "k < length (server_frame body)"
    and "rx_end (rx s) = read_exact_eof" and "length body \<le> unat max_response_bytes"
  shows "fst (read_response L s) = Inl ConnectionClosed"
proof -
  have n: "unat (of_nat (length body) :: u64) = length body"
    using assms(4) by (simp add: unat_of_nat max_response_bytes_def)
  have m: "\<not> (of_nat (length body) :: u64) > max_response_bytes"
    using assms(4) n by (simp add: not_less word_le_nat_alt)
  have "parse_frame L (take k (server_frame body)) read_exact_eof = Inl ConnectionClosed"
  proof (cases "k < 8")
    case True
    then show ?thesis
      by (simp add: parse_frame_def server_frame_def from_io_def read_exact_eof_def)
  next
    case False
    with assms(2) have "0 < length body" by (auto simp: server_frame_def)
    with n have "(of_nat (length body) :: u64) \<noteq> 0" by (metis less_numeral_extra(3) unat_0)
    with False assms(2) n m show ?thesis
      by (simp add: parse_frame_def server_frame_def from_io_def read_exact_eof_def Let_def)
  qed
  then show ?thesis using read_response_eq [of L s] unfolding assms(1,3) by auto
qed

lemma read_oversized:
  assumes "avail (rx s) = to_be_bytes len @ rest" and "len > max_response_bytes"
  shows "\<exists>evs. read_response L s =
      (Inl (ResponseTooLarge len max_response_bytes), s\<lparr>rx := evs\<rparr>) \<and> avail evs = rest"
proof -
  have "parse_frame L (to_be_bytes len @ rest) e = Inl (ResponseTooLarge len max_response_bytes)"
    and "frame_length (to_be_bytes len @ rest) = 8" for e
    using assms(2) by (auto simp: parse_frame_def frame_length_def Let_def)
  with read_response_eq [of L s] show ?thesis unfolding assms(1) by auto
qed

text \<open>A write hands over a prefix of the encoding.\<close>

lemma write_request_eq:
  "write_request L command s =
     (case encode_request L command of
        Inl e \<Rightarrow> (Inl e, s)
      | Inr bytes \<Rightarrow>
          (case write_run (length bytes) (wr s) of (k, r, evs) \<Rightarrow>
             (case r of None \<Rightarrow> Inr () | Some e \<Rightarrow> Inl (from_io e), s\<lparr>tx := tx s @ take k bytes, wr := evs\<rparr>)))"
  by (auto simp: write_request_def write_all_eq tcp_flush_def split: sum.split prod.split option.split)

lemma write_request_spec:
  "case encode_request L command of
     Inl e \<Rightarrow> write_request L command s = (Inl e, s)
   | Inr bytes \<Rightarrow> to_vec L command = Inr bytes \<and> length bytes \<le> 1024
       \<and> (\<exists>k evs r. write_request L command s = (r, s\<lparr>tx := tx s @ take k bytes, wr := evs\<rparr>)
            \<and> k \<le> length bytes \<and> (r = Inr () \<longleftrightarrow> k = length bytes))"
proof (cases "encode_request L command")
  case (Inl e)
  then show ?thesis by (simp add: write_request_def)
next
  case (Inr bytes)
  then have "to_vec L command = Inr bytes" "length bytes \<le> 1024"
    by (auto simp: encode_request_def max_request_bytes_def split: if_splits)
  moreover obtain k r evs where k: "write_run (length bytes) (wr s) = (k, r, evs)" by (metis prod_cases3)
  with write_run_all_or_error [OF k] Inr show ?thesis
    by (auto simp: write_request_eq calculation split: option.split)
qed

lemma write_request_accepting:
  assumes "to_vec L command = Inr bytes" "length bytes \<le> 1024" "accepting (wr s)"
  shows "\<exists>ws. write_request L command s = (Inr (), s\<lparr>tx := tx s @ bytes, wr := ws\<rparr>) \<and> accepting ws"
  using assms write_all_accepting [OF assms(3), of bytes]
  by (auto simp: write_request_def encode_request_def and_then_def map_err_def
      max_request_bytes_def tcp_flush_def)

subsection \<open>The contract of the CBOR library\<close>

text \<open>
  What the client relies on: the library decodes what the server's encoder makes of a response,
  up to the storage locations it never writes, and an encoded response is not empty.
\<close>

locale wire_codec =
  fixes L :: libs
    and server_encode :: "response \<Rightarrow> u8 list"
    and encodable :: "response \<Rightarrow> bool"
  assumes decodes: "encodable r \<Longrightarrow> from_slice L (server_encode r) = Inr (forget_value_ids r)"
    and not_empty: "server_encode r \<noteq> []"
begin

text \<open>However the network cuts a framed response, it is read back whole and the stream is left
  at what follows it.\<close>

lemma read_back:
  assumes "encodable r" "length (server_encode r) \<le> unat max_response_bytes"
    and "avail (rx s) = server_frame (server_encode r) @ rest"
  shows "\<exists>evs. read_response L s = (Inr (forget_value_ids r), s\<lparr>rx := evs\<rparr>)
    \<and> avail evs = rest \<and> rx_end evs = rx_end (rx s)"
  using read_framed [OF not_empty assms(2,3), of L] decodes [OF assms(1)]
  by (simp add: map_err_def)

end

text \<open>The reference codec keeps the contract.\<close>

definition reference_libs :: libs where
  "reference_libs =
     \<lparr>to_vec = (\<lambda>c. Inr (cbor_encode (ser_command_with_args c))),
      from_slice = (\<lambda>bs. ok_or ''invalid response'' (Option.bind (cbor_decode bs) de_response)),
      printable = (\<lambda>_. True)\<rparr>"

interpretation ref: wire_codec reference_libs "\<lambda>r. cbor_encode (ser_response r)"
    "\<lambda>r. cbor_ok (ser_response r)"
  by unfold_locales
    (simp_all add: reference_libs_def cbor_decode_encode de_response_ser ok_or_def)

subsection \<open>Properties\<close>

text \<open>C10: \<open>read_response\<close> implements the framing: its answer is a function of the bytes the
  stream delivers, however they are cut into reads, and after a complete frame the stream stands
  at the first byte behind it. Nothing else of the stream changes.\<close>

theorem read_response_refines:
  "\<exists>evs. read_response L s = (parse_frame L (avail (rx s)) (rx_end (rx s)), s\<lparr>rx := evs\<rparr>)
     \<and> (frame_length (avail (rx s)) \<le> length (avail (rx s)) \<longrightarrow>
          avail evs = drop (frame_length (avail (rx s))) (avail (rx s)) \<and> rx_end evs = rx_end (rx s))"
  using read_response_eq [of L s] by (auto split: if_splits)

theorem read_response_refines_witness:
  "\<exists>evs. read_response reference_libs
       \<lparr>rx = [Chunk [0, 0, 0], RdErr \<lparr>io_kind = Interrupted, io_message = []\<rparr>, Chunk [0, 0, 0, 0, 0, 9]],
        tx = [], wr = [], nodelay = True, read_timeout = None, write_timeout = None\<rparr>
     = (Inr R_QuietOk,
       \<lparr>rx = evs, tx = [], wr = [], nodelay = True, read_timeout = None, write_timeout = None\<rparr>)
     \<and> avail evs = [9]"
  using read_response_refines [of reference_libs
    "\<lparr>rx = [Chunk [0, 0, 0], RdErr \<lparr>io_kind = Interrupted, io_message = []\<rparr>, Chunk [0, 0, 0, 0, 0, 9]],
        tx = [], wr = [], nodelay = True, read_timeout = None, write_timeout = None\<rparr>"]
  by (simp add: parse_frame_def frame_length_def from_be_bytes_def be_val_def
      max_response_bytes_def) blast

text \<open>A stream that is closed or cut off inside a frame is reported as a closed connection,
  wherever the cut falls.\<close>

lemma truncated_frame_is_closed:
  assumes "avail (rx s) = take k (server_frame body)" and "k < length (server_frame body)"
    and "rx_end (rx s) = read_exact_eof" and "length body \<le> unat max_response_bytes"
  shows "fst (read_response L s) = Inl ConnectionClosed"
  using assms by (rule read_truncated)

theorem truncated_frame_is_closed_witness:
  "fst (read_response reference_libs
     \<lparr>rx = [Chunk (take 10 (server_frame [0x62, 0x4F, 0x6B]))], tx = [], wr = [], nodelay = True,
      read_timeout = None, write_timeout = None\<rparr>) = Inl ConnectionClosed"
  by (rule truncated_frame_is_closed [where k = 10 and body = "[0x62, 0x4F, 0x6B]"])
    (simp_all add: server_frame_def max_response_bytes_def)

text \<open>C36: an announced length over the limit is refused on the header alone, whatever follows:
  the body stays in the stream, where the next response is looked for.\<close>

theorem oversized_response_refused:
  assumes "avail (rx s) = to_be_bytes len @ rest" and "len > max_response_bytes"
  shows "\<exists>evs. read_response L s =
      (Inl (ResponseTooLarge len max_response_bytes), s\<lparr>rx := evs\<rparr>) \<and> avail evs = rest"
  using assms by (rule read_oversized)

theorem oversized_response_refused_witness:
  "\<exists>evs. read_response reference_libs
       \<lparr>rx = [Chunk (to_be_bytes (- 1) @ [1, 2])], tx = [], wr = [], nodelay = True,
        read_timeout = None, write_timeout = None\<rparr>
     = (Inl (ResponseTooLarge (- 1) max_response_bytes),
        \<lparr>rx = [Chunk (to_be_bytes (- 1) @ [1, 2])], tx = [], wr = [], nodelay = True,
         read_timeout = None, write_timeout = None\<rparr>\<lparr>rx := evs\<rparr>) \<and> avail evs = [1, 2]"
  by (rule oversized_response_refused) (simp_all add: max_response_bytes_def)

text \<open>C17: the bytes that reach the wire are a prefix of the encoding of the command, none when the
  command does not encode within the limit; the write reports success exactly when they are all
  of it, however the stream cuts, interrupts or refuses the writes.\<close>

theorem write_request_sends:
  "case encode_request L command of
     Inl e \<Rightarrow> write_request L command s = (Inl e, s)
   | Inr bytes \<Rightarrow> to_vec L command = Inr bytes \<and> length bytes \<le> 1024
       \<and> (\<exists>k evs r. write_request L command s = (r, s\<lparr>tx := tx s @ take k bytes, wr := evs\<rparr>)
            \<and> k \<le> length bytes \<and> (r = Inr () \<longleftrightarrow> k = length bytes))"
  by (rule write_request_spec)

theorem write_request_sends_witness:
  "\<exists>k evs r. write_request reference_libs (cwa_system SC_Help [])
       \<lparr>rx = [], tx = [], wr = [Accept 3], nodelay = True, read_timeout = None, write_timeout = None\<rparr>
     = (r, \<lparr>rx = [], tx = take k (cbor_encode (ser_command_with_args (cwa_system SC_Help []))),
            wr = evs, nodelay = True, read_timeout = None, write_timeout = None\<rparr>)"
proof -
  have "encode_request reference_libs (cwa_system SC_Help []) =
      Inr (cbor_encode (ser_command_with_args (cwa_system SC_Help [])))"
    by (simp add: encode_request_def reference_libs_def and_then_def map_err_def
        ser_command_with_args_def ser_list_def enc_text_def length_enc_head max_request_bytes_def)
  with write_request_sends [of reference_libs "cwa_system SC_Help []"
    "\<lparr>rx = [], tx = [], wr = [Accept 3], nodelay = True, read_timeout = None, write_timeout = None\<rparr>"]
  show ?thesis by (auto simp del: cbor_encode.simps)
qed

text \<open>A request within the limit is written whole, however small the pieces the stream takes, as
  long as it keeps taking some.\<close>

theorem write_request_completes:
  assumes "to_vec L command = Inr bytes" and "length bytes \<le> 1024" and "accepting (wr s)"
  shows "\<exists>ws. write_request L command s = (Inr (), s\<lparr>tx := tx s @ bytes, wr := ws\<rparr>) \<and> accepting ws"
  using assms by (rule write_request_accepting)

theorem write_request_completes_witness:
  "\<exists>ws. write_request reference_libs (cwa_system SC_Help [])
       \<lparr>rx = [], tx = [], wr = [Accept 3, WrErr \<lparr>io_kind = Interrupted, io_message = []\<rparr>, Accept 1],
        nodelay = True, read_timeout = None, write_timeout = None\<rparr>
     = (Inr (), \<lparr>rx = [], tx = cbor_encode (ser_command_with_args (cwa_system SC_Help [])),
          wr = ws, nodelay = True, read_timeout = None, write_timeout = None\<rparr>) \<and> accepting ws"
proof -
  have "length (cbor_encode (ser_command_with_args (cwa_system SC_Help []))) \<le> 1024"
    by (simp add: ser_command_with_args_def ser_list_def enc_text_def length_enc_head)
  then show ?thesis
    using write_request_completes [of reference_libs "cwa_system SC_Help []"
      "cbor_encode (ser_command_with_args (cwa_system SC_Help []))"
      "\<lparr>rx = [], tx = [], wr = [Accept 3, WrErr \<lparr>io_kind = Interrupted, io_message = []\<rparr>, Accept 1],
        nodelay = True, read_timeout = None, write_timeout = None\<rparr>"]
    by (simp add: reference_libs_def del: cbor_encode.simps)
qed

text \<open>With an encoder that writes standard CBOR, a statement can be sent exactly when it
  has at most 991 bytes.\<close>

lemma execute_sql_limit:
  assumes "to_vec L (cwa_db DC_ExecuteSQL [sql]) =
    Inr (cbor_encode (ser_command_with_args (cwa_db DC_ExecuteSQL [sql])))"
  shows "is_ok (encode_request L (cwa_db DC_ExecuteSQL [sql])) \<longleftrightarrow> length sql \<le> 991"
  using execute_request_fits [of sql] assms
  by (auto simp: encode_request_def and_then_def map_err_def max_request_bytes_def
      simp del: cbor_encode.simps)

theorem execute_sql_limit_witness:
  "\<not> is_ok (encode_request reference_libs (cwa_db DC_ExecuteSQL [replicate 992 CHR ''x'']))"
  by (subst execute_sql_limit) (simp_all add: reference_libs_def del: replicate.simps replicate_Suc)

text \<open>C11: a response in the reference CBOR encoding, framed as the server frames it and cut into
  reads in whatever way: if its encoding is at most 512 MiB long, \<open>read_response\<close> returns the response,
  less the storage locations of its rows, and stops at the first byte behind it; a longer one, up to
  what the eight bytes of the length can announce, is refused with its length and left unread.\<close>

theorem server_response_reads_back:
  assumes "length (cbor_encode (ser_response r)) < 2 ^ 64"
    and "avail (rx s) = server_frame (cbor_encode (ser_response r)) @ rest"
  shows "\<exists>evs. if length (cbor_encode (ser_response r)) \<le> 512 * 1024 * 1024
    then read_response reference_libs s = (Inr (forget_value_ids r), s\<lparr>rx := evs\<rparr>)
      \<and> avail evs = rest \<and> rx_end evs = rx_end (rx s)
    else read_response reference_libs s =
        (Inl (ResponseTooLarge (of_nat (length (cbor_encode (ser_response r)))) max_response_bytes), s\<lparr>rx := evs\<rparr>)
      \<and> avail evs = cbor_encode (ser_response r) @ rest"
proof -
  let ?n = "length (cbor_encode (ser_response r))"
  have m: "unat max_response_bytes = 512 * 1024 * 1024" by (simp add: max_response_bytes_def)
  show ?thesis
  proof (cases "?n \<le> 512 * 1024 * 1024")
    case True
    then show ?thesis
      using ref.read_back [OF short_response_ok [OF assms(1)] _ assms(2)] unfolding m if_P [OF True] by blast
  next
    case False
    have "unat (of_nat ?n :: u64) = ?n" using assms(1) by (simp add: unat_of_nat)
    then have "max_response_bytes < of_nat ?n" using False m by (simp add: word_less_nat_alt)
    from read_oversized [OF _ this, of s "cbor_encode (ser_response r) @ rest" reference_libs] assms(2)
    show ?thesis unfolding if_not_P [OF False] by (simp add: server_frame_def)
  qed
qed

theorem server_response_reads_back_witness:
  "\<exists>evs. read_response reference_libs
      \<lparr>rx = [Chunk (server_frame (cbor_encode (ser_response captured_result)) @ [0])], tx = [],
       wr = [], nodelay = True, read_timeout = None, write_timeout = None\<rparr>
    = (Inr captured_result,
       \<lparr>rx = [Chunk (server_frame (cbor_encode (ser_response captured_result)) @ [0])], tx = [],
        wr = [], nodelay = True, read_timeout = None, write_timeout = None\<rparr>\<lparr>rx := evs\<rparr>)
    \<and> avail evs = [0] \<and> rx_end evs = read_exact_eof"
proof -
  have "forget_value_ids captured_result = captured_result"
    by (simp add: captured_result_def forget_value_id_def)
  moreover have "length (cbor_encode (ser_response captured_result)) = 216"
    by (simp add: captured_is_encoding [symmetric] captured_response_def)
  ultimately show ?thesis
    using server_response_reads_back [of captured_result
      "\<lparr>rx = [Chunk (server_frame (cbor_encode (ser_response captured_result)) @ [0])], tx = [],
       wr = [], nodelay = True, read_timeout = None, write_timeout = None\<rparr>" "[0]"] by simp
qed

end
