(* ===== verification/Rows.thy ===== *)
theory Rows
  imports Convert Protocol
begin

section \<open>Query results (\<open>src/src/rows.rs\<close>)\<close>

text \<open>
  \<open>Rows\<close>, \<open>Row\<close> and the iterator over rows. A column is named through the trait
  \<open>ColumnIndex\<close>, here a function \<open>index_in\<close>, and read through \<open>FromValue\<close>, here a function
  \<open>from_value\<close>. Indexing a row by a position it does not have is a panic, the outer
  \<open>option\<close>, and a reader that panics passes its panic on; so is the rendering of a row with more cells than the schema has columns.
\<close>

subsection \<open>Naming a column\<close>

definition usize_index_in :: "nat \<Rightarrow> schema \<Rightarrow> error + nat" where
  "usize_index_in i s = (if i < schema_len s then Inr i else Inl (ColumnOutOfRange i (schema_len s)))"

definition str_index_in :: "string \<Rightarrow> schema \<Rightarrow> error + nat" where
  "str_index_in name s = ok_or (UnknownColumn name) (index_of s name)"

definition string_index_in :: "string \<Rightarrow> schema \<Rightarrow> error + nat" where
  "string_index_in name s = str_index_in name s"

definition ref_string_index_in :: "string \<Rightarrow> schema \<Rightarrow> error + nat" where
  "ref_string_index_in name s = str_index_in name s"

subsection \<open>Rows\<close>

record rows =
  rows_schema :: schema
  rows_data :: "val list list"
  rows_paging :: "paging_info option"

record row =
  row_schema :: schema
  row_values :: "val list"

definition rows_new :: "schema \<Rightarrow> val list list \<Rightarrow> paging_info option \<Rightarrow> rows" where
  "rows_new s rs pg = \<lparr>rows_schema = s, rows_data = rs, rows_paging = pg\<rparr>"

text \<open>The accessors that lend a part.\<close>

definition rows_schema_ref :: "rows \<Rightarrow> schema" where
  "rows_schema_ref r = rows_schema r"

definition rows_paging_ref :: "rows \<Rightarrow> paging_info option" where
  "rows_paging_ref r = rows_paging r"

definition row_values_ref :: "row \<Rightarrow> val list" where
  "row_values_ref r = row_values r"

definition row_schema_ref :: "row \<Rightarrow> schema" where
  "row_schema_ref r = row_schema r"

definition rows_columns :: "rows \<Rightarrow> attribute list" where
  "rows_columns r = columns (rows_schema r)"

definition rows_len :: "rows \<Rightarrow> nat" where
  "rows_len r = length (rows_data r)"

definition rows_is_empty :: "rows \<Rightarrow> bool" where
  "rows_is_empty r = (rows_data r = [])"

definition rows_get :: "rows \<Rightarrow> nat \<Rightarrow> row option" where
  "rows_get r index =
     map_option (\<lambda>vs. \<lparr>row_schema = rows_schema r, row_values = vs\<rparr>) (slice_get (rows_data r) index)"

text \<open>The iterator: the schema and what is left of the slice.\<close>

record row_iter =
  it_schema :: schema
  it_inner :: "val list list"

definition rows_iter :: "rows \<Rightarrow> row_iter" where
  "rows_iter r = \<lparr>it_schema = rows_schema r, it_inner = rows_data r\<rparr>"

definition rows_into_iter :: "rows \<Rightarrow> row_iter" where
  "rows_into_iter r = rows_iter r"

definition row_iter_next :: "row_iter \<Rightarrow> row option \<times> row_iter" where
  "row_iter_next it =
     (case it_inner it of
        [] \<Rightarrow> (None, it)
      | vs # rest \<Rightarrow>
          (Some \<lparr>row_schema = it_schema it, row_values = vs\<rparr>, it\<lparr>it_inner := rest\<rparr>))"

definition row_iter_size_hint :: "row_iter \<Rightarrow> nat \<times> nat option" where
  "row_iter_size_hint it = (length (it_inner it), Some (length (it_inner it)))"

text \<open>A \<open>for\<close> loop over the iterator.\<close>

function row_iter_collect :: "row_iter \<Rightarrow> row list" where
  "row_iter_collect it =
     (case row_iter_next it of (None, it') \<Rightarrow> [] | (Some r, it') \<Rightarrow> r # row_iter_collect it')"
  by pat_completeness auto
termination
  by (relation "measure (\<lambda>it. length (it_inner it))")
    (auto simp: row_iter_next_def split: list.splits)

declare row_iter_collect.simps [simp del]

definition rows_into_values :: "rows \<Rightarrow> val list list" where
  "rows_into_values r = rows_data r"

subsection \<open>One row\<close>

definition row_get ::
    "('c \<Rightarrow> schema \<Rightarrow> error + nat) \<Rightarrow> (val \<Rightarrow> (conversion_error + 'a) option) \<Rightarrow> row \<Rightarrow> 'c
       \<Rightarrow> (error + 'a) option" where
  "row_get index_in from_value r col =
     (case index_in col (row_schema r) of
        Inl e \<Rightarrow> Some (Inl e)
      | Inr index \<Rightarrow>
          Option.bind (slice_get (row_values r) index)
            (\<lambda>v. map_option
               (map_err (\<lambda>source. Conversion
                  (case column (row_schema r) index of None \<Rightarrow> digits index | Some a \<Rightarrow> attr_name a)
                  source))
               (from_value v)))"

definition row_value ::
    "('c \<Rightarrow> schema \<Rightarrow> error + nat) \<Rightarrow> row \<Rightarrow> 'c \<Rightarrow> (error + val) option" where
  "row_value index_in r col =
     (case index_in col (row_schema r) of
        Inl e \<Rightarrow> Some (Inl e)
      | Inr index \<Rightarrow> map_option Inr (slice_get (row_values r) index))"

definition row_len :: "row \<Rightarrow> nat" where
  "row_len r = length (row_values r)"

definition row_is_empty :: "row \<Rightarrow> bool" where
  "row_is_empty r = (row_values r = [])"

text \<open>\<open>Index<&str>\<close> and \<open>Index<usize>\<close>: \<open>expect\<close> panics on an error.\<close>

definition expect_ok :: "'e + 'a \<Rightarrow> 'a option" where
  "expect_ok r = (case r of Inl _ \<Rightarrow> None | Inr x \<Rightarrow> Some x)"

definition row_index_str :: "row \<Rightarrow> string \<Rightarrow> val option" where
  "row_index_str r name = Option.bind (row_value str_index_in r name) expect_ok"

definition row_index_usize :: "row \<Rightarrow> nat \<Rightarrow> val option" where
  "row_index_usize r index = Option.bind (row_value usize_index_in r index) expect_ok"

subsection \<open>Display\<close>

definition is_right_aligned :: "data_type \<Rightarrow> bool" where
  "is_right_aligned t =
     (case t of TBigInt \<Rightarrow> True | TInt \<Rightarrow> True | TSmallInt \<Rightarrow> True | TDecimal _ _ \<Rightarrow> True
      | _ \<Rightarrow> False)"

text \<open>The cells as text; the rendering of a date can panic.\<close>

definition row_cells :: "bool \<Rightarrow> val list list \<Rightarrow> string list list option" where
  "row_cells oc rs = those (map (\<lambda>r. those (map (display_val oc) r)) rs)"

definition column_width :: "string list list \<Rightarrow> nat \<times> attribute \<Rightarrow> nat" where
  "column_width cells c =
     (case c of (i, a) \<Rightarrow>
        max (foldr max (map char_count (List.map_filter (\<lambda>r. slice_get r i) cells)) 0)
          (char_count (attr_name a)))"

definition column_widths :: "attribute list \<Rightarrow> string list list \<Rightarrow> nat list" where
  "column_widths cols cells = map (column_width cells) (List.enumerate 0 cols)"

definition header_line :: "attribute list \<Rightarrow> nat list \<Rightarrow> string" where
  "header_line cols widths =
     join ''|'' (map (\<lambda>(a, w). '' '' @ pad_right w (attr_name a) @ '' '') (zip cols widths))"

definition rule_line :: "nat list \<Rightarrow> string" where
  "rule_line widths = join ''+'' (map (\<lambda>w. replicate (w + 2) CHR ''-'') widths)"

definition render_cell :: "attribute list \<Rightarrow> nat list \<Rightarrow> nat \<times> string \<Rightarrow> string option" where
  "render_cell cols widths c =
     (case c of (i, cell) \<Rightarrow>
        map_option
          (\<lambda>width.
             if (case slice_get cols i of None \<Rightarrow> False | Some a \<Rightarrow> is_right_aligned (attr_dtype a))
             then '' '' @ pad_left CHR '' '' width cell @ '' ''
             else '' '' @ pad_right width cell @ '' '')
          (slice_get widths i))"

definition row_line :: "attribute list \<Rightarrow> nat list \<Rightarrow> string list \<Rightarrow> string option" where
  "row_line cols widths cells =
     map_option (join ''|'') (those (map (render_cell cols widths) (List.enumerate 0 cells)))"

definition count_line :: "nat \<Rightarrow> string" where
  "count_line n = ''('' @ digits n @ '' row'' @ (if n = 1 then [] else ''s'') @ '')''"

definition rows_display :: "bool \<Rightarrow> rows \<Rightarrow> string option" where
  "rows_display oc r =
     (let cols = columns (rows_schema r) in
      if cols = [] then Some (''('' @ digits (rows_len r) @ '' rows)'')
      else
        Option.bind (row_cells oc (rows_data r)) (\<lambda>cells.
          let widths = column_widths cols cells in
          map_option
            (\<lambda>ls. concat (map (\<lambda>l. l @ [CHR 0x0A])
                     (trim_end (header_line cols widths) # rule_line widths # map trim_end ls))
                  @ count_line (rows_len r))
            (those (map (row_line cols widths) cells))))"

subsection \<open>The contract of \<open>ColumnIndex\<close>\<close>

text \<open>A column that resolves is one of the schema.\<close>

locale column_index =
  fixes index_in :: "'c \<Rightarrow> schema \<Rightarrow> error + nat"
  assumes in_range: "index_in col s = Inr i \<Longrightarrow> i < schema_len s"
begin

text \<open>On a row as wide as its schema nothing panics but the reader.\<close>

lemma value_returns:
  "schema_len (row_schema r) \<le> length (row_values r) \<Longrightarrow>
   row_value index_in r col =
     Some (map_ok (\<lambda>i. row_values r ! i) (index_in col (row_schema r)))"
  using in_range [of col "row_schema r"]
  by (cases "index_in col (row_schema r)") (auto simp: row_value_def slice_get_def map_ok_def)

lemma get_returns:
  "schema_len (row_schema r) \<le> length (row_values r) \<Longrightarrow>
   row_get index_in from_value r col =
     (case index_in col (row_schema r) of
        Inl e \<Rightarrow> Some (Inl e)
      | Inr i \<Rightarrow>
          map_option (map_err (Conversion (attr_name (attributes (row_schema r) ! i))))
            (from_value (row_values r ! i)))"
  using in_range [of col "row_schema r"]
  by (cases "index_in col (row_schema r)")
    (auto simp: row_get_def slice_get_def column_def schema_len_def)

lemma get_panics_iff:
  "row_get index_in from_value r col = None \<longleftrightarrow>
     (\<exists>i. index_in col (row_schema r) = Inr i
        \<and> (length (row_values r) \<le> i \<or> from_value (row_values r ! i) = None))"
  by (auto simp: row_get_def slice_get_def split: sum.splits)

end

interpretation usize_ix: column_index usize_index_in
  by unfold_locales (auto simp: usize_index_in_def split: if_splits)

interpretation str_ix: column_index str_index_in
  by unfold_locales (auto simp: str_index_in_def dest: index_of_bound)

interpretation string_ix: column_index string_index_in
  by unfold_locales (auto simp: string_index_in_def dest: str_ix.in_range)

interpretation ref_string_ix: column_index ref_string_index_in
  by unfold_locales (auto simp: ref_string_index_in_def dest: str_ix.in_range)

subsection \<open>Facts about the rendering\<close>

lemma those_map_Some: "(\<And>x. x \<in> set xs \<Longrightarrow> f x = Some (g x)) \<Longrightarrow> those (map f xs) = Some (map g xs)"
  by (induction xs) simp_all

lemma length_those: "those xs = Some ys \<Longrightarrow> length ys = length xs"
  by (induction xs arbitrary: ys) (auto split: option.splits)

lemma those_map_length:
  assumes "those (map f xs) = Some ys" and "\<And>x y. x \<in> set xs \<Longrightarrow> f x = Some y \<Longrightarrow> length y = length x"
  shows "map length ys = map length xs"
  using assms by (induction xs arbitrary: ys) (auto split: option.splits)

lemma length_column_widths [simp]: "length (column_widths cols cells) = length cols"
  by (simp add: column_widths_def)

lemma in_enumerate: "(i, x) \<in> set (List.enumerate 0 xs) \<longleftrightarrow> i < length xs \<and> x = xs ! i"
  by (auto simp: in_set_enumerate_eq)

lemma those_map_None_iff: "those (map f xs) = None \<longleftrightarrow> (\<exists>x\<in>set xs. f x = None)"
  by (induction xs) (auto split: option.split)

lemma render_cell_None_iff: "render_cell cols ws c = None \<longleftrightarrow> length ws \<le> fst c"
  by (cases c) (auto simp: render_cell_def slice_get_def)

lemma row_line_None_iff: "row_line cols ws cells = None \<longleftrightarrow> length ws < length cells"
proof -
  have "(\<exists>c\<in>set (List.enumerate 0 cells). render_cell cols ws c = None) \<longleftrightarrow> length ws < length cells"
  proof
    assume "\<exists>c\<in>set (List.enumerate 0 cells). render_cell cols ws c = None"
    then show "length ws < length cells"
      by (auto simp: render_cell_None_iff in_enumerate)
  next
    assume "length ws < length cells"
    then have "(length ws, cells ! length ws) \<in> set (List.enumerate 0 cells)"
      by (simp add: in_enumerate)
    moreover have "render_cell cols ws (length ws, cells ! length ws) = None"
      by (simp add: render_cell_None_iff)
    ultimately show "\<exists>c\<in>set (List.enumerate 0 cells). render_cell cols ws c = None" by blast
  qed
  then show ?thesis by (simp add: row_line_def those_map_None_iff)
qed

lemma row_cells_lengths: "row_cells oc rs = Some cells \<Longrightarrow> map length cells = map length rs"
  unfolding row_cells_def by (rule those_map_length) (auto dest: length_those)

lemma row_cells_None_iff:
  "row_cells oc rs = None \<longleftrightarrow> (\<exists>vs\<in>set rs. \<exists>v\<in>set vs. display_val oc v = None)"
  by (simp add: row_cells_def those_map_None_iff)

lemma le_foldr_max: "x \<in> set xs \<Longrightarrow> x \<le> foldr max xs (0::nat)"
  by (induction xs) auto

text \<open>A column is as wide as its widest cell and its name.\<close>

lemma column_width_ge:
  assumes "i < length cols"
  shows "cs \<in> set cells \<Longrightarrow> i < length cs \<Longrightarrow> char_count (cs ! i) \<le> column_widths cols cells ! i"
    and "char_count (attr_name (cols ! i)) \<le> column_widths cols cells ! i"
proof -
  have w: "column_widths cols cells ! i = column_width cells (i, cols ! i)"
    using assms by (simp add: column_widths_def nth_enumerate_eq)
  show "char_count (attr_name (cols ! i)) \<le> column_widths cols cells ! i"
    unfolding w by (simp add: column_width_def)
  assume "cs \<in> set cells" "i < length cs"
  then have "cs ! i \<in> set (List.map_filter (\<lambda>r. slice_get r i) cells)"
    by (force simp: List.map_filter_def slice_get_def)
  then have "char_count (cs ! i) \<le> foldr max (map char_count (List.map_filter (\<lambda>r. slice_get r i) cells)) 0"
    by (intro le_foldr_max) simp
  then show "char_count (cs ! i) \<le> column_widths cols cells ! i"
    unfolding w by (simp add: column_width_def)
qed

lemma char_count_framed:
  assumes "clean_start s"
  shows "char_count ('' '' @ s @ '' '') = char_count s + 2"
proof -
  have sp: "clean_start '' ''" "char_count '' '' = 1"
    by (simp_all add: clean_start_ascii char_count_ascii)
  show ?thesis using sp by (simp only: char_count_append [OF clean_start_append [OF assms sp(1)]]
        char_count_append [OF sp(1)])
qed

lemma clean_start_pads:
  "clean_start s \<Longrightarrow> clean_start (pad_right w s) \<and> clean_start (pad_left CHR '' '' w s)"
  by (simp add: pad_right_def pad_left_def clean_start_append clean_start_ascii ascii_replicate)

lemma char_count_cell:
  assumes "clean_start s" "char_count s \<le> w"
  shows "char_count ('' '' @ pad_right w s @ '' '') = w + 2"
    and "char_count ('' '' @ pad_left CHR '' '' w s @ '' '') = w + 2"
proof -
  have m: "max w (char_count s) = w" using assms(2) by (rule max_absorb1)
  show "char_count ('' '' @ pad_right w s @ '' '') = w + 2"
    using char_count_framed [of "pad_right w s"] clean_start_pads [OF assms(1)] m
    by (simp only: char_count_pad_right)
  show "char_count ('' '' @ pad_left CHR '' '' w s @ '' '') = w + 2"
    using char_count_framed [of "pad_left CHR '' '' w s"] clean_start_pads [OF assms(1)] m
      char_count_pad_left [OF assms(1), of "CHR '' ''" w] by simp
qed

text \<open>The parts of a line, each as wide as its column.\<close>

lemma header_parts:
  assumes "\<And>a. a \<in> set cols \<Longrightarrow> clean_start (attr_name a)"
  shows "\<exists>p. header_line cols (column_widths cols cells) = join ''|'' p
    \<and> map char_count p = map (\<lambda>w. w + 2) (column_widths cols cells)"
proof (intro exI conjI)
  let ?w = "column_widths cols cells"
  let ?p = "map (\<lambda>(a, w). '' '' @ pad_right w (attr_name a) @ '' '') (zip cols ?w)"
  show "header_line cols ?w = join ''|'' ?p" by (simp add: header_line_def)
  show "map char_count ?p = map (\<lambda>w. w + 2) ?w"
  proof (rule nth_equalityI)
    fix i assume "i < length (map char_count ?p)"
    then have i: "i < length cols" by simp
    then show "map char_count ?p ! i = map (\<lambda>w. w + 2) ?w ! i"
      using char_count_cell(1) [OF assms column_width_ge(2) [OF i]] by simp
  qed simp
qed

lemma row_parts:
  assumes len: "length cs = length cols" and cs: "cs \<in> set cells"
    and clean: "\<And>c. c \<in> set cs \<Longrightarrow> clean_start c"
  shows "\<exists>p. row_line cols (column_widths cols cells) cs = Some (join ''|'' p)
    \<and> map char_count p = map (\<lambda>w. w + 2) (column_widths cols cells)"
proof -
  let ?w = "column_widths cols cells"
  define g where "g c = (case c of (i, cell) \<Rightarrow>
      if is_right_aligned (attr_dtype (cols ! i)) then '' '' @ pad_left CHR '' '' (?w ! i) cell @ '' ''
      else '' '' @ pad_right (?w ! i) cell @ '' '')" for c
  have "render_cell cols ?w c = Some (g c)" if "c \<in> set (List.enumerate 0 cs)" for c
  proof -
    obtain i x where "c = (i, x)" by fastforce
    with that len show ?thesis by (simp add: render_cell_def g_def slice_get_def in_enumerate)
  qed
  then have "row_line cols ?w cs = Some (join ''|'' (map g (List.enumerate 0 cs)))"
    by (simp add: row_line_def those_map_Some)
  moreover have "map char_count (map g (List.enumerate 0 cs)) = map (\<lambda>w. w + 2) ?w"
  proof (rule nth_equalityI)
    fix i assume "i < length (map char_count (map g (List.enumerate 0 cs)))"
    then have i: "i < length cols" "i < length cs" using len by simp_all
    with char_count_cell [OF clean column_width_ge(1) [OF i(1) cs i(2)]] nth_mem [OF i(2)]
    show "map char_count (map g (List.enumerate 0 cs)) ! i = map (\<lambda>w. w + 2) ?w ! i"
      by (simp add: g_def nth_enumerate_eq)
  qed (simp add: len)
  ultimately show ?thesis by blast
qed

lemma row_iter_collect_eq:
  "row_iter_collect it =
     map (\<lambda>vs. \<lparr>row_schema = it_schema it, row_values = vs\<rparr>) (it_inner it)"
proof (induction it rule: row_iter_collect.induct)
  case (1 it)
  show ?case
  proof (cases "it_inner it")
    case Nil
    then show ?thesis by (subst row_iter_collect.simps) (simp add: row_iter_next_def)
  next
    case (Cons vs rest)
    then have "row_iter_next it = (Some \<lparr>row_schema = it_schema it, row_values = vs\<rparr>, it\<lparr>it_inner := rest\<rparr>)"
      by (simp add: row_iter_next_def)
    with 1 Cons show ?thesis by (subst row_iter_collect.simps) simp
  qed
qed

lemma rows_display_None_iff:
  "rows_display oc r = None \<longleftrightarrow>
     columns (rows_schema r) \<noteq> [] \<and>
     ((\<exists>vs\<in>set (rows_data r). \<exists>v\<in>set vs. display_val oc v = None)
      \<or> (\<exists>vs\<in>set (rows_data r). schema_len (rows_schema r) < length vs))"
proof (cases "row_cells oc (rows_data r)")
  case None
  then show ?thesis using row_cells_None_iff [of oc "rows_data r"]
    by (auto simp: rows_display_def Let_def)
next
  case (Some cells)
  have "(\<exists>cs\<in>set cells. n < length cs) \<longleftrightarrow> (\<exists>vs\<in>set (rows_data r). n < length vs)" for n
    using row_cells_lengths [OF Some] by (metis (mono_tags) image_eqI image_iff list.set_map)
  moreover have "(\<exists>vs\<in>set (rows_data r). \<exists>v\<in>set vs. display_val oc v = None) \<longleftrightarrow> False"
    using row_cells_None_iff [of oc "rows_data r"] unfolding Some by blast
  ultimately show ?thesis
    by (simp only:) (simp add: rows_display_def Let_def Some those_map_None_iff row_line_None_iff
        schema_len_def columns_def)
qed

subsection \<open>Properties\<close>

text \<open>C32: reading a cell, with the column named by a string or by a position: it panics exactly
  when the column resolves to a position beyond the values of the row or the conversion of the
  value there panics. On a row as wide as its schema the answer is the error of the resolution, or
  the conversion of the value at the resolved position with its error naming the column; reading
  such a row as \<open>chrono::NaiveDate\<close> panics exactly for a date whose calendar date overflows.\<close>

theorem row_get_spec:
  "(row_get str_index_in from_value r name = None \<longleftrightarrow>
      (\<exists>i. index_of (row_schema r) name = Some i
         \<and> (length (row_values r) \<le> i \<or> from_value (row_values r ! i) = None)))
   \<and> (row_get usize_index_in from_value r n = None \<longleftrightarrow>
      n < schema_len (row_schema r)
        \<and> (length (row_values r) \<le> n \<or> from_value (row_values r ! n) = None))
   \<and> (schema_len (row_schema r) \<le> length (row_values r) \<longrightarrow>
      row_get str_index_in from_value r name =
        (case index_of (row_schema r) name of
           None \<Rightarrow> Some (Inl (UnknownColumn name))
         | Some i \<Rightarrow> map_option (map_err (Conversion (attr_name (attributes (row_schema r) ! i))))
             (from_value (row_values r ! i)))
      \<and> row_get usize_index_in from_value r n =
        (if n < schema_len (row_schema r)
         then map_option (map_err (Conversion (attr_name (attributes (row_schema r) ! n))))
           (from_value (row_values r ! n))
         else Some (Inl (ColumnOutOfRange n (schema_len (row_schema r)))))
      \<and> (row_get str_index_in (naive_date_from_value from_ymd_opt oc) r name = None \<longleftrightarrow>
          (\<exists>i days. index_of (row_schema r) name = Some i \<and> row_values r ! i = VDate days
             \<and> civil_from_days oc (sint days) = None))
      \<and> (row_get usize_index_in (naive_date_from_value from_ymd_opt oc) r n = None \<longleftrightarrow>
          n < schema_len (row_schema r)
            \<and> (\<exists>days. row_values r ! n = VDate days \<and> civil_from_days oc (sint days) = None)))"
proof -
  have i: "index_of (row_schema r) name = Some i \<Longrightarrow> i < schema_len (row_schema r)" for i
    using str_ix.in_range [of name "row_schema r" i] by (simp add: str_index_in_def ok_or_def)
  show ?thesis
    by (intro conjI impI)
      (auto simp: str_ix.get_panics_iff usize_ix.get_panics_iff str_ix.get_returns usize_ix.get_returns
        str_index_in_def usize_index_in_def ok_or_def naive_date_panics_iff dest: i split: option.splits)
qed

text \<open>A name read as an integer, and the last day of the type read as a date where overflow is
  checked.\<close>

theorem row_get_spec_witness:
  "let r = \<lparr>row_schema = \<lparr>attributes = [\<lparr>attr_name = ''name'', attr_dtype = TString, attr_constraint = CNone\<rparr>,
        \<lparr>attr_name = ''born'', attr_dtype = TDate, attr_constraint = CNone\<rparr>]\<rparr>,
      row_values = [VString ''alice'', VDate 0x7FFFFFFFFFFFFFFF]\<rparr>
   in row_get str_index_in (returning i64_from_value) r ''name'' =
        Some (Inl (Conversion ''name'' (conversion_new ''i64'' ''VARCHAR'')))
      \<and> row_get usize_index_in (naive_date_from_value (\<lambda>y m d. Some (y, m, d)) True) r 1 = None"
proof -
  let ?r = "\<lparr>row_schema = \<lparr>attributes = [\<lparr>attr_name = ''name'', attr_dtype = TString, attr_constraint = CNone\<rparr>,
        \<lparr>attr_name = ''born'', attr_dtype = TDate, attr_constraint = CNone\<rparr>]\<rparr>,
      row_values = [VString ''alice'', VDate 0x7FFFFFFFFFFFFFFF]\<rparr>"
  have "civil_from_days True (sint (0x7FFFFFFFFFFFFFFF :: i64)) = None"
    by (simp add: civil_from_days_def add64_def i64_arith_def in_i64_def)
  then show ?thesis
    using row_get_spec [of "returning i64_from_value" ?r "''name''" 1 "\<lambda>y m d. Some (y, m, d)" True]
      row_get_spec [of "naive_date_from_value (\<lambda>y m d. Some (y, m, d)) True" ?r "''name''" 1 "\<lambda>y m d. Some (y, m, d)" True]
    by (simp add: index_of_def schema_len_def map_err_def i64_from_value_def int_from_value_def
        and_then_def ok_or_def)
qed

text \<open>The loop over the rows visits what \<open>get\<close> returns for every position in order, each
  row with the schema of the result, and \<open>get\<close> returns nothing beyond.\<close>

lemma rows_iter_visits:
  "map Some (row_iter_collect (rows_iter r)) = map (rows_get r) [0..<rows_len r]
   \<and> rows_get r (rows_len r + k) = None
   \<and> row_iter_size_hint (rows_iter r) = (rows_len r, Some (rows_len r))"
  by (auto simp: row_iter_collect_eq rows_iter_def rows_get_def rows_len_def slice_get_def
      row_iter_size_hint_def intro!: nth_equalityI)

text \<open>C35: rendering panics exactly when the schema has at least one column and some row has more
  cells than the schema has columns or holds a date whose rendering panics; without columns nothing
  is rendered but the number of rows.\<close>

theorem rows_display_panics_iff:
  "rows_display oc r = None \<longleftrightarrow>
     columns (rows_schema r) \<noteq> [] \<and>
     ((\<exists>vs\<in>set (rows_data r). \<exists>v\<in>set vs. display_val oc v = None)
      \<or> (\<exists>vs\<in>set (rows_data r). schema_len (rows_schema r) < length vs))"
  by (rule rows_display_None_iff)

theorem rows_display_panics_iff_witness:
  "rows_display True (rows_new \<lparr>attributes = [\<lparr>attr_name = ''id'', attr_dtype = TInt, attr_constraint = CNone\<rparr>]\<rparr>
     [[VInt 1, VInt 2]] None) = None"
  by (subst rows_display_panics_iff) (simp add: rows_new_def columns_def schema_len_def)

text \<open>C31: a result whose rows are as wide as its schema renders as a table: the header, the rule
  and one line for each row, cut into one part per column, and in every line the part of a
  column has the width of that column, so the separators stand below each other.\<close>

theorem rows_display_aligned:
  assumes "columns (rows_schema r) \<noteq> []"
    and "\<And>a. a \<in> set (columns (rows_schema r)) \<Longrightarrow> clean_start (attr_name a)"
    and "\<And>vs. vs \<in> set (rows_data r) \<Longrightarrow> length vs = length (columns (rows_schema r))"
    and "\<And>vs v. vs \<in> set (rows_data r) \<Longrightarrow> v \<in> set vs \<Longrightarrow>
      \<exists>t. display_val oc v = Some t \<and> clean_start t"
  shows "\<exists>ws header body.
    rows_display oc r = Some
      (concat (map (\<lambda>l. l @ [CHR 0x0A])
         (trim_end (join ''|'' header) # rule_line ws # map (\<lambda>p. trim_end (join ''|'' p)) body))
       @ count_line (rows_len r))
    \<and> length ws = length (columns (rows_schema r)) \<and> length body = rows_len r
    \<and> (\<forall>p\<in>set (header # body). map char_count p = map (\<lambda>w. w + 2) ws)"
proof -
  let ?cols = "columns (rows_schema r)"
  define cells where "cells = map (map (\<lambda>v. the (display_val oc v))) (rows_data r)"
  let ?w = "column_widths ?cols cells"
  have c: "row_cells oc (rows_data r) = Some cells"
    unfolding row_cells_def cells_def using assms(4)
    by (intro those_map_Some) (metis option.sel)
  have clean: "clean_start t" if "cs \<in> set cells" "t \<in> set cs" for cs t
    using that assms(4) by (fastforce simp: cells_def)
  have len: "length cs = length ?cols" if "cs \<in> set cells" for cs
    using that assms(3) by (auto simp: cells_def)
  have "\<exists>p. row_line ?cols ?w cs = Some (join ''|'' p) \<and> map char_count p = map (\<lambda>w. w + 2) ?w"
    if "cs \<in> set cells" for cs
    by (rule row_parts [OF len [OF that] that clean [OF that]])
  then obtain p where p: "\<And>cs. cs \<in> set cells \<Longrightarrow> row_line ?cols ?w cs = Some (join ''|'' (p cs))
      \<and> map char_count (p cs) = map (\<lambda>w. w + 2) ?w" by metis
  then have ls: "those (map (row_line ?cols ?w) cells) = Some (map (\<lambda>cs. join ''|'' (p cs)) cells)"
    by (intro those_map_Some) blast
  obtain h where h: "header_line ?cols ?w = join ''|'' h" "map char_count h = map (\<lambda>w. w + 2) ?w"
    using header_parts [OF assms(2)] by blast
  show ?thesis
  proof (intro exI conjI)
    show "rows_display oc r = Some (concat (map (\<lambda>l. l @ [CHR 0x0A])
        (trim_end (join ''|'' h) # rule_line ?w # map (\<lambda>p. trim_end (join ''|'' p)) (map p cells)))
      @ count_line (rows_len r))"
      using assms(1) by (simp add: rows_display_def Let_def c ls h(1) comp_def)
  qed (use p h in \<open>auto simp: cells_def rows_len_def\<close>)
qed

theorem rows_display_aligned_witness:
  "\<exists>ws header body.
    rows_display True (rows_new \<lparr>attributes = [\<lparr>attr_name = ''id'', attr_dtype = TInt, attr_constraint = CNone\<rparr>]\<rparr>
        [[VInt 1]] None) = Some
      (concat (map (\<lambda>l. l @ [CHR 0x0A])
         (trim_end (join ''|'' header) # rule_line ws # map (\<lambda>p. trim_end (join ''|'' p)) body))
       @ count_line 1)
    \<and> length ws = 1 \<and> length body = 1
    \<and> (\<forall>p\<in>set (header # body). map char_count p = map (\<lambda>w. w + 2) ws)"
  using rows_display_aligned [of "rows_new
      \<lparr>attributes = [\<lparr>attr_name = ''id'', attr_dtype = TInt, attr_constraint = CNone\<rparr>]\<rparr> [[VInt 1]] None" True]
  by (simp add: rows_new_def columns_def rows_len_def clean_start_ascii show_int_def)

end
