(* ===== verification/Client.thy ===== *)
theory Client
  imports Codec Rows Sql
begin

section \<open>The client (\<open>src/src/client.rs\<close>)\<close>

text \<open>
  Every operation of \<open>Client\<close> takes the client and returns its result with the client after
  it: the stream, the address, the database selected and whether statements are checked.
  \<open>execute\<close> calls the statement guard, whose slices could panic, so its result is an
  \<open>option\<close>. The operating system is the parameter \<open>net\<close>: how an address resolves and what
  connecting to it gives, and whether the option for no delay is refused. Durations count
  nanoseconds; setting a timeout fails for a zero duration, as documented, and not otherwise.
\<close>

type_synonym socket_addr = string
type_synonym duration = nat

record net =
  to_socket_addrs :: "string \<Rightarrow> io_error + socket_addr list"
  tcp_connect :: "socket_addr \<Rightarrow> io_error + tcp_stream"
  tcp_connect_within :: "socket_addr \<Rightarrow> duration \<Rightarrow> io_error + tcp_stream"
  nodelay_error :: "socket_addr \<Rightarrow> io_error option"

subsection \<open>Outcomes\<close>

datatype outcome = O_Message string | O_Insert u64 string | O_Rows rows

definition rows_affected :: "outcome \<Rightarrow> nat" where
  "rows_affected out =
     (case out of O_Message _ \<Rightarrow> 0 | O_Insert n _ \<Rightarrow> unat n | O_Rows r \<Rightarrow> rows_len r)"

definition outcome_message :: "outcome \<Rightarrow> string option" where
  "outcome_message out = (case out of O_Message m \<Rightarrow> Some m | _ \<Rightarrow> None)"

definition outcome_rows :: "outcome \<Rightarrow> rows option" where
  "outcome_rows out = (case out of O_Rows r \<Rightarrow> Some r | _ \<Rightarrow> None)"

definition into_rows :: "outcome \<Rightarrow> error + rows" where
  "into_rows out =
     (case out of
        O_Rows r \<Rightarrow> Inr r
      | O_Message m \<Rightarrow>
          Inl (UnexpectedResponse (''expected a result set, server said: '' @ m))
      | O_Insert n table \<Rightarrow>
          Inl (UnexpectedResponse (''expected a result set, but '' @ digits (unat n)
            @ '' rows were inserted into '' @ table)))"

definition into_outcome :: "query_result \<Rightarrow> outcome" where
  "into_outcome result =
     (case result of
        QR_MessageOnly m \<Rightarrow> O_Message m
      | QR_Insert n table \<Rightarrow> O_Insert n table
      | QR_Select s ts pg \<Rightarrow> O_Rows (rows_new s (map field_vals ts) pg))"

subsection \<open>Reading responses\<close>

definition check :: "response \<Rightarrow> error + response" where
  "check response =
     (case response of
        R_SystemErr m \<Rightarrow>
          if str_contains ''Not connected to a database'' m then Inl NotConnected
          else Inl (Server m)
      | R_QueryExecutionError m \<Rightarrow> Inl (Query m)
      | R_QuietErr \<Rightarrow> Inl (Server ''server reported an error'')
      | R_Shutdown b \<Rightarrow> if b then Inr response else Inl ServerShutdown
      | _ \<Rightarrow> Inr response)"

definition unexpected :: "libs \<Rightarrow> response \<Rightarrow> error" where
  "unexpected L response = UnexpectedResponse (debug_response (printable L) response)"

definition expect_message :: "libs \<Rightarrow> response \<Rightarrow> error + string" where
  "expect_message L response =
     (case response of
        R_SystemMsg m \<Rightarrow> Inr m
      | R_QueryResult (QR_MessageOnly m) \<Rightarrow> Inr m
      | _ \<Rightarrow> Inl (unexpected L response))"

definition execute_response :: "libs \<Rightarrow> response \<Rightarrow> error + outcome" where
  "execute_response L response =
     (case response of
        R_QueryResult result \<Rightarrow> Inr (into_outcome result)
      | R_SystemMsg m \<Rightarrow> Inr (O_Message m)
      | R_Ok \<Rightarrow> Inr (O_Message [])
      | R_QuietOk \<Rightarrow> Inr (O_Message [])
      | _ \<Rightarrow> Inl (unexpected L response))"

definition require_name :: "string \<Rightarrow> string \<Rightarrow> error + string" where
  "require_name value what =
     (let trimmed = trim value in
      if trimmed = [] then Inl (InvalidArgument (what @ '' is empty'')) else Inr trimmed)"

definition parse_list :: "string \<Rightarrow> string \<Rightarrow> string list" where
  "parse_list message prefix =
     filter (\<lambda>item. item \<noteq> [])
       (map trim (split_on CHR '',''
          (case strip_prefix prefix message of None \<Rightarrow> message | Some rest \<Rightarrow> rest)))"

definition parse_imported :: "string \<Rightarrow> error + nat" where
  "parse_imported message =
     ok_or (UnexpectedResponse (''no row count in: '' @ message))
       (find_map parse_usize (split_whitespace message))"

subsection \<open>The connection\<close>

record client =
  c_stream :: tcp_stream
  c_addr :: socket_addr
  c_database :: "string option"
  c_guard :: bool

text \<open>The operator \<open>?\<close> in a method that changes the client.\<close>

definition try_then :: "('e + 'a) \<times> 's \<Rightarrow> ('a \<Rightarrow> 's \<Rightarrow> ('e + 'b) \<times> 's) \<Rightarrow> ('e + 'b) \<times> 's" where
  "try_then p f = (case p of (Inl e, s) \<Rightarrow> (Inl e, s) | (Inr x, s) \<Rightarrow> f x s)"

definition round_trip :: "libs \<Rightarrow> command_with_args \<Rightarrow> client \<Rightarrow> (error + response) \<times> client" where
  "round_trip L command c =
     (case write_request L command (c_stream c) of
        (Inl e, s) \<Rightarrow> (Inl e, c\<lparr>c_stream := s\<rparr>)
      | (Inr _, s) \<Rightarrow> (case read_response L s of (r, s) \<Rightarrow> (r, c\<lparr>c_stream := s\<rparr>)))"

definition system :: "libs \<Rightarrow> system_command \<Rightarrow> string list \<Rightarrow> client \<Rightarrow> (error + response) \<times> client" where
  "system L command args c =
     (case round_trip L (cwa_system command args) c of (r, c) \<Rightarrow> (and_then r check, c))"

definition db :: "libs \<Rightarrow> db_command \<Rightarrow> string list \<Rightarrow> client \<Rightarrow> (error + response) \<times> client" where
  "db L command args c =
     (case round_trip L (cwa_db command args) c of (r, c) \<Rightarrow> (and_then r check, c))"

definition server_addr :: "client \<Rightarrow> socket_addr" where
  "server_addr c = c_addr c"

definition selected_database :: "client \<Rightarrow> string option" where
  "selected_database c = c_database c"

definition set_statement_guard :: "bool \<Rightarrow> client \<Rightarrow> client" where
  "set_statement_guard enabled c = c\<lparr>c_guard := enabled\<rparr>"

definition zero_timeout :: io_error where
  "zero_timeout = \<lparr>io_kind = InvalidInput, io_message = ''cannot set a 0 duration timeout''\<rparr>"

definition tcp_set_read_timeout :: "duration option \<Rightarrow> tcp_stream \<Rightarrow> io_error + tcp_stream" where
  "tcp_set_read_timeout t s = (if t = Some 0 then Inl zero_timeout else Inr (s\<lparr>read_timeout := t\<rparr>))"

definition tcp_set_write_timeout :: "duration option \<Rightarrow> tcp_stream \<Rightarrow> io_error + tcp_stream" where
  "tcp_set_write_timeout t s = (if t = Some 0 then Inl zero_timeout else Inr (s\<lparr>write_timeout := t\<rparr>))"

definition set_read_timeout :: "duration option \<Rightarrow> client \<Rightarrow> (error + unit) \<times> client" where
  "set_read_timeout t c =
     (case tcp_set_read_timeout t (c_stream c) of
        Inl e \<Rightarrow> (Inl (from_io e), c)
      | Inr s \<Rightarrow> (Inr (), c\<lparr>c_stream := s\<rparr>))"

definition set_write_timeout :: "duration option \<Rightarrow> client \<Rightarrow> (error + unit) \<times> client" where
  "set_write_timeout t c =
     (case tcp_set_write_timeout t (c_stream c) of
        Inl e \<Rightarrow> (Inl (from_io e), c)
      | Inr s \<Rightarrow> (Inr (), c\<lparr>c_stream := s\<rparr>))"

definition create_database :: "libs \<Rightarrow> string \<Rightarrow> client \<Rightarrow> (error + unit) \<times> client" where
  "create_database L name c =
     try_then (require_name name ''database name'', c) (\<lambda>name c.
     try_then (system L SC_Create [name] c) (\<lambda>_ c.
     (Inr (), c)))"

definition use_database :: "libs \<Rightarrow> string \<Rightarrow> client \<Rightarrow> (error + unit) \<times> client" where
  "use_database L name c =
     try_then (require_name name ''database name'', c) (\<lambda>name c.
     try_then (system L SC_Connect [name] c) (\<lambda>_ c.
     (Inr (), c\<lparr>c_database := Some name\<rparr>)))"

definition databases :: "libs \<Rightarrow> client \<Rightarrow> (error + string list) \<times> client" where
  "databases L c =
     try_then (system L SC_ShowDatabases [] c) (\<lambda>response c.
     try_then (expect_message L response, c) (\<lambda>message c.
     (Inr (parse_list message ''Databases:''), c)))"

definition tables :: "libs \<Rightarrow> client \<Rightarrow> (error + string list) \<times> client" where
  "tables L c =
     try_then (db L DC_ShowTables [] c) (\<lambda>response c.
     try_then (expect_message L response, c) (\<lambda>message c.
     (Inr (parse_list message ''Tables:''), c)))"

text \<open>What \<open>execute\<close> decides before it sends anything.\<close>

definition execute_guard :: "bool \<Rightarrow> string \<Rightarrow> (error + unit) option" where
  "execute_guard guard sql =
     (if guard then map_option (map_ok (\<lambda>_. ())) (inspect sql)
      else if trim sql = [] then Some (Inl (InvalidArgument ''statement is empty''))
      else Some (Inr ()))"

definition execute :: "libs \<Rightarrow> string \<Rightarrow> client \<Rightarrow> ((error + outcome) \<times> client) option" where
  "execute L sql c =
     map_option
       (\<lambda>g. try_then (g, c) (\<lambda>_ c.
          try_then (db L DC_ExecuteSQL [sql] c) (\<lambda>response c.
          (execute_response L response, c))))
       (execute_guard (c_guard c) sql)"

definition query :: "libs \<Rightarrow> string \<Rightarrow> client \<Rightarrow> ((error + rows) \<times> client) option" where
  "query L sql c =
     map_option (\<lambda>p. try_then p (\<lambda>out c. (into_rows out, c))) (execute L sql c)"

definition import_csv :: "libs \<Rightarrow> string \<Rightarrow> string \<Rightarrow> client \<Rightarrow> (error + nat) \<times> client" where
  "import_csv L server_path table c =
     try_then (require_name server_path ''path'', c) (\<lambda>path c.
     try_then (require_name table ''table name'', c) (\<lambda>table c.
     try_then (db L DC_Import [path, table] c) (\<lambda>response c.
     try_then (expect_message L response, c) (\<lambda>message c.
     (parse_imported message, c)))))"

definition commit :: "libs \<Rightarrow> client \<Rightarrow> (error + unit) \<times> client" where
  "commit L c = try_then (db L DC_Commit [] c) (\<lambda>_ c. (Inr (), c))"

definition client_help :: "libs \<Rightarrow> client \<Rightarrow> (error + string) \<times> client" where
  "client_help L c = try_then (system L SC_Help [] c) (\<lambda>response c. (expect_message L response, c))"

definition reset_server :: "libs \<Rightarrow> client \<Rightarrow> (error + unit) \<times> client" where
  "reset_server L c =
     try_then (system L SC_Reset [] c) (\<lambda>_ c. (Inr (), c\<lparr>c_database := None\<rparr>))"

text \<open>\<open>shutdown_server\<close> consumes the client; its third result lists the connections it opens to
  wake the server, whose own results it ignores.\<close>

definition shutdown_server ::
    "libs \<Rightarrow> client \<Rightarrow> (error + unit) \<times> client \<times> socket_addr list" where
  "shutdown_server L c =
     (case round_trip L (cwa_system SC_Shutdown []) c of
        (Inl e, c) \<Rightarrow> (Inl e, c, [])
      | (Inr response, c) \<Rightarrow>
          (case response of
             R_Shutdown _ \<Rightarrow> (Inr (), c, [c_addr c])
           | R_QuietOk \<Rightarrow> (Inr (), c, [c_addr c])
           | _ \<Rightarrow> (Inl (unexpected L response), c, [])))"

definition client_close :: "libs \<Rightarrow> client \<Rightarrow> (error + unit) \<times> client" where
  "client_close L c = try_then (system L SC_CloseConnection [] c) (\<lambda>_ c. (Inr (), c))"

subsection \<open>Connecting\<close>

record client_builder =
  b_connect_timeout :: "duration option"
  b_read_timeout :: "duration option"
  b_write_timeout :: "duration option"
  b_database :: "string option"
  b_statement_guard :: "bool option"

definition default_builder :: client_builder where
  "default_builder =
     \<lparr>b_connect_timeout = None, b_read_timeout = None, b_write_timeout = None,
      b_database = None, b_statement_guard = None\<rparr>"

definition with_connect_timeout :: "duration \<Rightarrow> client_builder \<Rightarrow> client_builder" where
  "with_connect_timeout t b = b\<lparr>b_connect_timeout := Some t\<rparr>"

definition with_read_timeout :: "duration \<Rightarrow> client_builder \<Rightarrow> client_builder" where
  "with_read_timeout t b = b\<lparr>b_read_timeout := Some t\<rparr>"

definition with_write_timeout :: "duration \<Rightarrow> client_builder \<Rightarrow> client_builder" where
  "with_write_timeout t b = b\<lparr>b_write_timeout := Some t\<rparr>"

definition with_database :: "string \<Rightarrow> client_builder \<Rightarrow> client_builder" where
  "with_database name b = b\<lparr>b_database := Some name\<rparr>"

definition with_statement_guard :: "bool \<Rightarrow> client_builder \<Rightarrow> client_builder" where
  "with_statement_guard enabled b = b\<lparr>b_statement_guard := Some enabled\<rparr>"

definition resolve :: "net \<Rightarrow> string \<Rightarrow> error + socket_addr" where
  "resolve N addr =
     and_then (map_err from_io (to_socket_addrs N addr)) (\<lambda>as.
       ok_or (InvalidArgument ''address resolved to nothing'')
         (case as of [] \<Rightarrow> None | a # _ \<Rightarrow> Some a))"

definition tcp_connect_timeout :: "net \<Rightarrow> socket_addr \<Rightarrow> duration \<Rightarrow> io_error + tcp_stream" where
  "tcp_connect_timeout N addr t = (if t = 0 then Inl zero_timeout else tcp_connect_within N addr t)"

definition tcp_set_nodelay :: "net \<Rightarrow> socket_addr \<Rightarrow> bool \<Rightarrow> tcp_stream \<Rightarrow> io_error + tcp_stream" where
  "tcp_set_nodelay N addr b s =
     (case nodelay_error N addr of None \<Rightarrow> Inr (s\<lparr>nodelay := b\<rparr>) | Some e \<Rightarrow> Inl e)"

definition builder_connect :: "libs \<Rightarrow> net \<Rightarrow> client_builder \<Rightarrow> string \<Rightarrow> error + client" where
  "builder_connect L N b addr =
     and_then (resolve N addr) (\<lambda>addr.
     and_then
       (map_err from_io
          (case b_connect_timeout b of
             Some t \<Rightarrow> tcp_connect_timeout N addr t
           | None \<Rightarrow> tcp_connect N addr)) (\<lambda>s.
     and_then (map_err from_io (tcp_set_nodelay N addr True s)) (\<lambda>s.
     and_then (map_err from_io (tcp_set_read_timeout (b_read_timeout b) s)) (\<lambda>s.
     and_then (map_err from_io (tcp_set_write_timeout (b_write_timeout b) s)) (\<lambda>s.
       let c = \<lparr>c_stream = s, c_addr = addr, c_database = None,
                c_guard = (case b_statement_guard b of None \<Rightarrow> True | Some g \<Rightarrow> g)\<rparr> in
       case b_database b of
         None \<Rightarrow> Inr c
       | Some database \<Rightarrow>
           (case use_database L database c of
              (Inl e, _) \<Rightarrow> Inl e
            | (Inr _, c) \<Rightarrow> Inr c))))))"

definition client_connect :: "libs \<Rightarrow> net \<Rightarrow> string \<Rightarrow> error + client" where
  "client_connect L N addr = builder_connect L N default_builder addr"

definition client_connect_to :: "libs \<Rightarrow> net \<Rightarrow> string \<Rightarrow> string \<Rightarrow> error + client" where
  "client_connect_to L N addr database =
     builder_connect L N (with_database database default_builder) addr"

definition client_builder :: client_builder where
  "client_builder = default_builder"

subsection \<open>What one request changes\<close>

text \<open>
  A client that has sent at most one request of at most 1024 bytes, its address, guard and
  socket options being the same.
\<close>

definition one_request :: "client \<Rightarrow> client \<Rightarrow> bool" where
  "one_request c c' \<longleftrightarrow>
     (\<exists>bs. tx (c_stream c') = tx (c_stream c) @ bs \<and> length bs \<le> 1024)
     \<and> c_addr c' = c_addr c \<and> c_guard c' = c_guard c
     \<and> nodelay (c_stream c') = nodelay (c_stream c)
     \<and> read_timeout (c_stream c') = read_timeout (c_stream c)
     \<and> write_timeout (c_stream c') = write_timeout (c_stream c)"

text \<open>A database is recorded by a trimmed name.\<close>

definition session_ok :: "client \<Rightarrow> bool" where
  "session_ok c = (case c_database c of None \<Rightarrow> True | Some d \<Rightarrow> d \<noteq> [] \<and> trim d = d)"

lemma one_request_refl [simp]: "one_request c c"
  by (simp add: one_request_def)

lemma one_request_database [simp]:
  "one_request c (c'\<lparr>c_database := d\<rparr>) = one_request c c'"
  by (simp add: one_request_def)

lemma session_ok_stream [simp]: "session_ok (c\<lparr>c_stream := s\<rparr>) = session_ok c"
  by (simp add: session_ok_def)

lemma round_trip_stream:
  "\<exists>s. snd (round_trip L cmd c) = c\<lparr>c_stream := s\<rparr> \<and> one_request c (c\<lparr>c_stream := s\<rparr>)"
proof (cases "encode_request L cmd")
  case (Inl e)
  then have "write_request L cmd (c_stream c) = (Inl e, c_stream c)"
    using write_request_spec [of L cmd "c_stream c"] by simp
  then have "snd (round_trip L cmd c) = c\<lparr>c_stream := c_stream c\<rparr>"
    by (simp add: round_trip_def)
  then show ?thesis by (metis client.surjective client.update_convs(1) one_request_refl)
next
  case (Inr bytes)
  with write_request_spec [of L cmd "c_stream c"] obtain k evs r where
    n: "length bytes \<le> 1024" and w: "write_request L cmd (c_stream c) =
      (r, (c_stream c)\<lparr>tx := tx (c_stream c) @ take k bytes, wr := evs\<rparr>)" by auto
  let ?s = "(c_stream c)\<lparr>tx := tx (c_stream c) @ take k bytes, wr := evs\<rparr>"
  obtain rs q where q: "read_response L ?s = (q, ?s\<lparr>rx := rs\<rparr>)"
    using read_response_eq [of L ?s] by blast
  have "one_request c (c\<lparr>c_stream := ?s\<rparr>)" "one_request c (c\<lparr>c_stream := ?s\<lparr>rx := rs\<rparr>\<rparr>)"
    using n by (auto simp: one_request_def)
  moreover have "snd (round_trip L cmd c) \<in> {c\<lparr>c_stream := ?s\<rparr>, c\<lparr>c_stream := ?s\<lparr>rx := rs\<rparr>\<rparr>}"
    using w q by (cases r) (simp_all add: round_trip_def)
  ultimately show ?thesis by auto
qed

lemma system_eq:
  "system L cmd args c =
     (and_then (fst (round_trip L (cwa_system cmd args) c)) check,
      snd (round_trip L (cwa_system cmd args) c))"
  by (simp add: system_def split: prod.split)

lemma db_eq:
  "db L cmd args c =
     (and_then (fst (round_trip L (cwa_db cmd args) c)) check,
      snd (round_trip L (cwa_db cmd args) c))"
  by (simp add: db_def split: prod.split)

text \<open>
  The contract of the client's operations: each sends at most one request, and keeps the
  invariant of the session.
\<close>

locale client_operation =
  fixes oper :: "client \<Rightarrow> (error + 'a) \<times> client"
  assumes sends_one: "one_request c (snd (oper c))"
    and keeps_session: "session_ok c \<Longrightarrow> session_ok (snd (oper c))"
begin

text \<open>A further step that leaves the stream alone keeps the contract.\<close>

lemma then_pure:
  "client_operation (\<lambda>c. try_then (oper c) (\<lambda>x c. (f x, c)))"
proof
  fix c
  have "snd (try_then (oper c) (\<lambda>x c. (f x, c))) = snd (oper c)"
    by (cases "oper c"; cases "fst (oper c)") (auto simp: try_then_def)
  then show "one_request c (snd (try_then (oper c) (\<lambda>x c. (f x, c))))"
    and "session_ok c \<Longrightarrow> session_ok (snd (try_then (oper c) (\<lambda>x c. (f x, c))))"
    using sends_one keeps_session by simp_all
qed

lemma then_select:
  assumes "\<And>x. case d x of None \<Rightarrow> True | Some n \<Rightarrow> n \<noteq> [] \<and> trim n = n"
  shows "client_operation (\<lambda>c. try_then (oper c) (\<lambda>x c. (f x, c\<lparr>c_database := d x\<rparr>)))"
proof
  fix c
  obtain r c' where o: "oper c = (r, c')" by fastforce
  then have "one_request c c'" "session_ok c \<Longrightarrow> session_ok c'"
    using sends_one [of c] keeps_session [of c] by simp_all
  then show "one_request c (snd (try_then (oper c) (\<lambda>x c. (f x, c\<lparr>c_database := d x\<rparr>))))"
    and "session_ok c \<Longrightarrow> session_ok (snd (try_then (oper c) (\<lambda>x c. (f x, c\<lparr>c_database := d x\<rparr>))))"
    using assms by (cases r; simp add: try_then_def session_ok_def o)+
qed

end

lemma client_operation_after:
  "(\<And>x. e = Inr x \<Longrightarrow> client_operation (f x)) \<Longrightarrow> client_operation (\<lambda>c. try_then (e, c) f)"
  by (cases e) (simp_all add: try_then_def client_operation_def)

lemma try_then_pure: "try_then (e, c) (\<lambda>x c. (f x, c)) = (and_then e f, c)"
  by (cases e) (simp_all add: try_then_def and_then_def)

lemma client_operation_round_trip: "client_operation (round_trip L cmd)"
proof
  fix c
  obtain s where "snd (round_trip L cmd c) = c\<lparr>c_stream := s\<rparr>" "one_request c (c\<lparr>c_stream := s\<rparr>)"
    using round_trip_stream by blast
  then show "one_request c (snd (round_trip L cmd c))"
    and "session_ok c \<Longrightarrow> session_ok (snd (round_trip L cmd c))" by simp_all
qed

interpretation rt_op: client_operation "round_trip L cmd" for L cmd
  by (rule client_operation_round_trip)

interpretation system_op: client_operation "system L cmd args" for L cmd args
  by unfold_locales (simp_all add: system_eq rt_op.sends_one rt_op.keeps_session)

interpretation db_op: client_operation "db L cmd args" for L cmd args
  by unfold_locales (simp_all add: db_eq rt_op.sends_one rt_op.keeps_session)

interpretation create_database_op: client_operation "create_database L name" for L name
  unfolding create_database_def
  by (intro client_operation_after system_op.then_pure)

lemma require_name_trimmed: "require_name v what = Inr n \<Longrightarrow> n \<noteq> [] \<and> trim n = n"
  by (auto simp: require_name_def Let_def split: if_splits)

interpretation use_database_op: client_operation "use_database L name" for L name
  unfolding use_database_def
proof (rule client_operation_after)
  fix n assume "require_name name ''database name'' = Inr n"
  then have "n \<noteq> [] \<and> trim n = n" by (rule require_name_trimmed)
  then show "client_operation (\<lambda>c. try_then (system L SC_Connect [n] c)
      (\<lambda>_ c. (Inr (), c\<lparr>c_database := Some n\<rparr>)))"
    using system_op.then_select [where d = "\<lambda>_. Some n" and f = "\<lambda>_. Inr ()"] by simp
qed

interpretation databases_op: client_operation "databases L" for L
  unfolding databases_def try_then_pure by (rule system_op.then_pure)

interpretation tables_op: client_operation "tables L" for L
  unfolding tables_def try_then_pure by (rule db_op.then_pure)

interpretation import_csv_op: client_operation "import_csv L path table" for L path table
  unfolding import_csv_def try_then_pure
  by (intro client_operation_after db_op.then_pure)

interpretation commit_op: client_operation "commit L" for L
  unfolding commit_def by (rule db_op.then_pure)

interpretation help_op: client_operation "client_help L" for L
  unfolding client_help_def by (rule system_op.then_pure)

interpretation reset_server_op: client_operation "reset_server L" for L
  unfolding reset_server_def
  using system_op.then_select [where d = "\<lambda>_. None" and f = "\<lambda>_. Inr ()"] by simp

interpretation close_op: client_operation "client_close L" for L
  unfolding client_close_def by (rule system_op.then_pure)

lemma shutdown_server_client:
  "fst (snd (shutdown_server L c)) = snd (round_trip L (cwa_system SC_Shutdown []) c)"
  by (auto simp: shutdown_server_def split: prod.splits sum.splits response.splits)

interpretation shutdown_server_op: client_operation
    "\<lambda>c. (fst (shutdown_server L c), fst (snd (shutdown_server L c)))" for L
  by unfold_locales (simp_all add: shutdown_server_client rt_op.sends_one rt_op.keeps_session)

text \<open>The guard never panics, so neither do \<open>execute\<close> and \<open>query\<close>.\<close>

lemma execute_guard_returns: "execute_guard guard sql = Some (the (execute_guard guard sql))"
  by (simp add: execute_guard_def inspect_eq)

lemma execute_eq:
  "execute L sql c = Some (try_then (the (execute_guard (c_guard c) sql), c) (\<lambda>_ c.
     try_then (db L DC_ExecuteSQL [sql] c) (\<lambda>response c. (execute_response L response, c))))"
  unfolding execute_def by (subst execute_guard_returns) simp

interpretation execute_op: client_operation "\<lambda>c. the (execute L sql c)" for L sql
proof -
  have "client_operation (\<lambda>c. try_then (e, c) (\<lambda>_ c.
      try_then (db L DC_ExecuteSQL [sql] c) (\<lambda>response c. (execute_response L response, c))))" for e :: "error + unit"
    by (intro client_operation_after db_op.then_pure)
  then show "client_operation (\<lambda>c. the (execute L sql c))"
    unfolding execute_eq option.sel client_operation_def by blast
qed

interpretation query_op: client_operation "\<lambda>c. the (query L sql c)" for L sql
proof -
  have "the (query L sql c) = try_then (the (execute L sql c)) (\<lambda>out c. (into_rows out, c))" for c
    by (simp add: query_def execute_eq)
  then show "client_operation (\<lambda>c. the (query L sql c))"
    using execute_op.then_pure by (simp add: fun_eq_iff)
qed

subsection \<open>A request that is answered\<close>

text \<open>The command encodes to \<open>bytes\<close>, the stream takes it, and the next bytes from the server
  are a frame with the body of \<open>resp\<close>, and then \<open>rest\<close>.\<close>

definition served :: "libs \<Rightarrow> client \<Rightarrow> command_with_args \<Rightarrow> u8 list \<Rightarrow> u8 list \<Rightarrow> response \<Rightarrow> u8 list \<Rightarrow> bool" where
  "served L c cmd bytes body resp rest \<longleftrightarrow>
     to_vec L cmd = Inr bytes \<and> length bytes \<le> 1024 \<and> accepting (wr (c_stream c))
     \<and> body \<noteq> [] \<and> length body \<le> unat max_response_bytes \<and> from_slice L body = Inr resp
     \<and> avail (rx (c_stream c)) = server_frame body @ rest"

text \<open>A client that has sent \<open>bytes\<close> and read one frame, with \<open>rest\<close> to come; nothing else of it
  has changed.\<close>

definition exchanged :: "client \<Rightarrow> u8 list \<Rightarrow> u8 list \<Rightarrow> client \<Rightarrow> bool" where
  "exchanged c bytes rest c' \<longleftrightarrow>
     c_addr c' = c_addr c \<and> c_guard c' = c_guard c \<and> c_database c' = c_database c
     \<and> tx (c_stream c') = tx (c_stream c) @ bytes \<and> avail (rx (c_stream c')) = rest
     \<and> rx_end (rx (c_stream c')) = rx_end (rx (c_stream c))
     \<and> accepting (wr (c_stream c'))"

lemma exchangedD:
  assumes "exchanged c bytes rest c'"
  shows "c_addr c' = c_addr c" "c_guard c' = c_guard c" "c_database c' = c_database c"
    "tx (c_stream c') = tx (c_stream c) @ bytes" "avail (rx (c_stream c')) = rest"
    "rx_end (rx (c_stream c')) = rx_end (rx (c_stream c))" "accepting (wr (c_stream c'))"
  using assms by (simp_all add: exchanged_def)

lemma exchangedI:
  "avail evs = rest \<Longrightarrow> rx_end evs = rx_end (rx (c_stream c)) \<Longrightarrow> accepting ws \<Longrightarrow>
   exchanged c bytes rest
     (c\<lparr>c_stream := (c_stream c)\<lparr>tx := tx (c_stream c) @ bytes, wr := ws, rx := evs\<rparr>\<rparr>)"
  by (simp add: exchanged_def)

lemma round_trip_served:
  assumes "served L c cmd bytes body resp rest"
  shows "\<exists>c'. round_trip L cmd c = (Inr resp, c') \<and> exchanged c bytes rest c'"
proof -
  obtain ws where w: "write_request L cmd (c_stream c) =
      (Inr (), (c_stream c)\<lparr>tx := tx (c_stream c) @ bytes, wr := ws\<rparr>)" "accepting ws"
    using write_request_accepting [of L cmd bytes "c_stream c"] assms by (auto simp: served_def)
  let ?s = "(c_stream c)\<lparr>tx := tx (c_stream c) @ bytes, wr := ws\<rparr>"
  obtain evs where "read_response L ?s = (Inr resp, ?s\<lparr>rx := evs\<rparr>)" "avail evs = rest"
    "rx_end evs = rx_end (rx (c_stream c))"
    using read_framed [of body ?s rest L] assms by (auto simp: served_def map_err_def)
  with w exchangedI [of evs rest c ws bytes] show ?thesis by (auto simp: round_trip_def)
qed

lemma round_trip_unsent:
  assumes "encode_request L cmd = Inl e"
  shows "round_trip L cmd c = (Inl e, c)"
  using assms write_request_spec [of L cmd "c_stream c"] by (simp add: round_trip_def)

lemma system_served:
  assumes "served L c (cwa_system cmd args) bytes body resp rest"
  shows "\<exists>c'. system L cmd args c = (check resp, c') \<and> exchanged c bytes rest c'"
  using round_trip_served [OF assms] by (auto simp: system_def and_then_def)

lemma db_served:
  assumes "served L c (cwa_db cmd args) bytes body resp rest"
  shows "\<exists>c'. db L cmd args c = (check resp, c') \<and> exchanged c bytes rest c'"
  using round_trip_served [OF assms] by (auto simp: db_def and_then_def)

lemma execute_served:
  assumes "execute_guard (c_guard c) sql = Some (Inr ())"
    and "served L c (cwa_db DC_ExecuteSQL [sql]) bytes body resp rest"
  shows "\<exists>c'. execute L sql c = Some (and_then (check resp) (execute_response L), c')
    \<and> exchanged c bytes rest c'"
proof -
  obtain c' where "db L DC_ExecuteSQL [sql] c = (check resp, c')" "exchanged c bytes rest c'"
    using db_served [OF assms(2)] by blast
  with assms(1) show ?thesis
    by (cases "check resp") (auto simp: execute_def try_then_def and_then_def)
qed

subsection \<open>Lists and counts in prose\<close>

lemma concat_chars_trim: "trim s = concat (rev (dropWhile is_white (rev (dropWhile is_white (chars s)))))"
  by (metis chars_trim concat_chars)

lemma trim_space: "clean_start s \<Longrightarrow> trim (CHR '' '' # s) = trim s"
proof -
  assume "clean_start s"
  then have "chars ([CHR '' ''] @ s) = [CHR '' ''] # chars s"
    by (subst chars_append) simp_all
  moreover have "is_white [CHR '' '']" by (simp add: is_white_def white_space_def)
  ultimately show ?thesis by (simp add: concat_chars_trim)
qed

lemma split_on_join:
  "CHR '','' \<notin> set p \<Longrightarrow> (\<And>n. n \<in> set (x # xs) \<Longrightarrow> CHR '','' \<notin> set n) \<Longrightarrow>
   split_on CHR '','' (p @ join '', '' (x # xs)) = (p @ x) # map (\<lambda>n. CHR '' '' # n) xs"
proof (induction xs arbitrary: p x)
  case Nil
  then show ?case by (simp add: split_on_no_sep)
next
  case (Cons y ys)
  have "split_on CHR '','' (p @ join '', '' (x # y # ys)) =
      split_on CHR '','' ((p @ x) @ CHR '','' # ('' '' @ join '', '' (y # ys)))" by simp
  also have "\<dots> = (p @ x) # split_on CHR '','' ('' '' @ join '', '' (y # ys))"
    using Cons.prems by (intro split_on_append_sep) simp
  also have "split_on CHR '','' ('' '' @ join '', '' (y # ys)) = ('' '' @ y) # map (\<lambda>n. CHR '' '' # n) ys"
    using Cons.prems by (intro Cons.IH) simp_all
  finally show ?case by simp
qed

lemma split_white_nonempty [simp]: "split_white gs \<noteq> []"
  by (induction gs) (auto split: list.split)

lemma split_white_append:
  "is_white w \<Longrightarrow> split_white (gs @ w # hs) = split_white gs @ split_white hs"
  by (induction gs) (auto split: list.split)

lemma split_whitespace_space:
  assumes "clean_start b"
  shows "split_whitespace (a @ CHR '' '' # b) = split_whitespace a @ split_whitespace b"
proof -
  have "chars ([CHR '' ''] @ b) = [CHR '' ''] # chars b"
    using assms by (subst chars_append) simp_all
  moreover have "clean_start (CHR '' '' # b)" by (simp add: clean_start_def is_cont_def)
  ultimately have "chars (a @ CHR '' '' # b) = chars a @ [CHR '' ''] # chars b"
    using chars_append [of "CHR '' '' # b" a] by simp
  moreover have "is_white [CHR '' '']" by (simp add: is_white_def white_space_def)
  ultimately show ?thesis by (simp add: split_whitespace_def split_white_append)
qed

lemma split_white_solid: "(\<And>g. g \<in> set gs \<Longrightarrow> \<not> is_white g) \<Longrightarrow> split_white gs = [concat gs]"
  by (induction gs) auto

lemma split_whitespace_word:
  "w \<noteq> [] \<Longrightarrow> (\<And>g. g \<in> set (chars w) \<Longrightarrow> \<not> is_white g) \<Longrightarrow> split_whitespace w = [w]"
  by (simp add: split_whitespace_def split_white_solid)

lemma chars_ascii: "ascii s \<Longrightarrow> chars s = map (\<lambda>c. [c]) s"
proof (induction s)
  case (Cons c s)
  then have "chars ([c] @ s) = chars [c] @ chars s" by (intro chars_append clean_start_ascii) simp
  with Cons show ?case by simp
qed simp

lemma digits_not_white: "g \<in> set (chars (digits n)) \<Longrightarrow> \<not> is_white g"
proof -
  assume "g \<in> set (chars (digits n))"
  then obtain c where "g = [c]" "is_digit c"
    using digits_are_digits [of n] by (auto simp: chars_ascii list_all_iff)
  then show ?thesis by (auto simp: is_white_def white_space_def is_digit_def)
qed

lemma find_map_append: "find_map f (xs @ ys) = (case find_map f xs of None \<Rightarrow> find_map f ys | Some y \<Rightarrow> Some y)"
  by (induction xs) (auto split: option.split)

lemma parse_imported_digits:
  assumes "n < 2 ^ 64"
  shows "parse_imported (''Imported '' @ digits n @ '' rows into table '' @ table) = Inr n"
proof -
  let ?rest = "''rows into table '' @ table"
  have clean: "clean_start ?rest" "clean_start (digits n @ '' '' @ ?rest)"
    using clean_start_append [OF clean_start_ascii [OF ascii_digits [of n]], of "'' '' @ ?rest"]
    by (simp_all add: clean_start_def is_cont_def)
  have "split_whitespace (''Imported'' @ '' '' @ digits n @ '' '' @ ?rest) =
      split_whitespace ''Imported'' @ split_whitespace (digits n) @ split_whitespace ?rest"
    using split_whitespace_space [OF clean(2), of "''Imported''"]
      split_whitespace_space [OF clean(1), of "digits n"] by simp
  moreover have "split_whitespace (digits n) = [digits n]"
    by (rule split_whitespace_word) (simp_all add: digits_not_white)
  moreover have "find_map parse_usize (split_whitespace ''Imported'') = None" by code_simp
  ultimately show ?thesis using parse_usize_digits [OF assms]
    by (simp add: parse_imported_def find_map_append ok_or_def)
qed

subsection \<open>A scripted server\<close>

text \<open>
  The fake server of the tests: it answers one response per request, in order, and hangs up. A
  client that waits for each answer sees its frames one by one and then the end of the stream.
\<close>

definition spawn :: "response list \<Rightarrow> tcp_stream" where
  "spawn responses =
     \<lparr>rx = map (\<lambda>r. Chunk (server_frame (cbor_encode (ser_response r)))) responses, tx = [],
      wr = [], nodelay = False, read_timeout = None, write_timeout = None\<rparr>"

definition fake_net :: "response list \<Rightarrow> net" where
  "fake_net responses =
     \<lparr>to_socket_addrs = (\<lambda>a. Inr [a]), tcp_connect = (\<lambda>_. Inr (spawn responses)),
      tcp_connect_within = (\<lambda>_ _. Inr (spawn responses)), nodelay_error = (\<lambda>_. None)\<rparr>"

definition fake_client :: "response list \<Rightarrow> client" where
  "fake_client responses =
     \<lparr>c_stream = spawn responses, c_addr = ''127.0.0.1:3333'', c_database = None, c_guard = True\<rparr>"

lemma avail_spawn [simp]:
  "avail (rx (spawn (r # rs))) = server_frame (cbor_encode (ser_response r)) @ avail (rx (spawn rs))"
  by (simp add: spawn_def)

lemma spawn_simps [simp]: "wr (spawn rs) = []" "tx (spawn rs) = []"
  by (simp_all add: spawn_def)

lemma fake_client_simps [simp]:
  "c_stream (fake_client rs) = spawn rs" "c_guard (fake_client rs)" "c_database (fake_client rs) = None"
  by (simp_all add: fake_client_def)

lemma reference_to_vec [simp]: "to_vec reference_libs c = Inr (cbor_encode (ser_command_with_args c))"
  by (simp add: reference_libs_def)

lemma small_system_command:
  "length (cbor_encode (ser_command_with_args (cwa_system cmd []))) \<le> 1024"
  by (cases cmd) (simp_all add: ser_command_with_args_def ser_list_def enc_text_def length_enc_head)

lemma served_by_fake:
  assumes "cbor_ok (ser_response r)" "forget_value_ids r = r"
    and "length (cbor_encode (ser_response r)) \<le> unat max_response_bytes"
    and "length (cbor_encode (ser_command_with_args cmd)) \<le> 1024"
  shows "served reference_libs (fake_client (r # rs)) cmd (cbor_encode (ser_command_with_args cmd))
    (cbor_encode (ser_response r)) r (avail (rx (spawn rs)))"
  using assms ref.decodes [of r] by (simp add: served_def)

subsection \<open>Properties\<close>

text \<open>A response passes the check unchanged or becomes an error, and exactly four kinds of
  response are errors; among the system errors the one that says no database is selected is told
  apart by its text.\<close>

lemma check_classifies:
  "check response =
     (case response of
        R_SystemErr m \<Rightarrow>
          Inl (if \<exists>a b. m = a @ ''Not connected to a database'' @ b then NotConnected else Server m)
      | R_QueryExecutionError m \<Rightarrow> Inl (Query m)
      | R_QuietErr \<Rightarrow> Inl (Server ''server reported an error'')
      | R_Shutdown b \<Rightarrow> if b then Inr (R_Shutdown True) else Inl ServerShutdown
      | r \<Rightarrow> Inr r)"
  by (cases response) (simp_all add: check_def str_contains_iff)

text \<open>A statement that is refused, by the guard, for being blank or because its request does
  not encode within the limit, changes nothing: no byte is written or read and the client is the
  same.\<close>

lemma refused_statement_sends_nothing:
  assumes "execute_guard (c_guard c) sql = Some (Inl e)
    \<or> execute_guard (c_guard c) sql = Some (Inr ()) \<and> encode_request L (cwa_db DC_ExecuteSQL [sql]) = Inl e"
  shows "execute L sql c = Some (Inl e, c)"
  using assms
proof
  assume "execute_guard (c_guard c) sql = Some (Inl e)"
  then show ?thesis by (simp add: execute_def try_then_def)
next
  assume "execute_guard (c_guard c) sql = Some (Inr ()) \<and> encode_request L (cwa_db DC_ExecuteSQL [sql]) = Inl e"
  then show ?thesis
    by (simp add: execute_def try_then_def db_eq round_trip_unsent and_then_def)
qed

theorem refused_statement_sends_nothing_witness:
  "execute reference_libs ''DELETE FROM users'' (fake_client []) =
     Some (Inl (Unsupported ''DELETE statements''), fake_client [])"
proof -
  have "inspect ''DELETE FROM users'' = Some (Inl (Unsupported ''DELETE statements''))" by code_simp
  then show ?thesis
    by (intro refused_statement_sends_nothing disjI1) (simp add: execute_guard_def map_ok_def)
qed

text \<open>C1: a guarded query whose request is within the limit and whose result set the server returns
  yields exactly the rows of that result set, however the writes and the answer are cut; one
  request has been written, its encoding, and the stream stands behind the response.\<close>

theorem query_end_to_end:
  assumes "c_guard c" and "inspect sql = Some (Inr k)"
    and "encode_request L (cwa_db DC_ExecuteSQL [sql]) = Inr bytes"
    and "accepting (wr (c_stream c))"
    and "body \<noteq> []" and "length body \<le> unat max_response_bytes"
    and "from_slice L body = Inr (R_QueryResult (QR_Select s ts pg))"
    and "avail (rx (c_stream c)) = server_frame body @ rest"
  shows "\<exists>c'. query L sql c = Some (Inr (rows_new s (map field_vals ts) pg), c')
    \<and> tx (c_stream c') = tx (c_stream c) @ bytes
    \<and> avail (rx (c_stream c')) = rest \<and> c_database c' = c_database c"
proof -
  have "served L c (cwa_db DC_ExecuteSQL [sql]) bytes body (R_QueryResult (QR_Select s ts pg)) rest"
    using assms(3-8) by (auto simp: served_def encode_request_def max_request_bytes_def split: if_splits)
  moreover have "execute_guard (c_guard c) sql = Some (Inr ())"
    using assms(1,2) by (simp add: execute_guard_def map_ok_def)
  ultimately obtain c' where e: "execute L sql c =
      Some (and_then (check (R_QueryResult (QR_Select s ts pg))) (execute_response L), c')"
    and c': "exchanged c bytes rest c'"
    using execute_served by blast
  from e have "query L sql c = Some (Inr (rows_new s (map field_vals ts) pg), c')"
    by (simp add: query_def try_then_def into_rows_def check_def and_then_def
        execute_response_def into_outcome_def)
  with exchangedD [OF c'] show ?thesis by blast
qed

theorem query_end_to_end_witness:
  "\<exists>c' bytes. query reference_libs ''SELECT 1''
       ((fake_client [])\<lparr>c_stream := (spawn [R_QueryResult (QR_Select \<lparr>attributes = []\<rparr>
          [\<lparr>tid = 0, value_id = None, field_vals = [VBool True]\<rparr>] None)])\<lparr>wr := [Accept 3, Accept 7]\<rparr>\<rparr>) =
     Some (Inr (rows_new \<lparr>attributes = []\<rparr> [[VBool True]] None), c')
    \<and> tx (c_stream c') = bytes \<and> bytes \<noteq> [] \<and> avail (rx (c_stream c')) = []"
proof -
  let ?ts = "[\<lparr>tid = 0, value_id = None, field_vals = [VBool True]\<rparr>]"
  let ?r = "R_QueryResult (QR_Select \<lparr>attributes = []\<rparr> ?ts None)"
  let ?c = "(fake_client [])\<lparr>c_stream := (spawn [?r])\<lparr>wr := [Accept 3, Accept 7]\<rparr>\<rparr>"
  let ?b = "cbor_encode (ser_command_with_args (cwa_db DC_ExecuteSQL [''SELECT 1'']))"
  have ok: "cbor_ok (ser_response ?r)"
    and n: "length (cbor_encode (ser_response ?r)) \<le> unat max_response_bytes"
    by (simp_all add: ser_schema_def ser_list_def ser_option_def ser_row_tuple_def enc_text_def
        length_enc_head max_response_bytes_def ser_uint_def)
  have i: "inspect ''SELECT 1'' = Some (Inr SK_Query)" by code_simp
  have b: "?b \<noteq> []" by (simp add: ser_command_with_args_def)
  have e: "encode_request reference_libs (cwa_db DC_ExecuteSQL [''SELECT 1'']) = Inr ?b"
    using execute_request_fits [of "''SELECT 1''"]
    by (simp add: encode_request_def and_then_def map_err_def max_request_bytes_def del: cbor_encode.simps)
  have d: "from_slice reference_libs (cbor_encode (ser_response ?r)) = Inr ?r"
    using ref.decodes [OF ok] by (simp add: forget_value_id_def)
  have "avail (rx (c_stream ?c)) = server_frame (cbor_encode (ser_response ?r)) @ []"
    by (simp add: spawn_def del: cbor_encode.simps ser_response.simps)
  from query_end_to_end [OF _ i e _ ref.not_empty n d this] b show ?thesis by auto
qed

text \<open>Selecting a database refuses a blank name without sending anything; otherwise it sends
  the trimmed name, and when the server answers it records that name exactly when the answer is
  not an error.\<close>

lemma use_database_selects:
  "(trim name = [] \<longrightarrow>
      use_database L name c = (Inl (InvalidArgument ''database name is empty''), c))
   \<and> (trim name \<noteq> [] \<and> served L c (cwa_system SC_Connect [trim name]) bytes body resp rest \<longrightarrow>
      (\<exists>c'. exchanged c bytes rest c' \<and> use_database L name c =
         (case check resp of
            Inl e \<Rightarrow> (Inl e, c')
          | Inr _ \<Rightarrow> (Inr (), c'\<lparr>c_database := Some (trim name)\<rparr>))))"
proof (intro conjI impI)
  assume "trim name = []"
  then show "use_database L name c = (Inl (InvalidArgument ''database name is empty''), c)"
    by (simp add: use_database_def try_then_def require_name_def)
next
  assume a: "trim name \<noteq> [] \<and> served L c (cwa_system SC_Connect [trim name]) bytes body resp rest"
  then obtain c' where "system L SC_Connect [trim name] c = (check resp, c')" "exchanged c bytes rest c'"
    using system_served by blast
  with a show "\<exists>c'. exchanged c bytes rest c' \<and> use_database L name c =
      (case check resp of
         Inl e \<Rightarrow> (Inl e, c')
       | Inr _ \<Rightarrow> (Inr (), c'\<lparr>c_database := Some (trim name)\<rparr>))"
    by (intro exI [of _ c'])
      (simp add: use_database_def try_then_def require_name_def Let_def split: sum.split)
qed

theorem use_database_selects_witness:
  "\<exists>c'. use_database reference_libs '' mydb '' (fake_client [R_SystemMsg ''ok'']) = (Inr (), c')
     \<and> c_database c' = Some ''mydb''"
proof -
  have t: "trim '' mydb '' = ''mydb''" by code_simp
  have "served reference_libs (fake_client [R_SystemMsg ''ok'']) (cwa_system SC_Connect [''mydb''])
      (cbor_encode (ser_command_with_args (cwa_system SC_Connect [''mydb''])))
      (cbor_encode (ser_response (R_SystemMsg ''ok''))) (R_SystemMsg ''ok'') (avail (rx (spawn [])))"
    by (rule served_by_fake)
      (simp_all add: enc_text_def length_enc_head max_response_bytes_def ser_command_with_args_def ser_list_def)
  with use_database_selects [of "'' mydb ''" reference_libs "fake_client [R_SystemMsg ''ok'']"] t
  show ?thesis by (fastforce simp: check_def)
qed

text \<open>The names the server lists in its prose are read back, whatever their number, when
  they hold no comma and no white space at their ends.\<close>

lemma parse_list_reads_back:
  assumes "\<And>n. n \<in> set ns \<Longrightarrow> n \<noteq> [] \<and> trim n = n \<and> clean_start n \<and> CHR '','' \<notin> set n"
  shows "parse_list (prefix @ '' '' @ join '', '' ns) prefix = ns"
proof (cases ns)
  case Nil
  have "trim '' '' = []" using trim_space [of "[]"] by (simp add: clean_start_def concat_chars_trim)
  then show ?thesis using Nil by (simp add: parse_list_def)
next
  case (Cons x xs)
  have "split_on CHR '','' ('' '' @ join '', '' (x # xs)) = map (\<lambda>n. CHR '' '' # n) (x # xs)"
    using assms Cons split_on_join [of "'' ''" x xs] by auto
  moreover have "map (\<lambda>n. trim (CHR '' '' # n)) ns = ns"
    using assms by (intro map_idI) (simp add: trim_space)
  ultimately have "map trim (split_on CHR '','' ('' '' @ join '', '' ns)) = ns"
    using Cons by (simp add: comp_def)
  then show ?thesis using assms by (simp add: parse_list_def filter_id_conv)
qed

theorem parse_list_reads_back_witness:
  "parse_list (''Databases:'' @ '' '' @ join '', '' [''a'', ''b'', ''c'']) ''Databases:'' = [''a'', ''b'', ''c'']"
proof -
  have "n \<noteq> [] \<and> trim n = n \<and> clean_start n \<and> CHR '','' \<notin> set n" if "n \<in> {''a'', ''b'', ''c''}" for n
  proof -
    have "trim ''a'' = ''a''" "trim ''b'' = ''b''" "trim ''c'' = ''c''" by code_simp+
    with that show ?thesis by (auto simp: clean_start_ascii)
  qed
  then show ?thesis by (intro parse_list_reads_back) auto
qed

text \<open>The number of imported rows is read back from the server's message, for every count a
  \<open>usize\<close> holds and whatever the table is called.\<close>

lemma parse_imported_reads_back:
  assumes "n < 2 ^ 64"
  shows "parse_imported (''Imported '' @ digits n @ '' rows into table '' @ table) = Inr n"
  using assms by (rule parse_imported_digits)

theorem parse_imported_reads_back_witness:
  "parse_imported (''Imported '' @ digits 42 @ '' rows into table '' @ ''users'') = Inr 42"
  by (rule parse_imported_reads_back) simp

text \<open>C25: a read that times out leaves the connection usable, and out of step: when the answer
  arrives after all, the next request, whatever it is, returns the answer to the one that timed
  out.\<close>

theorem timed_out_answer_is_read_next:
  assumes "rx (c_stream c) = RdErr e # evs" and "io_kind e = TimedOut \<or> io_kind e = WouldBlock"
    and "accepting (wr (c_stream c))"
    and "to_vec L cmd1 = Inr bytes1" "length bytes1 \<le> 1024"
    and "to_vec L cmd2 = Inr bytes2" "length bytes2 \<le> 1024"
    and "body \<noteq> []" "length body \<le> unat max_response_bytes"
    and "from_slice L body = Inr answer1" and "avail evs = server_frame body @ rest"
  shows "\<exists>c' c''. round_trip L cmd1 c = (Inl (Io e), c') \<and> round_trip L cmd2 c' = (Inr answer1, c'')"
proof -
  obtain ws where w: "write_request L cmd1 (c_stream c) =
      (Inr (), (c_stream c)\<lparr>tx := tx (c_stream c) @ bytes1, wr := ws\<rparr>)" "accepting ws"
    using write_request_accepting [of L cmd1 bytes1 "c_stream c"] assms by auto
  let ?s = "(c_stream c)\<lparr>tx := tx (c_stream c) @ bytes1, wr := ws\<rparr>"
  have "read_exact 8 ?s = (Inl e, ?s\<lparr>rx := evs\<rparr>)"
    using assms(1,2) by (subst read_exact.simps) (auto simp: tcp_read_def)
  moreover have "from_io e = Io e" using assms(2) by (auto simp: from_io_eq)
  ultimately have "round_trip L cmd1 c = (Inl (Io e), c\<lparr>c_stream := ?s\<lparr>rx := evs\<rparr>\<rparr>)"
    using w by (simp add: round_trip_def read_response_def)
  moreover have "served L (c\<lparr>c_stream := ?s\<lparr>rx := evs\<rparr>\<rparr>) cmd2 bytes2 body answer1 rest"
    using assms w by (simp add: served_def)
  ultimately show ?thesis using round_trip_served by blast
qed

theorem timed_out_answer_is_read_next_witness:
  "\<exists>c' c''. round_trip reference_libs (cwa_system SC_ShowDatabases [])
       \<lparr>c_stream = (spawn [R_SystemMsg ''Databases: a''])\<lparr>rx := RdErr \<lparr>io_kind = TimedOut, io_message = []\<rparr>
          # rx (spawn [R_SystemMsg ''Databases: a''])\<rparr>, c_addr = [], c_database = None, c_guard = True\<rparr>
     = (Inl (Io \<lparr>io_kind = TimedOut, io_message = []\<rparr>), c')
     \<and> round_trip reference_libs (cwa_system SC_Help []) c' = (Inr (R_SystemMsg ''Databases: a''), c'')"
proof -
  let ?r = "R_SystemMsg ''Databases: a''"
  have "cbor_ok (ser_response ?r)" by simp
  then have d: "from_slice reference_libs (cbor_encode (ser_response ?r)) = Inr ?r"
    using ref.decodes [of ?r] by simp
  have n: "length (cbor_encode (ser_response ?r)) \<le> unat max_response_bytes"
    by (simp add: enc_text_def length_enc_head max_response_bytes_def)
  show ?thesis
    by (rule timed_out_answer_is_read_next [OF _ _ _ _ small_system_command _ small_system_command _ n d,
        where rest = "[]" and evs = "rx (spawn [?r])"])
      (simp_all add: spawn_def [of "[]"] del: cbor_encode.simps ser_response.simps)
qed

text \<open>Shutting the server down wakes it with exactly one connection to its address when the
  server acknowledges, and with none on any error.\<close>

lemma shutdown_wakes_server:
  "snd (snd (shutdown_server L c)) = (if is_ok (fst (shutdown_server L c)) then [c_addr c] else [])"
proof -
  obtain r c' where rt: "round_trip L (cwa_system SC_Shutdown []) c = (r, c')" by fastforce
  then have "c_addr c' = c_addr c"
    using rt_op.sends_one [of c L "cwa_system SC_Shutdown []"] by (simp add: one_request_def)
  with rt show ?thesis
    by (cases r) (auto simp: shutdown_server_def split: response.split)
qed

text \<open>A reset forgets the selected database exactly when the server accepts it; on an error
  the client still takes the database to be selected.\<close>

lemma reset_server_database:
  "c_database (snd (reset_server L c)) =
     (if is_ok (fst (reset_server L c)) then None else c_database c)"
proof -
  obtain s where s: "snd (round_trip L (cwa_system SC_Reset []) c) = c\<lparr>c_stream := s\<rparr>"
    using round_trip_stream by blast
  obtain r where r: "and_then (fst (round_trip L (cwa_system SC_Reset []) c)) check = r" by blast
  show ?thesis by (cases r) (simp_all add: reset_server_def try_then_def system_eq s r)
qed

lemma builder_connect_eq:
  "builder_connect L N b addr =
     and_then (resolve N addr) (\<lambda>a.
     and_then (map_err from_io
       (case b_connect_timeout b of
          None \<Rightarrow> tcp_connect N a
        | Some t \<Rightarrow> if t = 0 then Inl zero_timeout else tcp_connect_within N a t)) (\<lambda>s.
       case nodelay_error N a of
         Some e \<Rightarrow> Inl (from_io e)
       | None \<Rightarrow>
       if b_read_timeout b = Some 0 \<or> b_write_timeout b = Some 0 then Inl (Io zero_timeout)
       else
         let c = \<lparr>c_stream = s\<lparr>nodelay := True, read_timeout := b_read_timeout b,
                    write_timeout := b_write_timeout b\<rparr>,
                  c_addr = a, c_database = None, c_guard = b_statement_guard b \<noteq> Some False\<rparr> in
         case b_database b of
           None \<Rightarrow> Inr c
         | Some d \<Rightarrow> map_ok (\<lambda>_. snd (use_database L d c)) (fst (use_database L d c))))"
  by (auto simp: builder_connect_def and_then_def map_err_def map_ok_def tcp_connect_timeout_def
      tcp_set_nodelay_def tcp_set_read_timeout_def tcp_set_write_timeout_def from_io_def
      zero_timeout_def Let_def split: sum.splits option.splits prod.splits if_splits)

text \<open>C33: a client that connects is configured as the builder says: the first address the name
  resolves to, no delay, the timeouts, the guard on unless it was turned off, and, when a
  database was asked for, that database selected by its trimmed name.\<close>

theorem builder_connect_configures:
  assumes "builder_connect L N b addr = Inr c"
  shows "(\<exists>as. to_socket_addrs N addr = Inr (c_addr c # as))
    \<and> nodelay (c_stream c) \<and> nodelay_error N (c_addr c) = None
    \<and> c_guard c = (b_statement_guard b \<noteq> Some False)
    \<and> read_timeout (c_stream c) = b_read_timeout b \<and> b_read_timeout b \<noteq> Some 0
    \<and> write_timeout (c_stream c) = b_write_timeout b \<and> b_write_timeout b \<noteq> Some 0
    \<and> b_connect_timeout b \<noteq> Some 0
    \<and> c_database c = map_option trim (b_database b)
    \<and> session_ok c"
proof -
  from assms obtain a s where a: "resolve N addr = Inr a" and o: "nodelay_error N a = None"
    and t: "b_connect_timeout b \<noteq> Some 0" "b_read_timeout b \<noteq> Some 0" "b_write_timeout b \<noteq> Some 0"
    and c: "(let c0 = \<lparr>c_stream = s\<lparr>nodelay := True, read_timeout := b_read_timeout b,
                    write_timeout := b_write_timeout b\<rparr>,
                  c_addr = a, c_database = None, c_guard = b_statement_guard b \<noteq> Some False\<rparr> in
         case b_database b of
           None \<Rightarrow> Inr c0
         | Some d \<Rightarrow> map_ok (\<lambda>_. snd (use_database L d c0)) (fst (use_database L d c0))) = Inr c"
    unfolding builder_connect_eq by (auto split: if_splits option.splits)
  define c0 where "c0 = \<lparr>c_stream = s\<lparr>nodelay := True, read_timeout := b_read_timeout b,
      write_timeout := b_write_timeout b\<rparr>, c_addr = a, c_database = None,
      c_guard = b_statement_guard b \<noteq> Some False\<rparr>"
  have r: "\<exists>as. to_socket_addrs N addr = Inr (a # as)"
    using a by (cases "to_socket_addrs N addr")
      (auto simp: resolve_def and_then_def map_err_def ok_or_def split: list.splits)
  have "one_request c0 c \<and> session_ok c \<and> c_database c = map_option trim (b_database b)"
  proof (cases "b_database b")
    case None
    then have "c = c0" using c by (simp add: c0_def)
    then show ?thesis using None by (simp add: session_ok_def) (simp add: c0_def)
  next
    case (Some d)
    with c have u: "use_database L d c0 = (Inr (), c)"
      by (cases "use_database L d c0") (auto simp: c0_def [symmetric] Let_def)
    then have "c_database c = Some (trim d)"
      by (auto simp: use_database_def try_then_def require_name_def Let_def
          split: if_splits prod.splits sum.splits)
    moreover have "one_request c0 c"
      using use_database_op.sends_one [of c0 L d] u by simp
    moreover have "session_ok c"
      using use_database_op.keeps_session [of c0 L d] u by (simp add: c0_def session_ok_def)
    ultimately show ?thesis using Some by simp
  qed
  with r t o show ?thesis by (simp add: one_request_def c0_def)
qed

theorem builder_connect_configures_witness:
  "\<exists>c. builder_connect reference_libs (fake_net []) (with_read_timeout 5 default_builder) ''h'' = Inr c
     \<and> c_addr c = ''h'' \<and> c_guard c \<and> read_timeout (c_stream c) = Some 5"
proof -
  have "\<exists>c. builder_connect reference_libs (fake_net []) (with_read_timeout 5 default_builder) ''h'' = Inr c"
    by (simp add: builder_connect_eq resolve_def fake_net_def with_read_timeout_def default_builder_def
        and_then_def map_err_def ok_or_def Let_def)
  then show ?thesis
    using builder_connect_configures [of reference_libs "fake_net []" "with_read_timeout 5 default_builder" "''h''"]
    by (auto simp: fake_net_def with_read_timeout_def default_builder_def)
qed

end
