(* ===== verification/Session.thy ===== *)
theory Session
  imports Client
begin

section \<open>Sessions\<close>

text \<open>
  A session is the calls of one client in order, with the network acting between them: it
  delivers more bytes or an error, and decides how the coming writes go. The relation
  \<open>session\<close> records the calls made. What holds of every reachable client follows by rule
  induction from the contract each operation keeps.
\<close>

datatype call = Create_Database string | Use_Database string | Databases | Tables
  | Execute string | Query string | Import_Csv string string | Commit | Help | Reset_Server
  | Set_Guard bool | Set_Read_Timeout "duration option" | Set_Write_Timeout "duration option"

text \<open>The client after a call, whatever the call returns.\<close>

fun perform :: "libs \<Rightarrow> call \<Rightarrow> client \<Rightarrow> client" where
  "perform L (Create_Database name) c = snd (create_database L name c)"
| "perform L (Use_Database name) c = snd (use_database L name c)"
| "perform L Databases c = snd (databases L c)"
| "perform L Tables c = snd (tables L c)"
| "perform L (Execute sql) c = snd (the (execute L sql c))"
| "perform L (Query sql) c = snd (the (query L sql c))"
| "perform L (Import_Csv path table) c = snd (import_csv L path table c)"
| "perform L Commit c = snd (commit L c)"
| "perform L Help c = snd (client_help L c)"
| "perform L Reset_Server c = snd (reset_server L c)"
| "perform L (Set_Guard enabled) c = set_statement_guard enabled c"
| "perform L (Set_Read_Timeout t) c = snd (set_read_timeout t c)"
| "perform L (Set_Write_Timeout t) c = snd (set_write_timeout t c)"

inductive session :: "libs \<Rightarrow> client \<Rightarrow> call list \<Rightarrow> client \<Rightarrow> bool" for L c0 where
  start: "session L c0 [] c0"
| call: "session L c0 qs c \<Longrightarrow> session L c0 (qs @ [q]) (perform L q c)"
| deliver: "session L c0 qs c \<Longrightarrow>
    session L c0 qs (c\<lparr>c_stream := (c_stream c)\<lparr>rx := rx (c_stream c) @ evs\<rparr>\<rparr>)"
| accept: "session L c0 qs c \<Longrightarrow> session L c0 qs (c\<lparr>c_stream := (c_stream c)\<lparr>wr := evs\<rparr>\<rparr>)"

inductive_cases session_NilE: "session L c0 [] c"

subsection \<open>What a call sends\<close>

text \<open>A command the client may send: a statement only if its guard lets it through.\<close>

definition permitted :: "bool \<Rightarrow> command_with_args \<Rightarrow> bool" where
  "permitted guard cmd \<longleftrightarrow>
     (cwa_command cmd = DB DC_ExecuteSQL \<longrightarrow>
        (\<exists>sql. cwa_args cmd = [sql] \<and> execute_guard guard sql = Some (Inr ())))"

text \<open>At most one request goes out: a prefix of the encoding of a command with \<open>P\<close>.\<close>

definition request_of :: "libs \<Rightarrow> (command_with_args \<Rightarrow> bool) \<Rightarrow> u8 list \<Rightarrow> bool" where
  "request_of L P r \<longleftrightarrow>
     r = [] \<or> (\<exists>cmd bytes k. P cmd \<and> to_vec L cmd = Inr bytes \<and> length bytes \<le> 1024 \<and> r = take k bytes)"

definition sends :: "libs \<Rightarrow> (command_with_args \<Rightarrow> bool) \<Rightarrow> client \<Rightarrow> client \<Rightarrow> bool" where
  "sends L P c c' \<longleftrightarrow> (\<exists>r. tx (c_stream c') = tx (c_stream c) @ r \<and> request_of L P r)"

lemma sends_same: "tx (c_stream c') = tx (c_stream c) \<Longrightarrow> sends L P c c'"
  by (simp add: sends_def request_of_def)

lemma sends_round_trip:
  assumes "P cmd"
  shows "sends L P c (snd (round_trip L cmd c))"
proof (cases "encode_request L cmd")
  case (Inl e)
  then show ?thesis by (simp add: round_trip_unsent sends_same)
next
  case (Inr bytes)
  with write_request_spec [of L cmd "c_stream c"] obtain k evs r where
    b: "to_vec L cmd = Inr bytes" "length bytes \<le> 1024" and w: "write_request L cmd (c_stream c) =
      (r, (c_stream c)\<lparr>tx := tx (c_stream c) @ take k bytes, wr := evs\<rparr>)" by auto
  obtain rs q where "read_response L ((c_stream c)\<lparr>tx := tx (c_stream c) @ take k bytes, wr := evs\<rparr>) =
      (q, (c_stream c)\<lparr>tx := tx (c_stream c) @ take k bytes, wr := evs, rx := rs\<rparr>)"
    using read_response_eq by blast
  with w have "tx (c_stream (snd (round_trip L cmd c))) = tx (c_stream c) @ take k bytes"
    by (cases r) (simp_all add: round_trip_def)
  with b assms show ?thesis by (auto simp: sends_def request_of_def)
qed

lemma sends_system: "P (cwa_system cmd args) \<Longrightarrow> sends L P c (snd (system L cmd args c))"
  by (simp add: system_eq sends_round_trip)

lemma sends_db: "P (cwa_db cmd args) \<Longrightarrow> sends L P c (snd (db L cmd args c))"
  by (simp add: db_eq sends_round_trip)

lemma sends_then_pure:
  "sends L P c (snd p) \<Longrightarrow> (\<And>x c'. tx (c_stream (g x c')) = tx (c_stream c')) \<Longrightarrow>
   sends L P c (snd (try_then p (\<lambda>x c. (f x, g x c))))"
  by (cases p; cases "fst p") (auto simp: try_then_def sends_def)

lemma sends_after:
  "(\<And>x. e = Inr x \<Longrightarrow> sends L P c (snd (f x c))) \<Longrightarrow> sends L P c (snd (try_then (e, c) f))"
  by (cases e) (simp_all add: try_then_def sends_same)

lemma permitted_simps [simp]:
  "permitted g (cwa_system sc args)" "cmd \<noteq> DC_ExecuteSQL \<Longrightarrow> permitted g (cwa_db cmd args)"
  "permitted g (cwa_db DC_ExecuteSQL [sql]) \<longleftrightarrow> execute_guard g sql = Some (Inr ())"
  by (simp_all add: permitted_def)

lemma sends_execute: "sends L (permitted (c_guard c)) c (snd (the (execute L sql c)))"
  unfolding execute_eq option.sel
proof (rule sends_after)
  fix x assume "the (execute_guard (c_guard c) sql) = Inr x"
  then have "execute_guard (c_guard c) sql = Some (Inr ())"
    using execute_guard_returns [of "c_guard c" sql] by simp
  then show "sends L (permitted (c_guard c)) c
      (snd (try_then (db L DC_ExecuteSQL [sql] c) (\<lambda>response c. (execute_response L response, c))))"
    by (intro sends_then_pure sends_db) simp_all
qed

lemma sends_query: "sends L (permitted (c_guard c)) c (snd (the (query L sql c)))"
proof -
  have "the (query L sql c) = try_then (the (execute L sql c)) (\<lambda>out c. (into_rows out, c))"
    by (simp add: query_def execute_eq)
  then show ?thesis using sends_execute by (simp add: sends_then_pure)
qed

lemma perform_sends: "sends L (permitted (c_guard c)) c (perform L q c)"
proof (cases q)
  case (Create_Database name)
  then show ?thesis
    by (auto simp: create_database_def intro!: sends_after sends_then_pure sends_system)
next
  case (Use_Database name)
  then show ?thesis
    by (auto simp: use_database_def intro!: sends_after sends_then_pure sends_system)
next
  case Databases
  then show ?thesis
    by (auto simp: databases_def try_then_pure intro!: sends_then_pure sends_system)
next
  case Tables
  then show ?thesis by (auto simp: tables_def try_then_pure intro!: sends_then_pure sends_db)
next
  case (Import_Csv path table)
  then show ?thesis
    by (auto simp: import_csv_def try_then_pure intro!: sends_after sends_then_pure sends_db)
next
  case Commit
  then show ?thesis by (auto simp: commit_def intro!: sends_then_pure sends_db)
next
  case Help
  then show ?thesis by (auto simp: client_help_def intro!: sends_then_pure sends_system)
next
  case Reset_Server
  then show ?thesis by (auto simp: reset_server_def intro!: sends_then_pure sends_system)
qed (simp_all add: sends_execute sends_query sends_same set_statement_guard_def
    set_read_timeout_def tcp_set_read_timeout_def set_write_timeout_def tcp_set_write_timeout_def)

subsection \<open>What a call keeps\<close>

context client_operation
begin

lemma keeps:
  "c_addr (snd (oper c)) = c_addr c \<and> nodelay (c_stream (snd (oper c))) = nodelay (c_stream c)
   \<and> c_guard (snd (oper c)) = c_guard c \<and> (session_ok c \<longrightarrow> session_ok (snd (oper c)))
   \<and> read_timeout (c_stream (snd (oper c))) = read_timeout (c_stream c)
   \<and> write_timeout (c_stream (snd (oper c))) = write_timeout (c_stream c)"
  using sends_one [of c] keeps_session [of c] by (simp add: one_request_def)

end

lemmas operations_keep =
  create_database_op.keeps use_database_op.keeps databases_op.keeps tables_op.keeps
  execute_op.keeps query_op.keeps import_csv_op.keeps commit_op.keeps help_op.keeps
  reset_server_op.keeps

lemma setters_keep:
  "session_ok (set_statement_guard g c) = session_ok c"
  "session_ok (snd (set_read_timeout t c)) = session_ok c"
  "session_ok (snd (set_write_timeout t c)) = session_ok c"
  by (simp_all add: set_statement_guard_def session_ok_def set_read_timeout_def
      tcp_set_read_timeout_def set_write_timeout_def tcp_set_write_timeout_def)

text \<open>The settings after a call: each is what the last call that sets it has asked for, but for a
  timeout of zero, which is refused.\<close>

definition guard_after :: "bool \<Rightarrow> call \<Rightarrow> bool" where
  "guard_after g q = (case q of Set_Guard g' \<Rightarrow> g' | _ \<Rightarrow> g)"

definition read_timeout_after :: "duration option \<Rightarrow> call \<Rightarrow> duration option" where
  "read_timeout_after t q = (case q of Set_Read_Timeout t' \<Rightarrow> if t' = Some 0 then t else t' | _ \<Rightarrow> t)"

definition write_timeout_after :: "duration option \<Rightarrow> call \<Rightarrow> duration option" where
  "write_timeout_after t q = (case q of Set_Write_Timeout t' \<Rightarrow> if t' = Some 0 then t else t' | _ \<Rightarrow> t)"

lemmas settings_after_defs = guard_after_def read_timeout_after_def write_timeout_after_def

lemma perform_keeps:
  "c_addr (perform L q c) = c_addr c \<and> nodelay (c_stream (perform L q c)) = nodelay (c_stream c)
   \<and> c_guard (perform L q c) = guard_after (c_guard c) q
   \<and> read_timeout (c_stream (perform L q c)) = read_timeout_after (read_timeout (c_stream c)) q
   \<and> write_timeout (c_stream (perform L q c)) = write_timeout_after (write_timeout (c_stream c)) q
   \<and> (session_ok c \<longrightarrow> session_ok (perform L q c))"
proof (cases q)
  case (Set_Guard g)
  then show ?thesis by (simp add: setters_keep) (simp add: settings_after_defs set_statement_guard_def)
next
  case (Set_Read_Timeout t)
  then show ?thesis by (simp add: setters_keep) (simp add: settings_after_defs set_read_timeout_def tcp_set_read_timeout_def)
next
  case (Set_Write_Timeout t)
  then show ?thesis by (simp add: setters_keep) (simp add: settings_after_defs set_write_timeout_def tcp_set_write_timeout_def)
qed (simp_all add: operations_keep settings_after_defs)

subsection \<open>Invariants of every session\<close>

lemma session_keeps:
  "session L c0 qs c \<Longrightarrow> session_ok c0 \<Longrightarrow>
     session_ok c \<and> c_addr c = c_addr c0 \<and> nodelay (c_stream c) = nodelay (c_stream c0)
     \<and> c_guard c = foldl guard_after (c_guard c0) qs
     \<and> read_timeout (c_stream c) = foldl read_timeout_after (read_timeout (c_stream c0)) qs
     \<and> write_timeout (c_stream c) = foldl write_timeout_after (write_timeout (c_stream c0)) qs"
proof (induction rule: session.induct)
  case (call qs c q)
  then show ?case using perform_keeps [of L q c] by simp
qed (simp_all add: session_ok_def)

lemma session_guard:
  "session L c0 qs c \<Longrightarrow> c_guard c0 \<Longrightarrow> Set_Guard False \<notin> set qs \<Longrightarrow> c_guard c"
proof (induction rule: session.induct)
  case (call qs c q)
  then show ?case using perform_keeps [of L q c] by (auto simp: guard_after_def split: call.splits)
qed simp_all

lemma sends_trans:
  assumes "tx (c_stream c) = tx (c_stream c0) @ concat rs" "\<forall>r\<in>set rs. request_of L P r"
    and "sends L P c c'"
  shows "\<exists>rs'. tx (c_stream c') = tx (c_stream c0) @ concat rs' \<and> length rs' = Suc (length rs)
    \<and> (\<forall>r\<in>set rs'. request_of L P r)"
proof -
  from assms(3) obtain r where "tx (c_stream c') = tx (c_stream c) @ r" "request_of L P r"
    by (auto simp: sends_def)
  with assms(1,2) show ?thesis by (intro exI [of _ "rs @ [r]"]) auto
qed

lemma session_requests:
  "session L c0 qs c \<Longrightarrow> c_guard c0 \<Longrightarrow> Set_Guard False \<notin> set qs \<Longrightarrow>
     \<exists>rs. tx (c_stream c) = tx (c_stream c0) @ concat rs \<and> length rs = length qs
       \<and> (\<forall>r\<in>set rs. request_of L (permitted True) r)"
proof (induction rule: session.induct)
  case (call qs c q)
  then obtain rs where rs: "tx (c_stream c) = tx (c_stream c0) @ concat rs" "length rs = length qs"
    "\<forall>r\<in>set rs. request_of L (permitted True) r" by auto
  have "c_guard c" using session_guard [OF call.hyps] call.prems by simp
  then have "sends L (permitted True) c (perform L q c)" using perform_sends [of L c q] by simp
  from sends_trans [OF rs(1,3) this] rs(2) show ?case by auto
qed auto

subsection \<open>Requests and answers in step\<close>

text \<open>A sequence of round trips, with the results it collects.\<close>

fun round_trips :: "libs \<Rightarrow> command_with_args list \<Rightarrow> client \<Rightarrow> (error + response) list \<times> client" where
  "round_trips L [] c = ([], c)"
| "round_trips L (cmd # cmds) c =
     (case round_trip L cmd c of (r, c) \<Rightarrow> case round_trips L cmds c of (rs, c) \<Rightarrow> (r # rs, c))"

lemma round_trip_closed:
  assumes "to_vec L cmd = Inr bytes" "length bytes \<le> 1024" "accepting (wr (c_stream c))"
    and "avail (rx (c_stream c)) = []" "rx_end (rx (c_stream c)) = read_exact_eof"
  shows "fst (round_trip L cmd c) = Inl ConnectionClosed"
proof -
  obtain ws where w: "write_request L cmd (c_stream c) =
      (Inr (), (c_stream c)\<lparr>tx := tx (c_stream c) @ bytes, wr := ws\<rparr>)"
    using write_request_accepting [OF assms(1-3)] by blast
  let ?s = "(c_stream c)\<lparr>tx := tx (c_stream c) @ bytes, wr := ws\<rparr>"
  have "fst (read_response L ?s) = Inl ConnectionClosed"
    using read_response_eq [of L ?s] assms(4,5)
    by (auto simp: parse_frame_def from_io_def read_exact_eof_def)
  with w show ?thesis by (cases "read_response L ?s") (simp add: round_trip_def)
qed

text \<open>A response the reference codec carries unchanged.\<close>

definition plain_response :: "response \<Rightarrow> bool" where
  "plain_response r \<longleftrightarrow> cbor_ok (ser_response r) \<and> forget_value_ids r = r
     \<and> length (cbor_encode (ser_response r)) \<le> unat max_response_bytes"

lemma round_trips_served:
  assumes "list_all plain_response rs" and "accepting (wr (c_stream c))"
    and "list_all (\<lambda>cmd. length (cbor_encode (ser_command_with_args cmd)) \<le> 1024) cmds"
    and "length cmds = length rs"
    and "avail (rx (c_stream c)) = concat (map (\<lambda>r. server_frame (cbor_encode (ser_response r))) rs)"
  shows "\<exists>c'. round_trips reference_libs cmds c = (map Inr rs, c') \<and> avail (rx (c_stream c')) = []
    \<and> accepting (wr (c_stream c')) \<and> rx_end (rx (c_stream c')) = rx_end (rx (c_stream c))"
  using assms
proof (induction rs arbitrary: c cmds)
  case (Cons r rs)
  from Cons.prems(4) obtain cmd cmds' where cmds: "cmds = cmd # cmds'" by (cases cmds) auto
  let ?bytes = "cbor_encode (ser_command_with_args cmd)"
  have "from_slice reference_libs (cbor_encode (ser_response r)) = Inr r"
    using Cons.prems(1) ref.decodes [of r] by (simp add: plain_response_def)
  then have "served reference_libs c cmd ?bytes (cbor_encode (ser_response r)) r
      (concat (map (\<lambda>r. server_frame (cbor_encode (ser_response r))) rs))"
    using Cons.prems cmds by (simp add: served_def plain_response_def)
  then obtain c' where t: "round_trip reference_libs cmd c = (Inr r, c')"
    "exchanged c ?bytes (concat (map (\<lambda>r. server_frame (cbor_encode (ser_response r))) rs)) c'"
    using round_trip_served by blast
  with Cons.IH [of c' cmds'] Cons.prems cmds show ?case by (auto simp: exchanged_def)
qed auto

lemma round_trips_append:
  "round_trips L (cmds @ others) c =
     (case round_trips L cmds c of (rs, c) \<Rightarrow> case round_trips L others c of (qs, c) \<Rightarrow> (rs @ qs, c))"
  by (induction cmds arbitrary: c) (auto split: prod.split)

subsection \<open>Properties\<close>

text \<open>C24: in every session, whatever is called and however the network behaves, the client keeps
  its address and the no-delay option of its socket; the guard and the two timeouts of the socket
  are what the last call that sets them has asked for, a timeout of zero being refused, and as they
  were at the start if there is none; and the database it takes to be selected has a trimmed,
  non-empty name.\<close>

theorem session_invariant:
  assumes "session L c0 qs c" and "session_ok c0"
  shows "session_ok c \<and> c_addr c = c_addr c0 \<and> nodelay (c_stream c) = nodelay (c_stream c0)
    \<and> c_guard c = foldl guard_after (c_guard c0) qs
    \<and> read_timeout (c_stream c) = foldl read_timeout_after (read_timeout (c_stream c0)) qs
    \<and> write_timeout (c_stream c) = foldl write_timeout_after (write_timeout (c_stream c0)) qs"
  using assms by (rule session_keeps)

theorem session_invariant_witness:
  "\<exists>c. session reference_libs (fake_client [R_SystemMsg ''ok''])
       [Set_Read_Timeout (Some 5), Use_Database '' mydb '', Set_Read_Timeout (Some 0)] c
     \<and> session_ok c \<and> read_timeout (c_stream c) = Some 5"
proof -
  have "session reference_libs (fake_client [R_SystemMsg ''ok''])
      ((([] @ [Set_Read_Timeout (Some 5)]) @ [Use_Database '' mydb '']) @ [Set_Read_Timeout (Some 0)])
      (perform reference_libs (Set_Read_Timeout (Some 0)) (perform reference_libs (Use_Database '' mydb '')
        (perform reference_libs (Set_Read_Timeout (Some 5)) (fake_client [R_SystemMsg ''ok'']))))"
    by (intro session.call session.start)
  then obtain c where c: "session reference_libs (fake_client [R_SystemMsg ''ok''])
      [Set_Read_Timeout (Some 5), Use_Database '' mydb '', Set_Read_Timeout (Some 0)] c" by auto
  moreover have "session_ok (fake_client [R_SystemMsg ''ok''])" by (simp add: session_ok_def)
  ultimately show ?thesis using session_invariant [OF c] by (auto simp: read_timeout_after_def)
qed

text \<open>C2: while the guard stays on, what a session has written is one request for each call, none
  longer than 1024 bytes and each a prefix of the encoding of a command; and a command that
  executes SQL holds a statement the guard accepted.\<close>

theorem guarded_session_requests:
  assumes "session L c0 qs c" and "c_guard c0" and "Set_Guard False \<notin> set qs"
  shows "\<exists>rs. tx (c_stream c) = tx (c_stream c0) @ concat rs \<and> length rs = length qs
    \<and> (\<forall>r\<in>set rs. r = [] \<or>
         (\<exists>cmd bytes k. to_vec L cmd = Inr bytes \<and> length bytes \<le> 1024 \<and> r = take k bytes
            \<and> (cwa_command cmd = DB DC_ExecuteSQL \<longrightarrow>
                 (\<exists>sql kind. cwa_args cmd = [sql] \<and> inspect sql = Some (Inr kind)))))"
proof -
  have "permitted True cmd \<longleftrightarrow> (cwa_command cmd = DB DC_ExecuteSQL \<longrightarrow>
      (\<exists>sql kind. cwa_args cmd = [sql] \<and> inspect sql = Some (Inr kind)))" for cmd
    by (auto simp: permitted_def execute_guard_def)
  then have "request_of L (permitted True) r \<longleftrightarrow> r = [] \<or>
         (\<exists>cmd bytes k. to_vec L cmd = Inr bytes \<and> length bytes \<le> 1024 \<and> r = take k bytes
            \<and> (cwa_command cmd = DB DC_ExecuteSQL \<longrightarrow>
                 (\<exists>sql kind. cwa_args cmd = [sql] \<and> inspect sql = Some (Inr kind))))" for r
    unfolding request_of_def by blast
  then show ?thesis using session_requests [OF assms] by simp
qed

theorem guarded_session_requests_witness:
  "\<exists>rs. tx (c_stream (perform reference_libs (Execute ''DROP TABLE t'') (fake_client []))) = concat rs
     \<and> length rs = 1"
proof -
  have "session reference_libs (fake_client []) ([] @ [Execute ''DROP TABLE t''])
      (perform reference_libs (Execute ''DROP TABLE t'') (fake_client []))"
    by (intro session.call session.start)
  from guarded_session_requests [OF this] show ?thesis by auto
qed

text \<open>Against a server that answers each request, in whatever pieces its answers arrive, the
  requests of a client get their answers in order, and the request after the last answer reports
  the closed connection.\<close>

lemma answers_in_step:
  assumes "list_all plain_response rs" and "accepting (wr (c_stream c))"
    and "list_all (\<lambda>cmd. length (cbor_encode (ser_command_with_args cmd)) \<le> 1024) (cmds @ [cmd])"
    and "length cmds = length rs"
    and "avail (rx (c_stream c)) = concat (map (\<lambda>r. server_frame (cbor_encode (ser_response r))) rs)"
    and "rx_end (rx (c_stream c)) = read_exact_eof"
  shows "fst (round_trips reference_libs (cmds @ [cmd]) c) = map Inr rs @ [Inl ConnectionClosed]"
proof -
  from assms(3) have "list_all (\<lambda>cmd. length (cbor_encode (ser_command_with_args cmd)) \<le> 1024) cmds"
    and n: "length (cbor_encode (ser_command_with_args cmd)) \<le> 1024" by simp_all
  with assms obtain c' where r: "round_trips reference_libs cmds c = (map Inr rs, c')"
    and c': "avail (rx (c_stream c')) = []" "accepting (wr (c_stream c'))"
      "rx_end (rx (c_stream c')) = read_exact_eof"
    using round_trips_served [of rs c cmds] by auto
  from round_trip_closed [OF reference_to_vec n c'(2,1,3)] r show ?thesis
    by (cases "round_trip reference_libs cmd c'") (simp add: round_trips_append)
qed

theorem answers_in_step_witness:
  "fst (round_trips reference_libs ([cwa_system SC_Help []] @ [cwa_system SC_Help []])
     (fake_client [R_SystemMsg ''hi''])) = map Inr [R_SystemMsg ''hi''] @ [Inl ConnectionClosed]"
proof (rule answers_in_step)
  show "list_all plain_response [R_SystemMsg ''hi'']"
    by (simp add: plain_response_def enc_text_def length_enc_head max_response_bytes_def)
  show "list_all (\<lambda>cmd. length (cbor_encode (ser_command_with_args cmd)) \<le> 1024)
      ([cwa_system SC_Help []] @ [cwa_system SC_Help []])"
    by (simp add: small_system_command del: cbor_encode.simps)
qed (simp_all add: spawn_def)

end
