(* ===== verification/Example.thy ===== *)
theory Example
  imports Session
begin

section \<open>The example program (\<open>src/examples/basic.rs\<close>)\<close>

text \<open>
  The example connects, picks or creates a database, makes sure the table \<open>users\<close> exists,
  and prints its rows. Its model returns what \<open>main\<close> returns and the texts it passes to
  \<open>println!\<close>; the outer \<open>option\<close> is a panic of the rendering or of a row.
\<close>

text \<open>One step of \<open>main\<close>: an error ends it with what has been printed.\<close>

definition main_step ::
    "(error + 'a) \<times> client \<Rightarrow> string list \<Rightarrow> ('a \<Rightarrow> client \<Rightarrow> ((error + unit) \<times> string list) option)
       \<Rightarrow> ((error + unit) \<times> string list) option" where
  "main_step p printed k = (case p of (Inl e, c) \<Rightarrow> Some (Inl e, printed) | (Inr x, c) \<Rightarrow> k x c)"

fun print_rows :: "row list \<Rightarrow> string list \<Rightarrow> ((error + unit) \<times> string list) option" where
  "print_rows [] printed = Some (Inr (), printed)"
| "print_rows (r # rs) printed =
     Option.bind (row_get str_index_in (returning i64_from_value) r ''id'') (\<lambda>key.
       case key of
         Inl e \<Rightarrow> Some (Inl e, printed)
       | Inr key \<Rightarrow>
           Option.bind (row_get str_index_in (returning str_from_value) r ''name'') (\<lambda>name.
             case name of
               Inl e \<Rightarrow> Some (Inl e, printed)
             | Inr name \<Rightarrow> print_rows rs (printed @ [show_int key @ '': '' @ name])))"

definition insert_alice :: string where
  "insert_alice = ''INSERT INTO users VALUES (1, '' @ [CHR 0x27] @ ''alice'' @ [CHR 0x27] @ '')''"

definition insert_ziad :: string where
  "insert_ziad = ''INSERT INTO users VALUES (2, '' @ [CHR 0x27] @ ''Ziad'' @ [CHR 0x27] @ '')''"

text \<open>From the query for the rows to the end.\<close>

definition main_rows :: "libs \<Rightarrow> bool \<Rightarrow> client \<Rightarrow> string list \<Rightarrow> ((error + unit) \<times> string list) option" where
  "main_rows L oc c printed =
     Option.bind (query L ''SELECT * FROM users'' c) (\<lambda>p.
     main_step p printed (\<lambda>rows c.
     Option.bind (rows_display oc rows) (\<lambda>table.
     print_rows (row_iter_collect (rows_into_iter rows))
       (printed @ [[CHR 0x0A] @ table @ [CHR 0x0A]]))))"

text \<open>The table, made and filled when it is missing.\<close>

definition main_tables :: "libs \<Rightarrow> bool \<Rightarrow> client \<Rightarrow> string list \<Rightarrow> ((error + unit) \<times> string list) option" where
  "main_tables L oc c printed =
     main_step (tables L c) printed (\<lambda>ts c.
     if \<not> list_ex (\<lambda>table. table = ''users'') ts
     then
       Option.bind (execute L ''CREATE TABLE users (id INTEGER PRIMARY KEY, name VARCHAR(255))'' c) (\<lambda>p.
       main_step p printed (\<lambda>_ c.
       Option.bind (execute L insert_alice c) (\<lambda>p.
       main_step p printed (\<lambda>_ c.
       Option.bind (execute L insert_ziad c) (\<lambda>p.
       main_step p printed (\<lambda>_ c.
       main_rows L oc c (printed @ [''created and populated `users`''])))))))
     else main_rows L oc c printed)"

definition example_main ::
    "libs \<Rightarrow> net \<Rightarrow> bool \<Rightarrow> string list \<Rightarrow> ((error + unit) \<times> string list) option" where
  "example_main L N oc args =
     (let addr = (case slice_get args 1 of Some a \<Rightarrow> a | None \<Rightarrow> ''127.0.0.1:3333'') in
      case client_connect L N addr of
        Inl e \<Rightarrow> Some (Inl e, [])
      | Inr c \<Rightarrow>
          let printed = [''connected to '' @ server_addr c] in
          main_step (databases L c) printed (\<lambda>existing c.
          let database = (case existing of [] \<Rightarrow> ''demo'' | d # _ \<Rightarrow> d) in
          main_step (if existing = [] then create_database L database c else (Inr (), c)) printed (\<lambda>_ c.
          main_step (use_database L database c) printed (\<lambda>_ c.
          main_tables L oc c (printed @ [''using database `'' @ database @ ''`''])))))"

subsection \<open>The example on a populated server\<close>

lemma served_next:
  assumes "plain_response r" "accepting (wr (c_stream c))"
    and "length (cbor_encode (ser_command_with_args cmd)) \<le> 1024"
    and "avail (rx (c_stream c)) = server_frame (cbor_encode (ser_response r)) @ rest"
  shows "served reference_libs c cmd (cbor_encode (ser_command_with_args cmd))
    (cbor_encode (ser_response r)) r rest"
  using assms ref.decodes [of r] by (simp add: served_def plain_response_def)

text \<open>The rows of \<open>users\<close>, their schema and what the server sends for them.\<close>

definition users_schema :: schema where
  "users_schema = schema_new
     [\<lparr>attr_name = ''id'', attr_dtype = TBigInt, attr_constraint = CPrimaryKey\<rparr>,
      \<lparr>attr_name = ''name'', attr_dtype = TString, attr_constraint = CNone\<rparr>]"

definition users_values :: "(i64 \<times> string) list \<Rightarrow> val list list" where
  "users_values us = map (\<lambda>(i, n). [VBigInt i, VString n]) us"

definition users_response :: "(i64 \<times> string) list \<Rightarrow> response" where
  "users_response us = R_QueryResult (QR_Select users_schema
     (map (\<lambda>vs. \<lparr>tid = 0, value_id = None, field_vals = vs\<rparr>) (users_values us)) None)"

lemma users_index: "index_of users_schema ''id'' = Some 0" "index_of users_schema ''name'' = Some 1"
  by (simp_all add: index_of_def users_schema_def schema_new_def)

lemma print_rows_users:
  "print_rows (map (\<lambda>vs. \<lparr>row_schema = users_schema, row_values = vs\<rparr>) (users_values us)) printed =
     Some (Inr (), printed @ map (\<lambda>(i, n). show_int (sint i) @ '': '' @ n) us)"
proof (induction us arbitrary: printed)
  case (Cons u us)
  obtain i n where u: "u = (i, n)" by fastforce
  have i64: "i64_from_value (VBigInt i) = Inr (sint i)"
    using in_i64_sint [of i]
    by (simp add: i64_from_value_def int_from_value_def in_i64_def and_then_def ok_or_def)
  have r: "row_get str_index_in (returning i64_from_value) \<lparr>row_schema = users_schema, row_values = [VBigInt i, VString n]\<rparr> ''id''
      = Some (Inr (sint i))"
    "row_get str_index_in (returning str_from_value) \<lparr>row_schema = users_schema, row_values = [VBigInt i, VString n]\<rparr> ''name''
      = Some (Inr n)"
    using i64 by (simp_all add: row_get_def str_index_in_def users_index slice_get_def map_err_def
        str_from_value_def ok_or_def)
  show ?case using Cons.IH by (simp add: users_values_def u r)
qed (simp add: users_values_def)

lemma query_users:
  assumes "plain_response (users_response us)" "c_guard c" "accepting (wr (c_stream c))"
    and "avail (rx (c_stream c)) = server_frame (cbor_encode (ser_response (users_response us))) @ rest"
  shows "\<exists>c'. query reference_libs ''SELECT * FROM users'' c =
    Some (Inr (rows_new users_schema (users_values us) None), c')"
proof -
  have "inspect ''SELECT * FROM users'' = Some (Inr SK_Query)" by code_simp
  then have g: "execute_guard (c_guard c) ''SELECT * FROM users'' = Some (Inr ())"
    using assms(2) by (simp add: execute_guard_def map_ok_def)
  have n: "length (cbor_encode (ser_command_with_args (cwa_db DC_ExecuteSQL [''SELECT * FROM users'']))) \<le> 1024"
    using execute_request_fits [of "''SELECT * FROM users''"] by simp
  obtain c' where "execute reference_libs ''SELECT * FROM users'' c =
      Some (and_then (check (users_response us)) (execute_response reference_libs), c')"
    using execute_served [OF g served_next [OF assms(1,3) n assms(4)]] by blast
  then show ?thesis
    by (simp add: query_def try_then_def into_rows_def and_then_def check_def execute_response_def
        into_outcome_def users_response_def comp_def del: cbor_encode.simps)
qed

lemma databases_served:
  assumes "plain_response (R_SystemMsg m)" "accepting (wr (c_stream c))"
    and "avail (rx (c_stream c)) = server_frame (cbor_encode (ser_response (R_SystemMsg m))) @ rest"
  shows "\<exists>c' bytes. databases reference_libs c = (Inr (parse_list m ''Databases:''), c')
    \<and> exchanged c bytes rest c'"
  using system_served [OF served_next [OF assms(1,2) small_system_command assms(3)], of SC_ShowDatabases]
  by (fastforce simp: databases_def try_then_def check_def expect_message_def)

lemma tables_served:
  assumes "plain_response (R_SystemMsg m)" "accepting (wr (c_stream c))"
    and "avail (rx (c_stream c)) = server_frame (cbor_encode (ser_response (R_SystemMsg m))) @ rest"
  shows "\<exists>c' bytes. tables reference_libs c = (Inr (parse_list m ''Tables:''), c')
    \<and> exchanged c bytes rest c'"
proof -
  have "length (cbor_encode (ser_command_with_args (cwa_db DC_ShowTables []))) \<le> 1024"
    by (simp add: ser_command_with_args_def ser_list_def enc_text_def length_enc_head)
  from db_served [OF served_next [OF assms(1,2) this assms(3)]] show ?thesis
    by (fastforce simp: tables_def try_then_def check_def expect_message_def)
qed

lemma use_demo_served:
  assumes "accepting (wr (c_stream c))"
    and "avail (rx (c_stream c)) = server_frame (cbor_encode (ser_response R_Ok)) @ rest"
  shows "\<exists>c' bytes. use_database reference_libs ''demo'' c =
    (Inr (), c'\<lparr>c_database := Some ''demo''\<rparr>) \<and> exchanged c bytes rest c'"
proof -
  have p: "plain_response R_Ok"
    by (simp add: plain_response_def enc_text_def length_enc_head max_response_bytes_def)
  have t: "trim ''demo'' = ''demo''" by code_simp
  have "length (cbor_encode (ser_command_with_args (cwa_system SC_Connect [''demo'']))) \<le> 1024"
    by (simp add: ser_command_with_args_def ser_list_def enc_text_def length_enc_head)
  from system_served [OF served_next [OF p assms(1) this assms(2)]] obtain c' bytes where
    "system reference_libs SC_Connect [''demo''] c = (Inr R_Ok, c')" "exchanged c bytes rest c'"
    by (auto simp: check_def)
  with t show ?thesis by (auto simp: use_database_def try_then_def require_name_def)
qed

text \<open>The messages of a server that has the database and the table.\<close>

lemma populated_messages:
  "plain_response (R_SystemMsg ''Databases: demo'')" "plain_response (R_SystemMsg ''Tables: users'')"
  "parse_list ''Databases: demo'' ''Databases:'' = [''demo'']"
  "parse_list ''Tables: users'' ''Tables:'' = [''users'']"
proof -
  show "plain_response (R_SystemMsg ''Databases: demo'')" "plain_response (R_SystemMsg ''Tables: users'')"
    by (simp_all add: plain_response_def enc_text_def length_enc_head max_response_bytes_def)
  show "parse_list ''Databases: demo'' ''Databases:'' = [''demo'']"
    "parse_list ''Tables: users'' ''Tables:'' = [''users'']" by code_simp+
qed

lemma main_tables_populated:
  assumes "plain_response (users_response us)" "c_guard c" "accepting (wr (c_stream c))"
    and "avail (rx (c_stream c)) =
      server_frame (cbor_encode (ser_response (R_SystemMsg ''Tables: users'')))
      @ server_frame (cbor_encode (ser_response (users_response us))) @ rest"
  shows "\<exists>table. rows_display oc (rows_new users_schema (users_values us) None) = Some table
    \<and> main_tables reference_libs oc c printed =
        Some (Inr (), printed @ [[CHR 0x0A] @ table @ [CHR 0x0A]]
                @ map (\<lambda>(i, n). show_int (sint i) @ '': '' @ n) us)"
proof -
  obtain c1 bytes where ts: "tables reference_libs c = (Inr [''users''], c1)"
    and x: "exchanged c bytes (server_frame (cbor_encode (ser_response (users_response us))) @ rest) c1"
    using tables_served [OF populated_messages(2) assms(3,4)] populated_messages(4) by auto
  obtain c' where q: "query reference_libs ''SELECT * FROM users'' c1 =
      Some (Inr (rows_new users_schema (users_values us) None), c')"
    using query_users [OF assms(1), of c1 rest] assms(2) exchangedD [OF x] by auto
  have "rows_display oc (rows_new users_schema (users_values us) None) \<noteq> None"
    using rows_display_None_iff [of oc "rows_new users_schema (users_values us) None"]
    by (auto simp: rows_new_def users_values_def users_schema_def schema_len_def schema_new_def)
  then obtain table where d: "rows_display oc (rows_new users_schema (users_values us) None) = Some table"
    by blast
  then show ?thesis
    by (simp add: main_tables_def main_rows_def main_step_def ts q rows_into_iter_def rows_iter_def
        row_iter_collect_eq rows_new_def [of users_schema] print_rows_users)
qed

subsection \<open>Property\<close>

text \<open>Against a server that has a database and the table \<open>users\<close>, the example selects the
  database, creates nothing, and prints the table and one line for each row in order.\<close>

lemma example_prints_users:
  assumes "plain_response (users_response us)"
    and "rs = [R_SystemMsg ''Databases: demo'', R_Ok, R_SystemMsg ''Tables: users'', users_response us]"
  shows "\<exists>table. rows_display oc (rows_new users_schema (users_values us) None) = Some table
    \<and> example_main reference_libs (fake_net rs) oc [] =
        Some (Inr (), [''connected to 127.0.0.1:3333'', ''using database `demo`'',
                       [CHR 0x0A] @ table @ [CHR 0x0A]]
                @ map (\<lambda>(i, n). show_int (sint i) @ '': '' @ n) us)"
proof -
  define c0 where "c0 = \<lparr>c_stream = (spawn rs)\<lparr>nodelay := True\<rparr>, c_addr = ''127.0.0.1:3333'',
      c_database = None, c_guard = True\<rparr>"
  have c: "client_connect reference_libs (fake_net rs) ''127.0.0.1:3333'' = Inr c0"
    by (simp add: client_connect_def builder_connect_eq default_builder_def resolve_def fake_net_def
        and_then_def map_err_def ok_or_def c0_def spawn_def)
  let ?f = "\<lambda>r. server_frame (cbor_encode (ser_response r))"
  have "accepting (wr (c_stream c0))" "avail (rx (c_stream c0)) = ?f (R_SystemMsg ''Databases: demo'')
      @ ?f R_Ok @ ?f (R_SystemMsg ''Tables: users'') @ ?f (users_response us)"
    by (simp_all add: c0_def assms(2) spawn_def del: cbor_encode.simps ser_response.simps)
  then obtain c1 b1 where d: "databases reference_libs c0 = (Inr [''demo''], c1)"
    and x1: "exchanged c0 b1 (?f R_Ok @ ?f (R_SystemMsg ''Tables: users'') @ ?f (users_response us)) c1"
    using databases_served [OF populated_messages(1)] populated_messages(3) by metis
  obtain c2 b2 where u: "use_database reference_libs ''demo'' c1 =
      (Inr (), c2\<lparr>c_database := Some ''demo''\<rparr>)"
    and x2: "exchanged c1 b2 (?f (R_SystemMsg ''Tables: users'') @ ?f (users_response us) @ []) c2"
    using use_demo_served [OF exchangedD(7,5) [OF x1]] by auto
  let ?c = "c2\<lparr>c_database := Some ''demo''\<rparr>"
  have "c_guard ?c" "accepting (wr (c_stream ?c))" "avail (rx (c_stream ?c)) =
      ?f (R_SystemMsg ''Tables: users'') @ ?f (users_response us) @ []"
    using exchangedD [OF x1] exchangedD [OF x2]
    by (simp_all add: c0_def del: cbor_encode.simps ser_response.simps)
  note m = main_tables_populated [OF assms(1) this, of oc]
  have "server_addr c0 = ''127.0.0.1:3333''" by (simp add: server_addr_def c0_def)
  then have e: "example_main reference_libs (fake_net rs) oc [] = main_tables reference_libs oc ?c
      [''connected to 127.0.0.1:3333'', ''using database `demo`'']"
    by (simp add: example_main_def slice_get_def c main_step_def d u Let_def)
  show ?thesis unfolding e using m [of "[''connected to 127.0.0.1:3333'', ''using database `demo`'']"]
    by simp
qed

theorem example_prints_users_witness:
  "\<exists>table. rows_display True (rows_new users_schema (users_values [(1, ''alice'')]) None) = Some table
    \<and> example_main reference_libs (fake_net [R_SystemMsg ''Databases: demo'', R_Ok,
          R_SystemMsg ''Tables: users'', users_response [(1, ''alice'')]]) True [] =
        Some (Inr (), [''connected to 127.0.0.1:3333'', ''using database `demo`'',
                       [CHR 0x0A] @ table @ [CHR 0x0A], ''1: alice''])"
proof -
  have "plain_response (users_response [(1, ''alice'')])"
    by (simp add: plain_response_def users_response_def users_values_def users_schema_def
        schema_new_def ser_schema_def ser_list_def ser_attribute_def ser_row_tuple_def
        ser_option_def ser_uint_def ser_sint_def enc_text_def length_enc_head forget_value_id_def
        max_response_bytes_def)
  moreover have "show_int (sint (1 :: i64)) = ''1''" by code_simp
  ultimately show ?thesis
    using example_prints_users [of "[(1, ''alice'')]" _ True] by simp
qed

end
