(* ===== verification/Operations.thy ===== *)
theory Operations
  imports Example
begin

section \<open>What a session of calls amounts to\<close>

text \<open>
  The specification of the client's operations, free of streams and of the order of effects in
  the code: a call is refused locally or asks the server for one command; the checked response
  is interpreted as the result of the call, and may change which database is selected. The
  server is any function from its state and a command to a response and a state. A client whose
  stream carries that server's answers refines this specification, call by call and for whole
  sessions.
\<close>

subsection \<open>Results of calls\<close>

datatype reply = Done | Names "string list" | Text_Reply string | Ran outcome | Row_Set rows
  | Count nat

definition replying :: "('a \<Rightarrow> reply) \<Rightarrow> (error + 'a) \<times> client \<Rightarrow> (error + reply) \<times> client" where
  "replying f p = (map_ok f (fst p), snd p)"

fun invoke :: "libs \<Rightarrow> call \<Rightarrow> client \<Rightarrow> (error + reply) \<times> client" where
  "invoke L (Create_Database name) c = replying (\<lambda>_. Done) (create_database L name c)"
| "invoke L (Use_Database name) c = replying (\<lambda>_. Done) (use_database L name c)"
| "invoke L Databases c = replying Names (databases L c)"
| "invoke L Tables c = replying Names (tables L c)"
| "invoke L (Execute sql) c = replying Ran (the (execute L sql c))"
| "invoke L (Query sql) c = replying Row_Set (the (query L sql c))"
| "invoke L (Import_Csv path table) c = replying Count (import_csv L path table c)"
| "invoke L Commit c = replying (\<lambda>_. Done) (commit L c)"
| "invoke L Help c = replying Text_Reply (client_help L c)"
| "invoke L Reset_Server c = replying (\<lambda>_. Done) (reset_server L c)"
| "invoke L (Set_Guard enabled) c = (Inr Done, set_statement_guard enabled c)"
| "invoke L (Set_Read_Timeout t) c = replying (\<lambda>_. Done) (set_read_timeout t c)"
| "invoke L (Set_Write_Timeout t) c = replying (\<lambda>_. Done) (set_write_timeout t c)"

lemma invoke_perform: "snd (invoke L q c) = perform L q c"
  by (cases q) (simp_all add: replying_def)

fun invoke_all :: "libs \<Rightarrow> call list \<Rightarrow> client \<Rightarrow> (error + reply) list \<times> client" where
  "invoke_all L [] c = ([], c)"
| "invoke_all L (q # qs) c =
     (case invoke L q c of (r, c) \<Rightarrow> case invoke_all L qs c of (rs, c) \<Rightarrow> (r # rs, c))"

subsection \<open>The specification\<close>

text \<open>The command a call asks for; none for a setting.\<close>

fun asks :: "bool \<Rightarrow> call \<Rightarrow> error + command_with_args option" where
  "asks g (Create_Database name) =
     map_ok (\<lambda>n. Some (cwa_system SC_Create [n])) (require_name name ''database name'')"
| "asks g (Use_Database name) =
     map_ok (\<lambda>n. Some (cwa_system SC_Connect [n])) (require_name name ''database name'')"
| "asks g Databases = Inr (Some (cwa_system SC_ShowDatabases []))"
| "asks g Tables = Inr (Some (cwa_db DC_ShowTables []))"
| "asks g (Execute sql) =
     map_ok (\<lambda>_. Some (cwa_db DC_ExecuteSQL [sql])) (the (execute_guard g sql))"
| "asks g (Query sql) =
     map_ok (\<lambda>_. Some (cwa_db DC_ExecuteSQL [sql])) (the (execute_guard g sql))"
| "asks g (Import_Csv path table) =
     and_then (require_name path ''path'') (\<lambda>p.
     map_ok (\<lambda>t. Some (cwa_db DC_Import [p, t])) (require_name table ''table name''))"
| "asks g Commit = Inr (Some (cwa_db DC_Commit []))"
| "asks g Help = Inr (Some (cwa_system SC_Help []))"
| "asks g Reset_Server = Inr (Some (cwa_system SC_Reset []))"
| "asks g (Set_Guard enabled) = Inr None"
| "asks g (Set_Read_Timeout t) = (if t = Some 0 then Inl (from_io zero_timeout) else Inr None)"
| "asks g (Set_Write_Timeout t) = (if t = Some 0 then Inl (from_io zero_timeout) else Inr None)"

text \<open>The result of a call from a response that is no error.\<close>

fun interprets :: "libs \<Rightarrow> call \<Rightarrow> response \<Rightarrow> error + reply" where
  "interprets L Databases r = map_ok (\<lambda>m. Names (parse_list m ''Databases:'')) (expect_message L r)"
| "interprets L Tables r = map_ok (\<lambda>m. Names (parse_list m ''Tables:'')) (expect_message L r)"
| "interprets L (Execute sql) r = map_ok Ran (execute_response L r)"
| "interprets L (Query sql) r = map_ok Row_Set (and_then (execute_response L r) into_rows)"
| "interprets L (Import_Csv path table) r = map_ok Count (and_then (expect_message L r) parse_imported)"
| "interprets L Help r = map_ok Text_Reply (expect_message L r)"
| "interprets L q r = Inr Done"

text \<open>The database selected after a call that the server granted, and the guard after a call.\<close>

fun selects :: "call \<Rightarrow> string option \<Rightarrow> string option" where
  "selects (Use_Database name) d = Some (trim name)"
| "selects Reset_Server d = None"
| "selects q d = d"

fun guards :: "call \<Rightarrow> bool \<Rightarrow> bool" where
  "guards (Set_Guard enabled) g = enabled"
| "guards q g = g"

text \<open>A step of the specification: the database, the guard and the server's state, the result,
  and the exchange with the server if there is one.\<close>

definition spec_call ::
    "libs \<Rightarrow> ('s \<Rightarrow> command_with_args \<Rightarrow> response \<times> 's) \<Rightarrow> call \<Rightarrow> string option \<times> bool \<times> 's
       \<Rightarrow> (error + reply) \<times> (command_with_args \<times> response) list \<times> (string option \<times> bool \<times> 's)" where
  "spec_call L server q st =
     (case st of (d, g, s) \<Rightarrow>
        case asks g q of
          Inl e \<Rightarrow> (Inl e, [], st)
        | Inr None \<Rightarrow> (Inr Done, [], (d, guards q g, s))
        | Inr (Some cmd) \<Rightarrow>
            (case encode_request L cmd of
               Inl e \<Rightarrow> (Inl e, [], st)
             | Inr _ \<Rightarrow>
                 (case server s cmd of (r, s) \<Rightarrow>
                    case check r of
                      Inl e \<Rightarrow> (Inl e, [(cmd, r)], (d, g, s))
                    | Inr r' \<Rightarrow> (interprets L q r', [(cmd, r)], (selects q d, g, s)))))"

fun spec_run ::
    "libs \<Rightarrow> ('s \<Rightarrow> command_with_args \<Rightarrow> response \<times> 's) \<Rightarrow> call list \<Rightarrow> string option \<times> bool \<times> 's
       \<Rightarrow> (error + reply) list \<times> (command_with_args \<times> response) list \<times> (string option \<times> bool \<times> 's)" where
  "spec_run L server [] st = ([], [], st)"
| "spec_run L server (q # qs) st =
     (case spec_call L server q st of (r, xs, st) \<Rightarrow>
        case spec_run L server qs st of (rs, ys, st) \<Rightarrow> (r # rs, xs @ ys, st))"

subsection \<open>One call\<close>

text \<open>The shape every call has: a local check, one round trip, the check of the response,
  its interpretation and the selection.\<close>

definition normal_form :: "libs \<Rightarrow> call \<Rightarrow> client \<Rightarrow> (error + reply) \<times> client" where
  "normal_form L q c =
     (case asks (c_guard c) q of
        Inl e \<Rightarrow> (Inl e, c)
      | Inr None \<Rightarrow> (Inr Done, perform L q c)
      | Inr (Some cmd) \<Rightarrow>
          (case round_trip L cmd c of
             (Inl e, c) \<Rightarrow> (Inl e, c)
           | (Inr r, c) \<Rightarrow>
               (case check r of
                  Inl e \<Rightarrow> (Inl e, c)
                | Inr r \<Rightarrow> (interprets L q r, c\<lparr>c_database := selects q (c_database c)\<rparr>))))"

lemmas operation_defs = create_database_def use_database_def databases_def tables_def
  import_csv_def commit_def client_help_def reset_server_def

lemma client_same_database [simp]: "c\<lparr>c_database := c_database c\<rparr> = c"
  by simp

lemma execute_normal:
  "the (execute L sql c) =
     (case the (execute_guard (c_guard c) sql) of
        Inl e \<Rightarrow> (Inl e, c)
      | Inr _ \<Rightarrow>
          (case round_trip L (cwa_db DC_ExecuteSQL [sql]) c of
             (Inl e, c) \<Rightarrow> (Inl e, c)
           | (Inr r, c) \<Rightarrow> (and_then (check r) (execute_response L), c)))"
  by (simp add: execute_eq try_then_def db_def and_then_def split: sum.split prod.split)

lemma query_normal:
  "the (query L sql c) = (and_then (fst (the (execute L sql c))) into_rows, snd (the (execute L sql c)))"
  by (simp add: query_def execute_eq [of L sql c] try_then_def and_then_def split: sum.split prod.split)

lemma invoke_normal_form: "invoke L q c = normal_form L q c"
proof (cases q)
  case (Create_Database name)
  then show ?thesis
    by (cases "require_name name ''database name''")
      (simp_all add: normal_form_def replying_def operation_defs try_then_def system_def and_then_def
        map_ok_def split: prod.split sum.split)
next
  case (Use_Database name)
  have n: "require_name name ''database name'' = Inr n \<Longrightarrow> n = trim name" for n
    by (auto simp: require_name_def Let_def split: if_splits)
  from Use_Database n show ?thesis
    by (cases "require_name name ''database name''")
      (simp_all add: normal_form_def replying_def operation_defs try_then_def system_def and_then_def
        map_ok_def split: prod.split sum.split)
next
  case (Import_Csv path table)
  then show ?thesis
    by (cases "require_name path ''path''"; cases "require_name table ''table name''")
      (simp_all add: normal_form_def replying_def operation_defs try_then_def db_def and_then_def
        map_ok_def split: prod.split sum.split)
next
  case (Execute sql)
  then show ?thesis
    by (cases "the (execute_guard (c_guard c) sql)")
      (simp_all add: normal_form_def replying_def execute_normal and_then_def map_ok_def
        split: prod.split sum.split)
next
  case (Query sql)
  then show ?thesis
    by (cases "the (execute_guard (c_guard c) sql)")
      (simp_all add: normal_form_def replying_def query_normal execute_normal and_then_def map_ok_def
        split: prod.split sum.split)
qed (auto simp: normal_form_def replying_def operation_defs try_then_def system_def db_def
    and_then_def map_ok_def set_statement_guard_def set_read_timeout_def set_write_timeout_def
    tcp_set_read_timeout_def tcp_set_write_timeout_def split: prod.split sum.split)

subsection \<open>The script as a server of the specification\<close>

definition scripted :: "response list \<Rightarrow> command_with_args \<Rightarrow> response \<times> response list" where
  "scripted rs cmd = (hd rs, tl rs)"

lemma spec_call_scripted:
  "spec_call L scripted q (d, g, rs) =
     (case asks g q of
        Inl e \<Rightarrow> (Inl e, [], d, g, rs)
      | Inr None \<Rightarrow> (Inr Done, [], d, guards q g, rs)
      | Inr (Some cmd) \<Rightarrow>
          (case encode_request L cmd of
             Inl e \<Rightarrow> (Inl e, [], d, g, rs)
           | Inr _ \<Rightarrow>
               (case check (hd rs) of
                  Inl e \<Rightarrow> (Inl e, [(cmd, hd rs)], d, g, tl rs)
                | Inr r \<Rightarrow> (interprets L q r, [(cmd, hd rs)], selects q d, g, tl rs))))"
  by (simp add: spec_call_def scripted_def split: sum.split option.split)

lemma spec_run_append:
  "spec_run L server (qs1 @ qs2) st =
     (case spec_run L server qs1 st of (rs1, xs1, st1) \<Rightarrow>
        case spec_run L server qs2 st1 of (rs2, xs2, st2) \<Rightarrow> (rs1 @ rs2, xs1 @ xs2, st2))"
  by (induction qs1 arbitrary: st) (simp_all split: prod.split)

subsection \<open>What goes over the wire\<close>

definition request_bytes :: "libs \<Rightarrow> command_with_args \<Rightarrow> u8 list" where
  "request_bytes L cmd = (case to_vec L cmd of Inl _ \<Rightarrow> [] | Inr bytes \<Rightarrow> bytes)"

text \<open>The server's encoder can be read back on a response.\<close>

definition readable :: "libs \<Rightarrow> (response \<Rightarrow> u8 list) \<Rightarrow> response \<Rightarrow> bool" where
  "readable L body r \<longleftrightarrow>
     body r \<noteq> [] \<and> length (body r) \<le> unat max_response_bytes \<and> from_slice L (body r) = Inr r"

lemma setting_keeps:
  assumes "asks g q = Inr None"
  shows "tx (c_stream (perform L q c)) = tx (c_stream c)" "rx (c_stream (perform L q c)) = rx (c_stream c)"
    "wr (c_stream (perform L q c)) = wr (c_stream c)"
    "c_database (perform L q c) = c_database c" "c_addr (perform L q c) = c_addr c"
    "c_guard (perform L q c) = guards q (c_guard c)"
  using assms
  by (cases q; simp add: map_ok_def and_then_def set_statement_guard_def set_read_timeout_def
      tcp_set_read_timeout_def set_write_timeout_def tcp_set_write_timeout_def
      split: if_splits sum.splits)+

subsection \<open>Properties\<close>

text \<open>On any network, every call of a session is the same five steps: a local check of its arguments
  that may refuse it with nothing sent, one round trip with the command it asks for, the check of
  the response for errors, the interpretation of the response, and the change of the selected
  database; an error in any of them ends it with the steps before it done and none after.\<close>

lemma operations_normal_form:
  "invoke L q c =
     (case asks (c_guard c) q of
        Inl e \<Rightarrow> (Inl e, c)
      | Inr None \<Rightarrow> (Inr Done, perform L q c)
      | Inr (Some cmd) \<Rightarrow>
          (case round_trip L cmd c of
             (Inl e, c) \<Rightarrow> (Inl e, c)
           | (Inr r, c) \<Rightarrow>
               (case check r of
                  Inl e \<Rightarrow> (Inl e, c)
                | Inr r \<Rightarrow> (interprets L q r, c\<lparr>c_database := selects q (c_database c)\<rparr>))))"
  unfolding invoke_normal_form by (rule normal_form_def)

lemma readable_plain:
  "plain_response r \<Longrightarrow> readable reference_libs (\<lambda>r. cbor_encode (ser_response r)) r"
  using ref.decodes [of r] by (simp add: plain_response_def readable_def)

text \<open>Asking the server to shut down opens one connection to its own address, to wake it, exactly
  when the server answers that it is shutting down or answers quietly, and then the call
  succeeds; otherwise it opens none and reports an error.\<close>

lemma shutdown_server_wakes:
  "case shutdown_server L c of (result, c', dialled) \<Rightarrow>
     case fst (round_trip L (cwa_system SC_Shutdown []) c) of
       Inl e \<Rightarrow> result = Inl e \<and> dialled = []
     | Inr response \<Rightarrow>
         if response = R_QuietOk \<or> response = R_Shutdown True \<or> response = R_Shutdown False
         then result = Inr () \<and> dialled = [c_addr c]
         else result = Inl (UnexpectedResponse (debug_response (printable L) response)) \<and> dialled = []"
proof -
  obtain r c' where "round_trip L (cwa_system SC_Shutdown []) c = (r, c')" by fastforce
  moreover from this have "c_addr c' = c_addr c"
    using rt_op.keeps [of L "cwa_system SC_Shutdown []" c] by simp
  ultimately show ?thesis
    by (auto simp: shutdown_server_def unexpected_def split: sum.split response.split bool.splits)
qed

end
