(* ===== verification/Server.thy ===== *)
theory Server
  imports Example
begin

section \<open>A client and the scripted server, interleaved\<close>

text \<open>
  The fake server of the tests in \<open>client.rs\<close> is a thread of its own. Here it runs step by step,
  interleaved with the network and with a client that waits for each answer before its next
  request. The server takes one \<open>read\<close> of at most 1024 bytes for one request, as the comment on
  \<open>MAX_REQUEST_BYTES\<close> says of the real server, and nothing in a request marks its end; a \<open>read\<close>
  waits for bytes unless the connection is closed or has failed. The results: whatever the interleaving, the client receives a prefix of the script; when the network
  delivers each request in one piece, each read is exactly one request and no schedule can get
  stuck; when it does not, the answers run ahead of the requests.
\<close>

subsection \<open>The server's thread\<close>

text \<open>Where the thread stands: before the read for the next response, writing a frame, or gone.\<close>

datatype thread = Serving "response list" | Sending "u8 list" "response list" | Hung_Up

text \<open>What the thread can see: the bytes that have arrived, what it has written, and whether the
  connection is closed or has failed on it. The reads it has made are kept for the statements
  below.\<close>

record server =
  thread :: thread
  inbox :: "u8 list"
  reads :: "u8 list list"
  written :: "u8 list"
  broken :: bool

definition start_server :: "response list \<Rightarrow> server" where
  "start_server responses = \<lparr>thread = Serving responses, inbox = [], reads = [], written = [],
     broken = False\<rparr>"

definition response_frame :: "response \<Rightarrow> u8 list" where
  "response_frame r = server_frame (cbor_encode (ser_response r))"

text \<open>A \<open>read\<close> waits until bytes are there. It returns nothing, or an error, and a write fails, only
  on a connection that is closed or has failed; each ends the thread, and so does the end of the
  script. \<open>write_all\<close> hands over the frame in pieces.\<close>

inductive server_step :: "server \<Rightarrow> server \<Rightarrow> bool" where
  reads_request: "thread s = Serving (r # rs) \<Longrightarrow> inbox s \<noteq> [] \<Longrightarrow>
    server_step s (s\<lparr>thread := Sending (response_frame r) rs, inbox := drop 1024 (inbox s),
      reads := reads s @ [take 1024 (inbox s)]\<rparr>)"
| read_ends: "thread s = Serving (r # rs) \<Longrightarrow> broken s \<Longrightarrow> server_step s (s\<lparr>thread := Hung_Up\<rparr>)"
| script_ends: "thread s = Serving [] \<Longrightarrow> server_step s (s\<lparr>thread := Hung_Up\<rparr>)"
| writes_some: "thread s = Sending bs rs \<Longrightarrow> 0 < k \<Longrightarrow> k \<le> length bs \<Longrightarrow>
    server_step s (s\<lparr>thread := Sending (drop k bs) rs, written := written s @ take k bs\<rparr>)"
| write_fails: "thread s = Sending bs rs \<Longrightarrow> bs \<noteq> [] \<Longrightarrow> broken s \<Longrightarrow>
    server_step s (s\<lparr>thread := Hung_Up\<rparr>)"
| frame_done: "thread s = Sending [] rs \<Longrightarrow> server_step s (s\<lparr>thread := Serving rs\<rparr>)"

inductive_cases server_stepE: "server_step s s'"

subsection \<open>The interleaved system\<close>

text \<open>The requests sent, the bytes on their way to the server, the server, and how many of the
  bytes it has written the client has received.\<close>

record world =
  sent :: "u8 list list"
  in_flight :: "u8 list"
  peer :: server
  received :: nat

definition start_world :: "response list \<Rightarrow> world" where
  "start_world responses =
     \<lparr>sent = [], in_flight = [], peer = start_server responses, received = 0\<rparr>"

text \<open>The bytes the client has received.\<close>

definition got :: "world \<Rightarrow> u8 list" where
  "got w = take (received w) (written (peer w))"

definition frames :: "response list \<Rightarrow> u8 list" where
  "frames rs = concat (map response_frame rs)"

text \<open>The client sends a request when it has received one whole frame for each request before it.
  With \<open>whole\<close>, the network delivers what is in flight in one piece; otherwise any part of it.
  \<open>breaks\<close>: the connection fails on the server's side, at any time.\<close>

inductive world_step :: "libs \<Rightarrow> response list \<Rightarrow> bool \<Rightarrow> world \<Rightarrow> world \<Rightarrow> bool" for L responses whole where
  request: "encode_request L cmd = Inr bytes \<Longrightarrow> bytes \<noteq> [] \<Longrightarrow>
    length (sent w) < length responses \<Longrightarrow> got w = frames (take (length (sent w)) responses) \<Longrightarrow>
    world_step L responses whole w (w\<lparr>sent := sent w @ [bytes], in_flight := in_flight w @ bytes\<rparr>)"
| deliver: "k \<le> length (in_flight w) \<Longrightarrow> whole \<longrightarrow> k = length (in_flight w) \<Longrightarrow>
    world_step L responses whole w
      (w\<lparr>in_flight := drop k (in_flight w),
         peer := (peer w)\<lparr>inbox := inbox (peer w) @ take k (in_flight w)\<rparr>\<rparr>)"
| server: "server_step (peer w) s \<Longrightarrow> world_step L responses whole w (w\<lparr>peer := s\<rparr>)"
| receive: "received w \<le> k \<Longrightarrow> k \<le> length (written (peer w)) \<Longrightarrow>
    world_step L responses whole w (w\<lparr>received := k\<rparr>)"
| breaks: "world_step L responses whole w (w\<lparr>peer := (peer w)\<lparr>broken := True\<rparr>\<rparr>)"

inductive reachable :: "libs \<Rightarrow> response list \<Rightarrow> bool \<Rightarrow> world \<Rightarrow> bool" for L responses whole where
  initially: "reachable L responses whole (start_world responses)"
| step: "reachable L responses whole w \<Longrightarrow> world_step L responses whole w w' \<Longrightarrow>
    reachable L responses whole w'"

lemma frames_simps [simp]: "frames [] = []" "frames (r # rs) = response_frame r @ frames rs"
  "frames (rs @ qs) = frames rs @ frames qs"
  by (simp_all add: frames_def)

lemma response_frame_nonempty [simp]: "response_frame r \<noteq> []"
  using length_to_be_bytes [of "of_nat (length (cbor_encode (ser_response r)))"]
  by (auto simp: response_frame_def server_frame_def)

subsection \<open>What the server writes\<close>

text \<open>Between reads the server has written the first frames of the script, one for each read.\<close>

definition server_inv :: "response list \<Rightarrow> server \<Rightarrow> bool" where
  "server_inv responses s \<longleftrightarrow> length (reads s) \<le> length responses \<and>
     (case thread s of
        Serving rs \<Rightarrow> rs = drop (length (reads s)) responses
          \<and> written s = frames (take (length (reads s)) responses)
      | Sending bs rs \<Rightarrow> rs = drop (length (reads s)) responses
          \<and> written s @ bs = frames (take (length (reads s)) responses)
      | Hung_Up \<Rightarrow> \<exists>p. written s @ p = frames (take (length (reads s)) responses))"

lemma server_inv_start: "server_inv responses (start_server responses)"
  by (simp add: server_inv_def start_server_def)

lemma server_inv_step:
  assumes "server_step s s'" "server_inv responses s"
  shows "server_inv responses s'"
  using assms(1)
proof (cases rule: server_step.cases)
  case (reads_request r rs)
  let ?n = "length (reads s)"
  from reads_request assms(2) have rs: "drop ?n responses = r # rs" "written s = frames (take ?n responses)"
    by (simp_all add: server_inv_def)
  then have n: "?n < length responses" by (metis drop_all leI list.distinct(1))
  then have "drop ?n responses = responses ! ?n # drop (Suc ?n) responses" by (rule Cons_nth_drop_Suc [symmetric])
  with rs n reads_request show ?thesis
    by (simp add: server_inv_def take_Suc_conv_app_nth)
next
  case (writes_some bs rs k)
  with assms(2) show ?thesis by (simp add: server_inv_def)
qed (use assms(2) in \<open>auto simp: server_inv_def\<close>)

lemma server_inv_inbox [simp]: "server_inv responses (s\<lparr>inbox := b\<rparr>) = server_inv responses s"
  by (simp add: server_inv_def split: thread.split)

lemma server_inv_broken [simp]: "server_inv responses (s\<lparr>broken := b\<rparr>) = server_inv responses s"
  by (simp add: server_inv_def split: thread.split)

lemma reachable_server_inv: "reachable L responses whole w \<Longrightarrow> server_inv responses (peer w)"
proof (induction rule: reachable.induct)
  case initially
  then show ?case by (simp add: start_world_def server_inv_start)
next
  case (step w w')
  from step.hyps(2) step.IH show ?case
    by cases (simp_all add: server_inv_step)
qed

text \<open>Unless its connection fails the thread ends only with the script, all of it written.\<close>

definition ends_with_script :: "response list \<Rightarrow> server \<Rightarrow> bool" where
  "ends_with_script responses s \<longleftrightarrow>
     (thread s = Hung_Up \<and> \<not> broken s \<longrightarrow>
        length (reads s) = length responses \<and> written s = frames responses)"

lemma ends_with_script_step:
  assumes "server_step s s'" "server_inv responses s" "ends_with_script responses s"
  shows "ends_with_script responses s'"
  using assms(1)
proof (cases rule: server_step.cases)
  case script_ends
  with assms(2) show ?thesis by (auto simp: server_inv_def ends_with_script_def)
qed (use assms(3) in \<open>simp_all add: ends_with_script_def\<close>)

lemma reachable_ends_with_script:
  "reachable L responses whole w \<Longrightarrow> ends_with_script responses (peer w)"
proof (induction rule: reachable.induct)
  case initially
  then show ?case by (simp add: ends_with_script_def start_world_def start_server_def)
next
  case (step w w')
  from step.hyps(2) show ?case
  proof (cases rule: world_step.cases)
    case (server s)
    with step.IH reachable_server_inv [OF step.hyps(1)] show ?thesis
      by (simp add: ends_with_script_step)
  qed (use step.IH in \<open>simp_all add: ends_with_script_def\<close>)
qed

lemma server_inv_prefix:
  "server_inv responses s \<Longrightarrow> \<exists>p. written s @ p = frames (take (length (reads s)) responses)"
  by (cases "thread s") (auto simp: server_inv_def)

subsection \<open>Requests in one piece\<close>

text \<open>Each read has returned one request, but for at most one request that is on its way whole.\<close>

definition in_step :: "response list \<Rightarrow> world \<Rightarrow> bool" where
  "in_step responses w \<longleftrightarrow>
     length (sent w) \<le> length responses \<and> received w \<le> length (written (peer w)) \<and>
     (sent w = reads (peer w) \<and> in_flight w = [] \<and> inbox (peer w) = []
      \<or> (\<exists>b. b \<noteq> [] \<and> length b \<le> 1024 \<and> sent w = reads (peer w) @ [b]
            \<and> (in_flight w = b \<and> inbox (peer w) = [] \<or> in_flight w = [] \<and> inbox (peer w) = b)))"

lemma got_prefix:
  assumes "server_inv responses (peer w)"
  shows "\<exists>p. got w @ p = frames (take (length (reads (peer w))) responses)"
proof -
  obtain p where "written (peer w) @ p = frames (take (length (reads (peer w))) responses)"
    using server_inv_prefix [OF assms] by blast
  then have "got w @ (drop (received w) (written (peer w)) @ p) =
      frames (take (length (reads (peer w))) responses)"
    unfolding got_def append_assoc [symmetric] append_take_drop_id .
  then show ?thesis by blast
qed

lemma frames_take_Suc:
  "n < length rs \<Longrightarrow> frames (take (Suc n) rs) = frames (take n rs) @ response_frame (rs ! n)"
  by (simp add: take_Suc_conv_app_nth)

lemma not_answered_yet:
  assumes "server_inv responses (peer w)" "length (reads (peer w)) < length responses"
  shows "got w \<noteq> frames (take (Suc (length (reads (peer w)))) responses)"
proof
  assume "got w = frames (take (Suc (length (reads (peer w)))) responses)"
  moreover obtain p where "got w @ p = frames (take (length (reads (peer w))) responses)"
    using got_prefix [OF assms(1)] by blast
  ultimately show False using frames_take_Suc [OF assms(2)] by simp
qed

lemma in_step_start: "in_step responses (start_world responses)"
  by (simp add: in_step_def start_world_def start_server_def)

lemma server_step_written:
  "server_step s s' \<Longrightarrow> length (written s) \<le> length (written s')"
  by (erule server_step.cases) simp_all

lemma in_step_server:
  assumes "server_step (peer w) s" "in_step responses w"
  shows "in_step responses (w\<lparr>peer := s\<rparr>)"
  using assms(1)
proof (cases rule: server_step.cases)
  case (reads_request r rs)
  with assms(2) show ?thesis by (auto simp: in_step_def)
next
  case (writes_some bs rs k)
  with assms(2) show ?thesis by (auto simp: in_step_def)
qed (use assms(2) in \<open>simp_all add: in_step_def\<close>)

lemma in_step_step:
  assumes "world_step L responses True w w'" "server_inv responses (peer w)" "in_step responses w"
  shows "in_step responses w'"
  using assms(1)
proof (cases rule: world_step.cases)
  case (request cmd bytes)
  have "length bytes \<le> 1024"
    using request(2) by (auto simp: encode_request_def max_request_bytes_def split: if_splits)
  moreover have "sent w = reads (peer w) \<and> in_flight w = [] \<and> inbox (peer w) = []"
    using assms(3) request(4,5) not_answered_yet [OF assms(2)] by (auto simp: in_step_def)
  ultimately show ?thesis using request assms(3) by (auto simp: in_step_def)
next
  case (deliver k)
  then show ?thesis using assms(3) by (auto simp: in_step_def)
next
  case (server s)
  then show ?thesis using in_step_server assms(3) by simp
next
  case (receive k)
  then show ?thesis using assms(3) by (auto simp: in_step_def)
next
  case breaks
  then show ?thesis using assms(3) by (auto simp: in_step_def)
qed

lemma reachable_in_step: "reachable L responses True w \<Longrightarrow> in_step responses w"
proof (induction rule: reachable.induct)
  case (step w w')
  then show ?case using in_step_step reachable_server_inv by blast
qed (rule in_step_start)

subsection \<open>Progress\<close>

lemma reachable_steps:
  "(world_step L responses whole)\<^sup>*\<^sup>* w w' \<Longrightarrow> reachable L responses whole w \<Longrightarrow>
   reachable L responses whole w'"
  by (induction rule: rtranclp_induct) (auto intro: reachable.step)

lemma server_steps:
  "server_step\<^sup>*\<^sup>* (peer w) s \<Longrightarrow> (world_step L responses whole)\<^sup>*\<^sup>* w (w\<lparr>peer := s\<rparr>)"
proof (induction rule: rtranclp_induct)
  case (step s s')
  have "world_step L responses whole (w\<lparr>peer := s\<rparr>) (w\<lparr>peer := s\<rparr>\<lparr>peer := s'\<rparr>)"
    using step.hyps(2) by (intro world_step.server) simp
  with step.IH show ?case by simp
qed simp

lemma sends_frame:
  assumes "thread s = Sending bs rs"
  shows "server_step\<^sup>*\<^sup>* s (s\<lparr>thread := Serving rs, written := written s @ bs\<rparr>)"
proof (cases "bs = []")
  case True
  with assms server_step.frame_done [of s rs] show ?thesis by simp
next
  case False
  then have "server_step s (s\<lparr>thread := Sending [] rs, written := written s @ bs\<rparr>)"
    using server_step.writes_some [OF assms, of "length bs"] by simp
  moreover have "server_step (s\<lparr>thread := Sending [] rs, written := written s @ bs\<rparr>)
      (s\<lparr>thread := Serving rs, written := written s @ bs\<rparr>)"
    using server_step.frame_done [of "s\<lparr>thread := Sending [] rs, written := written s @ bs\<rparr>" rs]
    by (cases s) simp
  ultimately show ?thesis by simp
qed

lemma answers_request:
  assumes "thread s = Serving (r # rs)" "inbox s \<noteq> []"
  shows "server_step\<^sup>*\<^sup>* s (s\<lparr>thread := Serving rs, inbox := drop 1024 (inbox s),
    reads := reads s @ [take 1024 (inbox s)], written := written s @ response_frame r\<rparr>)"
proof -
  let ?s = "s\<lparr>thread := Sending (response_frame r) rs, inbox := drop 1024 (inbox s),
    reads := reads s @ [take 1024 (inbox s)]\<rparr>"
  have "server_step s ?s" using assms by (rule server_step.reads_request)
  moreover have "server_step\<^sup>*\<^sup>* ?s (?s\<lparr>thread := Serving rs, written := written ?s @ response_frame r\<rparr>)"
    by (rule sends_frame) simp
  ultimately have "server_step\<^sup>*\<^sup>* s (?s\<lparr>thread := Serving rs, written := written ?s @ response_frame r\<rparr>)"
    by (rule converse_rtranclp_into_rtranclp)
  then show ?thesis by (cases s) simp
qed

lemma becomes_ready:
  assumes "thread (peer w) \<noteq> Hung_Up"
  shows "\<exists>w' rs. (world_step L responses whole)\<^sup>*\<^sup>* w w' \<and> thread (peer w') = Serving rs
    \<and> sent w' = sent w \<and> received w' = received w \<and> broken (peer w') = broken (peer w)"
proof (cases "thread (peer w)")
  case (Serving rs)
  then show ?thesis by blast
next
  case (Sending bs rs)
  from server_steps [OF sends_frame [OF this], of L responses whole] show ?thesis
    by (intro exI [of _ "w\<lparr>peer := (peer w)\<lparr>thread := Serving rs, written := written (peer w) @ bs\<rparr>\<rparr>"])
      simp
qed (use assms in simp)

lemma receives_all:
  assumes "received w \<le> length (written (peer w))"
  shows "world_step L responses whole w (w\<lparr>received := length (written (peer w))\<rparr>)"
  using world_step.receive [OF assms order.refl] .

lemma answered:
  assumes "reachable L responses True w" "thread (peer w) = Serving rs" "sent w = reads (peer w)"
  shows "\<exists>w'. (world_step L responses True)\<^sup>*\<^sup>* w w' \<and> sent w' = sent w
    \<and> got w' = frames (take (length (sent w)) responses) \<and> thread (peer w') = Serving rs
    \<and> broken (peer w') = broken (peer w)"
proof -
  let ?w = "w\<lparr>received := length (written (peer w))\<rparr>"
  have "received w \<le> length (written (peer w))"
    using reachable_in_step [OF assms(1)] by (simp add: in_step_def)
  then have "(world_step L responses True)\<^sup>*\<^sup>* w ?w" by (intro r_into_rtranclp receives_all)
  moreover have "got ?w = frames (take (length (sent w)) responses)"
    using reachable_server_inv [OF assms(1)] assms(2,3) by (simp add: got_def server_inv_def)
  moreover have "sent ?w = sent w" "thread (peer ?w) = Serving rs" "broken (peer ?w) = broken (peer w)"
    using assms(2) by simp_all
  ultimately show ?thesis by blast
qed

lemma outstanding_answered:
  assumes "reachable L responses True w" "thread (peer w) = Serving rs"
    and "sent w = reads (peer w) @ [b]"
  shows "\<exists>w' rs. (world_step L responses True)\<^sup>*\<^sup>* w w' \<and> sent w' = sent w
    \<and> got w' = frames (take (length (sent w)) responses) \<and> thread (peer w') = Serving rs
    \<and> broken (peer w') = broken (peer w)"
proof -
  let ?n = "length (reads (peer w))"
  let ?w1 = "w\<lparr>in_flight := [], peer := (peer w)\<lparr>inbox := inbox (peer w) @ in_flight w\<rparr>\<rparr>"
  have i: "in_step responses w" by (rule reachable_in_step [OF assms(1)])
  with assms(3) have n: "?n < length responses" and b: "inbox (peer w) @ in_flight w = b" "b \<noteq> []"
    "length b \<le> 1024" by (auto simp: in_step_def)
  have "rs = drop ?n responses"
    using reachable_server_inv [OF assms(1)] assms(2) by (simp add: server_inv_def)
  with n obtain r rs' where r: "rs = r # rs'" by (metis Cons_nth_drop_Suc)
  have s1: "world_step L responses True w ?w1"
    using world_step.deliver [of "length (in_flight w)" w True L responses] by simp
  let ?s = "(peer w)\<lparr>thread := Serving rs', inbox := [], reads := reads (peer w) @ [b],
    written := written (peer w) @ response_frame r\<rparr>"
  have "server_step\<^sup>*\<^sup>* (peer ?w1) ?s"
    using answers_request [of "peer ?w1" r rs'] assms(2) b r by simp
  from server_steps [OF this] have s2: "(world_step L responses True)\<^sup>*\<^sup>* ?w1 (?w1\<lparr>peer := ?s\<rparr>)" .
  with s1 have s: "(world_step L responses True)\<^sup>*\<^sup>* w (?w1\<lparr>peer := ?s\<rparr>)"
    by (rule converse_rtranclp_into_rtranclp)
  have "\<exists>w'. (world_step L responses True)\<^sup>*\<^sup>* (?w1\<lparr>peer := ?s\<rparr>) w' \<and> sent w' = sent w
      \<and> got w' = frames (take (length (sent w)) responses) \<and> thread (peer w') = Serving rs'
      \<and> broken (peer w') = broken (peer w)"
    using answered [OF reachable_steps [OF s assms(1)], of rs'] assms(3) by simp
  with s show ?thesis by (meson rtranclp_trans)
qed

lemma all_answered:
  assumes "reachable L responses True w" and "thread (peer w) \<noteq> Hung_Up"
  shows "\<exists>w' rs. (world_step L responses True)\<^sup>*\<^sup>* w w' \<and> sent w' = sent w
    \<and> got w' = frames (take (length (sent w)) responses) \<and> thread (peer w') = Serving rs
    \<and> broken (peer w') = broken (peer w)"
proof -
  obtain w1 rs where w1: "(world_step L responses True)\<^sup>*\<^sup>* w w1" "thread (peer w1) = Serving rs"
    "sent w1 = sent w" "broken (peer w1) = broken (peer w)" using becomes_ready [OF assms(2)] by blast
  have r1: "reachable L responses True w1" by (rule reachable_steps [OF w1(1) assms(1)])
  then have "in_step responses w1" by (rule reachable_in_step)
  then consider "sent w1 = reads (peer w1)" | b where "sent w1 = reads (peer w1) @ [b]"
    by (auto simp: in_step_def)
  then have "\<exists>w' rs. (world_step L responses True)\<^sup>*\<^sup>* w1 w' \<and> sent w' = sent w1
      \<and> got w' = frames (take (length (sent w1)) responses) \<and> thread (peer w') = Serving rs
      \<and> broken (peer w') = broken (peer w1)"
    using answered [OF r1 w1(2)] outstanding_answered [OF r1 w1(2)] by cases blast+
  with w1 show ?thesis by (metis rtranclp_trans)
qed

lemma reads_in_step:
  assumes "reachable L responses True w"
  shows "(\<exists>unread. sent w = reads (peer w) @ unread \<and> length unread \<le> 1)
    \<and> (\<exists>p. got w @ p = frames (take (length (sent w)) responses))"
proof -
  have i: "in_step responses w" by (rule reachable_in_step [OF assms])
  obtain unread where u: "sent w = reads (peer w) @ unread" "length unread \<le> 1"
    using i by (auto simp: in_step_def)
  obtain p where p: "got w @ p = frames (take (length (reads (peer w))) responses)"
    using got_prefix [OF reachable_server_inv [OF assms]] by blast
  have "take (length (sent w)) responses = take (length (reads (peer w))) responses
      @ take (length unread) (drop (length (reads (peer w))) responses)"
    using u(1) by (simp add: take_add)
  with p have "got w @ (p @ frames (take (length unread) (drop (length (reads (peer w))) responses))) =
      frames (take (length (sent w)) responses)" by (metis append.assoc frames_simps(3))
  with u show ?thesis by blast
qed

subsection \<open>Properties\<close>

lemma frames_spawn: "avail (rx (spawn responses)) = frames responses"
  by (induction responses) (simp_all add: response_frame_def, simp add: spawn_def)

text \<open>A state of the system with a request on its way.\<close>

definition help_request :: "u8 list" where
  "help_request = cbor_encode (ser_command_with_args (cwa_system SC_Help []))"

definition asked :: world where
  "asked = \<lparr>sent = [help_request], in_flight = help_request, peer = start_server [R_Ok], received = 0\<rparr>"

lemma help_request_encodes: "encode_request reference_libs (cwa_system SC_Help []) = Inr help_request"
  using small_system_command [of SC_Help]
  by (simp add: encode_request_def and_then_def map_err_def max_request_bytes_def help_request_def
      del: cbor_encode.simps)

lemma help_request_length: "2 \<le> length help_request"
  by (simp add: help_request_def ser_command_with_args_def ser_list_def enc_text_def length_enc_head)

lemma asked_reachable: "reachable reference_libs [R_Ok] whole asked"
proof -
  have "help_request \<noteq> []" using help_request_length by auto
  from reachable.step [OF reachable.initially world_step.request [OF help_request_encodes this],
      of "[R_Ok]" whole]
  show ?thesis by (simp add: start_world_def asked_def got_def start_server_def)
qed

text \<open>Whatever the schedule, and however the network cuts the requests, what the client has
  received is a prefix of the frames of the script, at most one frame for each read the server
  has made.\<close>

lemma received_is_prefix_of_script:
  assumes "reachable L responses whole w"
  shows "\<exists>p q. got w @ p = frames (take (length (reads (peer w))) responses)
    \<and> got w @ q = avail (rx (spawn responses))"
proof -
  obtain p where p: "got w @ p = frames (take (length (reads (peer w))) responses)"
    using got_prefix [OF reachable_server_inv [OF assms]] by blast
  have "frames responses = frames (take (length (reads (peer w))) responses)
      @ frames (drop (length (reads (peer w))) responses)"
    by (metis append_take_drop_id frames_simps(3))
  with p show ?thesis unfolding frames_spawn by (metis append.assoc)
qed

theorem received_is_prefix_of_script_witness:
  "\<exists>p q. got asked @ p = frames (take (length (reads (peer asked))) [R_Ok])
    \<and> got asked @ q = avail (rx (spawn [R_Ok]))"
  by (rule received_is_prefix_of_script [OF asked_reachable [of False]])

text \<open>C22: when requests keep to the limit, the client waits for each answer and the network
  delivers a request in one piece, every single \<open>read\<close> of the server returns exactly one request,
  in order, although nothing in the bytes marks where a request ends; and the answers never run
  ahead of the requests.\<close>

theorem each_read_is_one_request:
  assumes "reachable L responses True w"
  shows "(\<exists>unread. sent w = reads (peer w) @ unread \<and> length unread \<le> 1)
    \<and> (\<exists>p. got w @ p = frames (take (length (sent w)) responses))"
  by (rule reads_in_step [OF assms])

theorem each_read_is_one_request_witness:
  "(\<exists>unread. sent asked = reads (peer asked) @ unread \<and> length unread \<le> 1)
    \<and> (\<exists>p. got asked @ p = frames (take (length (sent asked)) [R_Ok]))"
  by (rule each_read_is_one_request [OF asked_reachable])

text \<open>Nothing gets stuck: in every state the client and the server can reach with requests
  delivered in one piece, as long as the server has not hung up, the system can go on, with no
  further request, until every request sent has its answer.\<close>

lemma answers_arrive:
  assumes "reachable L responses True w" and "thread (peer w) \<noteq> Hung_Up"
  shows "\<exists>w'. (world_step L responses True)\<^sup>*\<^sup>* w w' \<and> sent w' = sent w
    \<and> got w' = frames (take (length (sent w)) responses)"
  using all_answered [OF assms] by blast

theorem answers_arrive_witness:
  "\<exists>w'. (world_step reference_libs [R_Ok] True)\<^sup>*\<^sup>* asked w' \<and> sent w' = [help_request]
    \<and> got w' = response_frame R_Ok"
  using answers_arrive [OF asked_reachable]
  by (simp add: asked_def start_server_def)

text \<open>C23: the delivery in one piece is needed: a request that arrives in two pieces can be taken for
  two requests and answered twice, so that the second answer, meant for the next request, is
  already there when the client sends it.\<close>

theorem split_request_answered_twice:
  assumes "encode_request L cmd = Inr bytes" and "2 \<le> length bytes"
  shows "\<exists>w. reachable L [r1, r2] False w \<and> sent w = [bytes]
    \<and> reads (peer w) = [take 1 bytes, drop 1 bytes] \<and> got w = frames [r1, r2]"
proof -
  let ?R = "reachable L [r1, r2] False"
  let ?S = "(world_step L [r1, r2] False)\<^sup>*\<^sup>*"
  let ?p = "\<lambda>rs i rd wn. \<lparr>thread = Serving rs, inbox = i, reads = rd, written = wn, broken = False\<rparr>"
  let ?w = "\<lambda>f p. \<lparr>sent = [bytes], in_flight = f, peer = p, received = 0\<rparr>"
  have n: "length bytes \<le> 1024" "bytes \<noteq> []" "take 1 bytes \<noteq> []" "drop 1 bytes \<noteq> []"
    using assms by (auto simp: encode_request_def max_request_bytes_def split: if_splits)
  have start: "start_world [r1, r2] =
      \<lparr>sent = [], in_flight = [], peer = ?p [r1, r2] [] [] [], received = 0\<rparr>"
    by (simp add: start_world_def start_server_def)
  have "?R (?w bytes (?p [r1, r2] [] [] []))"
    using reachable.step [OF reachable.initially world_step.request [OF assms(1) n(2)], of "[r1, r2]" False]
    by (simp add: start got_def)
  from reachable.step [OF this world_step.deliver [of 1]] n(2)
  have "?R (?w (drop 1 bytes) (?p [r1, r2] (take 1 bytes) [] []))" by (simp add: Suc_le_eq)
  moreover have "server_step\<^sup>*\<^sup>* (?p [r1, r2] (take 1 bytes) [] [])
      (?p [r2] [] [take 1 bytes] (response_frame r1))"
    using answers_request [of "?p [r1, r2] (take 1 bytes) [] []" r1 "[r2]"] n(3) by simp
  ultimately have "?R (?w (drop 1 bytes) (?p [r2] [] [take 1 bytes] (response_frame r1)))"
    using server_steps [of "?w (drop 1 bytes) (?p [r1, r2] (take 1 bytes) [] [])"] reachable_steps by fastforce
  from reachable.step [OF this world_step.deliver [of "length (drop 1 bytes)"]]
  have "?R (?w [] (?p [r2] (drop 1 bytes) [take 1 bytes] (response_frame r1)))" by simp
  moreover have "server_step\<^sup>*\<^sup>* (?p [r2] (drop 1 bytes) [take 1 bytes] (response_frame r1))
      (?p [] [] [take 1 bytes, drop 1 bytes] (frames [r1, r2]))"
    using answers_request [of "?p [r2] (drop 1 bytes) [take 1 bytes] (response_frame r1)" r2 "[]"] n by simp
  ultimately have r: "?R (?w [] (?p [] [] [take 1 bytes, drop 1 bytes] (frames [r1, r2])))"
    using server_steps [of "?w [] (?p [r2] (drop 1 bytes) [take 1 bytes] (response_frame r1))"]
      reachable_steps by fastforce
  from reachable.step [OF this receives_all] show ?thesis
    by (intro exI [of _ "(?w [] (?p [] [] [take 1 bytes, drop 1 bytes] (frames [r1, r2])))
        \<lparr>received := length (frames [r1, r2])\<rparr>"]) (simp add: got_def)
qed

theorem split_request_answered_twice_witness:
  "\<exists>w. reachable reference_libs [R_Ok, R_QuietOk] False w \<and> sent w = [help_request]
    \<and> reads (peer w) = [take 1 help_request, drop 1 help_request] \<and> got w = frames [R_Ok, R_QuietOk]"
  by (rule split_request_answered_twice [OF help_request_encodes help_request_length])

end
