(* ===== verification/Network.thy ===== *)
theory Network
  imports Operations
begin

section \<open>Sessions on any network\<close>

text \<open>
  The specification of \<open>Operations\<close> has a server that answers. Here there is only a stream, whose
  bytes may be anything and may be interrupted by errors, and whose writes may be cut, refused or
  fail at any point. All that matters of its reading side are its \<open>deliveries\<close>: the runs of bytes
  between errors that are not interruptions; of its writing side, what \<open>write_run\<close> says of each
  request. A session is a function of the two (\<open>net_run\<close>), total and without any assumption on
  either; what a hung-up server, a timeout inside an answer and a write that fails inside a request
  do to a session follows from it.
\<close>

subsection \<open>A response from the network\<close>

type_synonym network = "(u8 list \<times> io_error) list"

text \<open>A complete frame is cut off the current run; a read that meets the end of the run loses what
  was left of it and the next one starts behind the error.\<close>

definition net_response :: "libs \<Rightarrow> network \<Rightarrow> (error + response) \<times> network" where
  "net_response L ds =
     (case next_run ds of (bs, e) # ds' \<Rightarrow>
        (parse_frame L bs e,
         if frame_length bs \<le> length bs then (drop (frame_length bs) bs, e) # ds' else next_run ds'))"

lemma next_run_deliveries [simp]: "next_run (deliveries evs) = deliveries evs"
  by (simp add: next_run_def deliveries_def)

lemma read_response_network:
  "\<exists>evs. read_response L s = (fst (net_response L (deliveries (rx s))), s\<lparr>rx := evs\<rparr>)
     \<and> deliveries evs = snd (net_response L (deliveries (rx s)))"
proof -
  have "net_response L (deliveries (rx s)) = (parse_frame L (avail (rx s)) (rx_end (rx s)),
      if frame_length (avail (rx s)) \<le> length (avail (rx s))
      then (drop (frame_length (avail (rx s))) (avail (rx s)), rx_end (rx s)) # later (rx s)
      else next_run (later (rx s)))"
    unfolding net_response_def next_run_deliveries by (simp add: deliveries_def)
  with read_response_eq [of L s] show ?thesis
    by (auto simp: deliveries_def split: if_splits)
qed

subsection \<open>Calls and sessions\<close>

text \<open>The two sides of a stream, and one request of \<open>n\<close> bytes with its answer: nothing is read
  when the write fails. The number is that of the bytes the stream took.\<close>

type_synonym link = "wr_event list \<times> network"

definition exchange :: "libs \<Rightarrow> nat \<Rightarrow> link \<Rightarrow> (error + response) \<times> nat \<times> link" where
  "exchange L n l =
     (case l of (ws, ds) \<Rightarrow>
        case write_run n ws of
          (k, Some e, ws) \<Rightarrow> (Inl (from_io e), k, ws, ds)
        | (k, None, ws) \<Rightarrow> (case net_response L ds of (r, ds) \<Rightarrow> (r, k, ws, ds)))"

text \<open>A call in a state of database, guard and link; it tells which command it sent, if any, and
  how many bytes of its encoding were taken.\<close>

type_synonym net_state = "string option \<times> bool \<times> link"
type_synonym attempts = "(command_with_args \<times> nat) list"

definition net_call :: "libs \<Rightarrow> call \<Rightarrow> net_state \<Rightarrow> (error + reply) \<times> attempts \<times> net_state" where
  "net_call L q st =
     (case st of (d, g, l) \<Rightarrow>
        case asks g q of
          Inl e \<Rightarrow> (Inl e, [], st)
        | Inr None \<Rightarrow> (Inr Done, [], (d, guards q g, l))
        | Inr (Some cmd) \<Rightarrow>
            (case encode_request L cmd of
               Inl e \<Rightarrow> (Inl e, [], st)
             | Inr bytes \<Rightarrow>
                 (case exchange L (length bytes) l of (r, k, l) \<Rightarrow>
                    case and_then r check of
                      Inl e \<Rightarrow> (Inl e, [(cmd, k)], (d, g, l))
                    | Inr r' \<Rightarrow> (interprets L q r', [(cmd, k)], (selects q d, g, l)))))"

fun net_run :: "libs \<Rightarrow> call list \<Rightarrow> net_state \<Rightarrow> (error + reply) list \<times> attempts \<times> net_state" where
  "net_run L [] st = ([], [], st)"
| "net_run L (q # qs) st =
     (case net_call L q st of (r, xs, st) \<Rightarrow>
        case net_run L qs st of (rs, ys, st) \<Rightarrow> (r # rs, xs @ ys, st))"

text \<open>The state of a client, the bytes of what was sent, and the client after some of them, in a
  state of the model.\<close>

definition link_of :: "tcp_stream \<Rightarrow> link" where
  "link_of s = (wr s, deliveries (rx s))"

definition net_state :: "client \<Rightarrow> net_state" where
  "net_state c = (c_database c, c_guard c, link_of (c_stream c))"

definition wire_bytes :: "libs \<Rightarrow> attempts \<Rightarrow> u8 list" where
  "wire_bytes L sent = concat (map (\<lambda>(cmd, k). take k (request_bytes L cmd)) sent)"

lemma wire_bytes_simps [simp]:
  "wire_bytes L [] = []"
  "wire_bytes L ((cmd, k) # sent) = take k (request_bytes L cmd) @ wire_bytes L sent"
  "wire_bytes L (xs @ ys) = wire_bytes L xs @ wire_bytes L ys"
  by (simp_all add: wire_bytes_def)

definition stands :: "libs \<Rightarrow> client \<Rightarrow> attempts \<Rightarrow> net_state \<Rightarrow> client \<Rightarrow> bool" where
  "stands L c sent st c' \<longleftrightarrow>
     st = net_state c' \<and> c_addr c' = c_addr c
     \<and> tx (c_stream c') = tx (c_stream c) @ wire_bytes L sent"

lemma stands_trans: "stands L c xs st c' \<Longrightarrow> stands L c' ys st' c'' \<Longrightarrow> stands L c (xs @ ys) st' c''"
  by (simp add: stands_def)

lemma request_bytes_eq: "encode_request L cmd = Inr bytes \<Longrightarrow> request_bytes L cmd = bytes"
  by (auto simp: encode_request_def request_bytes_def split: if_splits sum.splits)

lemma round_trip_network:
  assumes "encode_request L cmd = Inr bytes"
    and "exchange L (length bytes) (link_of (c_stream c)) = (a, k, l)"
  shows "\<exists>c'. round_trip L cmd c = (a, c') \<and> stands L c [(cmd, k)] (c_database c, c_guard c, l) c'"
proof -
  obtain j r ws where j: "write_run (length bytes) (wr (c_stream c)) = (j, r, ws)" by (metis prod_cases3)
  let ?s = "(c_stream c)\<lparr>tx := tx (c_stream c) @ take j bytes, wr := ws\<rparr>"
  have w: "write_request L cmd (c_stream c) = (case r of None \<Rightarrow> Inr () | Some e \<Rightarrow> Inl (from_io e), ?s)"
    using assms(1) j by (simp add: write_request_eq)
  show ?thesis
  proof (cases r)
    case None
    obtain evs where "read_response L ?s =
        (fst (net_response L (deliveries (rx (c_stream c)))), ?s\<lparr>rx := evs\<rparr>)"
      "deliveries evs = snd (net_response L (deliveries (rx (c_stream c))))"
      using read_response_network [of L ?s] by auto
    with None w j assms show ?thesis
      by (auto simp: round_trip_def stands_def net_state_def link_of_def exchange_def request_bytes_eq
          split: prod.splits)
  next
    case (Some e)
    with w j assms show ?thesis
      by (auto simp: round_trip_def stands_def net_state_def link_of_def exchange_def request_bytes_eq)
  qed
qed

lemma invoke_network:
  assumes "net_call L q (net_state c) = (r, xs, st')"
  shows "\<exists>c'. invoke L q c = (r, c') \<and> stands L c xs st' c'"
proof (cases "asks (c_guard c) q")
  case (Inl e)
  with assms show ?thesis
    by (auto simp: net_call_def invoke_normal_form normal_form_def stands_def net_state_def)
next
  case (Inr m)
  show ?thesis
  proof (cases m)
    case None
    with Inr have "asks (c_guard c) q = Inr None" by simp
    with assms show ?thesis
      by (auto simp: net_call_def invoke_normal_form normal_form_def stands_def net_state_def link_of_def setting_keeps)
  next
    case (Some cmd)
    show ?thesis
    proof (cases "encode_request L cmd")
      case (Inl e)
      with Inr Some assms show ?thesis
        by (auto simp: net_call_def invoke_normal_form normal_form_def round_trip_unsent stands_def net_state_def)
    next
      case enc: (Inr bytes)
      obtain a k l where a: "exchange L (length bytes) (link_of (c_stream c)) = (a, k, l)"
        by (metis prod_cases3)
      obtain c' where c': "round_trip L cmd c = (a, c')" "stands L c [(cmd, k)] (c_database c, c_guard c, l) c'"
        using round_trip_network [OF enc a] by auto
      show ?thesis
      proof (cases "and_then a check")
        case (Inl e)
        with c' Inr Some enc a assms(1) show ?thesis
          by (cases a) (auto simp: net_call_def net_state_def invoke_normal_form normal_form_def and_then_def)
      next
        case checked: (Inr r')
        then obtain r0 where "a = Inr r0" "check r0 = Inr r'" by auto
        with c' Inr Some enc a assms(1) show ?thesis
          by (auto simp: net_call_def net_state_def invoke_normal_form normal_form_def and_then_def stands_def)
      qed
    qed
  qed
qed

lemma invoke_all_network:
  "net_run L qs (net_state c) = (rs, xs, st') \<Longrightarrow> \<exists>c'. invoke_all L qs c = (rs, c') \<and> stands L c xs st' c'"
proof (induction qs arbitrary: c rs xs)
  case Nil
  then show ?case by (auto simp: stands_def)
next
  case (Cons q qs)
  obtain r xs1 st1 where s1: "net_call L q (net_state c) = (r, xs1, st1)" by (metis prod_cases3)
  obtain rs2 xs2 st2 where s2: "net_run L qs st1 = (rs2, xs2, st2)" by (metis prod_cases3)
  from Cons.prems(1) s1 s2 have eqs: "rs = r # rs2" "xs = xs1 @ xs2" "st' = st2" by simp_all
  obtain c1 where i: "invoke L q c = (r, c1)" "stands L c xs1 st1 c1"
    using invoke_network [OF s1] by blast
  then have "st1 = net_state c1" by (simp add: stands_def)
  with s2 eqs(3) obtain c2 where "invoke_all L qs c1 = (rs2, c2)" "stands L c1 xs2 st' c2"
    using Cons.IH [of c1 rs2 xs2] by auto
  moreover from this(2) have "stands L c xs st' c2" using stands_trans [OF i(2)] eqs(2) by simp
  ultimately show ?case using i(1) eqs(1) by simp
qed

lemma net_run_append:
  "net_run L (qs1 @ qs2) st =
     (case net_run L qs1 st of (rs1, xs1, st1) \<Rightarrow>
        case net_run L qs2 st1 of (rs2, xs2, st2) \<Rightarrow> (rs1 @ rs2, xs1 @ xs2, st2))"
  by (induction qs1 arbitrary: st) (simp_all split: prod.split)

subsection \<open>Writes that go through\<close>

text \<open>What the writing side has in store behind some requests, when it takes all of them.\<close>

fun takes :: "libs \<Rightarrow> command_with_args list \<Rightarrow> wr_event list \<Rightarrow> wr_event list option" where
  "takes L [] ws = Some ws"
| "takes L (cmd # cmds) ws =
     (case write_run (length (request_bytes L cmd)) ws of
        (k, Some e, ws) \<Rightarrow> None
      | (k, None, ws) \<Rightarrow> takes L cmds ws)"

lemma takes_accepting: "accepting ws \<Longrightarrow> \<exists>ws'. takes L cmds ws = Some ws' \<and> accepting ws'"
proof (induction cmds arbitrary: ws)
  case (Cons cmd cmds)
  from write_run_accepting [OF Cons.prems, of "length (request_bytes L cmd)"] Cons.IH show ?case by fastforce
qed simp

lemma takes_append:
  "takes L (xs @ ys) ws = Some ws'' \<longleftrightarrow> (\<exists>ws'. takes L xs ws = Some ws' \<and> takes L ys ws' = Some ws'')"
  by (induction xs arbitrary: ws) (auto split: prod.splits option.splits)

definition in_full :: "libs \<Rightarrow> command_with_args \<Rightarrow> command_with_args \<times> nat" where
  "in_full L cmd = (cmd, length (request_bytes L cmd))"

lemma wire_bytes_in_full [simp]:
  "wire_bytes L (map (in_full L) cmds) = concat (map (request_bytes L) cmds)"
  by (induction cmds) (simp_all add: in_full_def)

lemma exchange_takes:
  assumes "takes L [cmd] ws = Some ws'" and "encode_request L cmd = Inr bytes"
  shows "exchange L (length bytes) (ws, ds) = (fst (net_response L ds), length bytes, ws', snd (net_response L ds))"
  using assms write_run_all_or_error [of "length bytes" ws]
  by (auto simp: exchange_def request_bytes_eq split: prod.splits option.splits)

lemma round_trip_takes:
  assumes "takes L [cmd] (wr (c_stream c)) = Some ws" and "encode_request L cmd = Inr bytes"
    and "net_response L (deliveries (rx (c_stream c))) = (a, ds)"
  shows "\<exists>c'. round_trip L cmd c = (a, c') \<and> stands L c [in_full L cmd] (c_database c, c_guard c, ws, ds) c'"
  using round_trip_network [OF assms(2), of c] exchange_takes [OF assms(1,2)] assms(2,3)
  by (auto simp: link_of_def in_full_def request_bytes_eq)

lemma round_trip_accepting:
  assumes "accepting (wr (c_stream c))" and "encode_request L cmd = Inr bytes"
  shows "\<exists>c'. round_trip L cmd c = (fst (net_response L (deliveries (rx (c_stream c)))), c')"
proof -
  obtain ws where "takes L [cmd] (wr (c_stream c)) = Some ws" using takes_accepting [OF assms(1)] by blast
  from round_trip_takes [OF this assms(2) surjective_pairing] show ?thesis by blast
qed

subsection \<open>A server that answers\<close>

lemma net_response_frame:
  assumes "body \<noteq> []" "length body \<le> unat max_response_bytes"
  shows "net_response L ((server_frame body @ rest, e) # ds) =
    (map_err Decode (from_slice L body), (rest, e) # ds)"
proof -
  have "length (server_frame body) = 8 + length body" by (simp add: server_frame_def)
  then show ?thesis
    using parse_frame_body(1) [OF assms, of L rest e] parse_frame_body(2) [OF assms, of rest]
    by (simp add: net_response_def next_run_def)
qed

lemma net_call_spec:
  assumes "spec_call L server q (d, g, s) = (r, xs, d', g', s')"
    and "list_all (\<lambda>(cmd, r). readable L body r) xs" and "takes L (map fst xs) ws = Some ws'"
  shows "net_call L q (d, g, ws, (concat (map (\<lambda>(cmd, r). server_frame (body r)) xs) @ rest, e) # ds) =
    (r, map (in_full L \<circ> fst) xs, d', g', ws', (rest, e) # ds)"
proof (cases "asks g q")
  case (Inl err)
  with assms show ?thesis by (auto simp: spec_call_def net_call_def)
next
  case (Inr m)
  show ?thesis
  proof (cases m)
    case None
    with Inr assms show ?thesis by (auto simp: spec_call_def net_call_def)
  next
    case (Some cmd)
    show ?thesis
    proof (cases "encode_request L cmd")
      case (Inl err)
      with Inr Some assms show ?thesis by (auto simp: spec_call_def net_call_def)
    next
      case enc: (Inr bytes)
      obtain a t where a: "server s cmd = (a, t)" by fastforce
      with Inr Some enc assms(1) have xs: "xs = [(cmd, a)]"
        by (simp add: spec_call_def split: sum.splits)
      with assms(2) have "net_response L ((server_frame (body a) @ rest, e) # ds) = (Inr a, (rest, e) # ds)"
        by (simp add: net_response_frame readable_def map_err_def)
      then have "exchange L (length bytes) (ws, (server_frame (body a) @ rest, e) # ds) =
          (Inr a, length bytes, ws', (rest, e) # ds)"
        using exchange_takes [of L cmd ws ws' bytes] enc assms(3) xs by simp
      with Inr Some enc a assms(1) xs show ?thesis
        by (cases "check a") (auto simp: spec_call_def net_call_def and_then_def in_full_def request_bytes_eq)
    qed
  qed
qed

lemma net_run_spec:
  "spec_run L server qs (d, g, s) = (rs, xs, d', g', s') \<Longrightarrow>
   list_all (\<lambda>(cmd, r). readable L body r) xs \<Longrightarrow> takes L (map fst xs) ws = Some ws' \<Longrightarrow>
   net_run L qs (d, g, ws, (concat (map (\<lambda>(cmd, r). server_frame (body r)) xs) @ rest, e) # ds) =
     (rs, map (in_full L \<circ> fst) xs, d', g', ws', (rest, e) # ds)"
proof (induction qs arbitrary: d g s ws rs xs)
  case (Cons q qs)
  let ?fs = "\<lambda>ys. concat (map (\<lambda>(cmd, r). server_frame (body r)) ys)"
  obtain r xs1 d1 g1 t1 where s1: "spec_call L server q (d, g, s) = (r, xs1, d1, g1, t1)"
    by (metis prod_cases3)
  obtain rs2 xs2 st2 where s2: "spec_run L server qs (d1, g1, t1) = (rs2, xs2, st2)" by (metis prod_cases3)
  from Cons.prems(1) s1 s2 have eqs: "rs = r # rs2" "xs = xs1 @ xs2" "st2 = (d', g', s')" by simp_all
  with Cons.prems(2) have ok: "list_all (\<lambda>(cmd, r). readable L body r) xs1"
    "list_all (\<lambda>(cmd, r). readable L body r) xs2" by simp_all
  from Cons.prems(3) eqs(2) obtain ws1 where
    t: "takes L (map fst xs1) ws = Some ws1" "takes L (map fst xs2) ws1 = Some ws'"
    by (auto simp: takes_append)
  have "net_call L q (d, g, ws, (?fs xs1 @ ?fs xs2 @ rest, e) # ds) =
      (r, map (in_full L \<circ> fst) xs1, d1, g1, ws1, (?fs xs2 @ rest, e) # ds)"
    by (rule net_call_spec [OF s1 ok(1) t(1)])
  moreover have "net_run L qs (d1, g1, ws1, (?fs xs2 @ rest, e) # ds) =
      (rs2, map (in_full L \<circ> fst) xs2, d', g', ws', (rest, e) # ds)"
    using Cons.IH [OF _ ok(2) t(2)] s2 eqs(3) by simp
  ultimately show ?case using eqs(1,2) by simp
qed simp

text \<open>A client whose stream takes the requests of some exchanges and holds their answers, framed,
  and then \<open>rest\<close>; and the client after them.\<close>

definition carries ::
    "libs \<Rightarrow> (response \<Rightarrow> u8 list) \<Rightarrow> client \<Rightarrow> (command_with_args \<times> response) list \<Rightarrow> u8 list
       \<Rightarrow> wr_event list \<Rightarrow> bool" where
  "carries L body c xs rest ws \<longleftrightarrow>
     takes L (map fst xs) (wr (c_stream c)) = Some ws
     \<and> list_all (\<lambda>(cmd, r). readable L body r) xs
     \<and> avail (rx (c_stream c)) = concat (map (\<lambda>(cmd, r). server_frame (body r)) xs) @ rest"

definition arrived ::
    "libs \<Rightarrow> client \<Rightarrow> (command_with_args \<times> response) list \<Rightarrow> u8 list \<Rightarrow> wr_event list
       \<Rightarrow> string option \<times> bool \<Rightarrow> client \<Rightarrow> bool" where
  "arrived L c xs rest ws st c' \<longleftrightarrow>
     st = (c_database c', c_guard c') \<and> c_addr c' = c_addr c \<and> wr (c_stream c') = ws
     \<and> tx (c_stream c') = tx (c_stream c) @ concat (map (\<lambda>(cmd, r). request_bytes L cmd) xs)
     \<and> avail (rx (c_stream c')) = rest"

lemma net_state_carries:
  assumes "carries L body c xs rest ws"
  shows "net_state c = (c_database c, c_guard c, wr (c_stream c),
    (concat (map (\<lambda>(cmd, r). server_frame (body r)) xs) @ rest, rx_end (rx (c_stream c))) # later (rx (c_stream c)))"
  using assms by (simp add: carries_def net_state_def link_of_def deliveries_def)

lemma stands_arrived:
  assumes "stands L c (map (in_full L \<circ> fst) xs) (d, g, ws, (rest, e) # ds) c'"
  shows "arrived L c xs rest ws (d, g) c'"
proof -
  have "wire_bytes L (map (in_full L \<circ> fst) xs) = concat (map (\<lambda>(cmd, r). request_bytes L cmd) xs)"
    unfolding map_map [symmetric] wire_bytes_in_full by (simp add: comp_def split_def)
  with assms show ?thesis
    by (simp add: stands_def arrived_def net_state_def link_of_def deliveries_def)
qed

lemma invoke_refines:
  assumes "spec_call L server q (c_database c, c_guard c, s) = (r, xs, d, g, s')" and "carries L body c xs rest ws"
  shows "\<exists>c'. invoke L q c = (r, c') \<and> arrived L c xs rest ws (d, g) c'"
proof -
  have "net_call L q (net_state c) =
      (r, map (in_full L \<circ> fst) xs, d, g, ws, (rest, rx_end (rx (c_stream c))) # later (rx (c_stream c)))"
    unfolding net_state_carries [OF assms(2)]
    using net_call_spec [OF assms(1)] assms(2) by (simp add: carries_def)
  from invoke_network [OF this] show ?thesis using stands_arrived by blast
qed

lemma invoke_all_refines:
  assumes "spec_run L server qs (c_database c, c_guard c, s) = (rs, xs, d, g, s')" and "carries L body c xs rest ws"
  shows "\<exists>c'. invoke_all L qs c = (rs, c') \<and> arrived L c xs rest ws (d, g) c'"
proof -
  have "net_run L qs (net_state c) =
      (rs, map (in_full L \<circ> fst) xs, d, g, ws, (rest, rx_end (rx (c_stream c))) # later (rx (c_stream c)))"
    unfolding net_state_carries [OF assms(2)]
    using net_run_spec [OF assms(1)] assms(2) by (simp add: carries_def)
  from invoke_all_network [OF this] show ?thesis using stands_arrived by blast
qed

subsection \<open>A server that hangs up\<close>

text \<open>What calls return on a connection that the server has closed: its writes may still go
  through, and then the read meets the end of the stream, or fail themselves.\<close>

definition closed_call :: "libs \<Rightarrow> call \<Rightarrow> bool \<times> wr_event list \<Rightarrow> (error + reply) \<times> bool \<times> wr_event list" where
  "closed_call L q st =
     (case st of (g, ws) \<Rightarrow>
        case asks g q of
          Inl e \<Rightarrow> (Inl e, st)
        | Inr None \<Rightarrow> (Inr Done, guards q g, ws)
        | Inr (Some cmd) \<Rightarrow>
            (case encode_request L cmd of
               Inl e \<Rightarrow> (Inl e, st)
             | Inr bytes \<Rightarrow>
                 (case write_run (length bytes) ws of (k, r, ws) \<Rightarrow>
                    (Inl (case r of None \<Rightarrow> ConnectionClosed | Some e \<Rightarrow> from_io e), g, ws))))"

fun closed_run :: "libs \<Rightarrow> bool \<times> wr_event list \<Rightarrow> call list \<Rightarrow> (error + reply) list" where
  "closed_run L st [] = []"
| "closed_run L st (q # qs) = (case closed_call L q st of (r, st) \<Rightarrow> r # closed_run L st qs)"

lemma guards_asking: "asks g q = Inr (Some cmd) \<Longrightarrow> guards q g = g"
  by (cases q) simp_all

lemma guards_refused: "asks g q = Inl e \<Longrightarrow> guards q g = g"
  by (cases q) simp_all

lemma net_response_closed:
  assumes "length bs < frame_length bs"
  shows "net_response L [(bs, read_exact_eof)] = (Inl ConnectionClosed, [([], read_exact_eof)])"
proof -
  have "from_io read_exact_eof = ConnectionClosed" by (simp add: from_io_def read_exact_eof_def)
  moreover have "parse_frame L bs read_exact_eof = Inl (from_io read_exact_eof)"
    using assms by (auto simp: parse_frame_def frame_length_def Let_def split: if_splits)
  ultimately show ?thesis using assms by (simp add: net_response_def next_run_def)
qed

lemma net_call_closed:
  assumes "length bs < frame_length bs" and "closed_call L q (g, ws) = (r, g', ws')"
  shows "\<exists>xs bs'. net_call L q (d, g, ws, [(bs, read_exact_eof)]) =
      (r, xs, d, g', ws', [(bs', read_exact_eof)]) \<and> length bs' < frame_length bs'"
proof (cases "\<exists>cmd bytes. asks g q = Inr (Some cmd) \<and> encode_request L cmd = Inr bytes")
  case True
  then obtain cmd bytes where c: "asks g q = Inr (Some cmd)" "encode_request L cmd = Inr bytes" by blast
  obtain k f ws1 where k: "write_run (length bytes) ws = (k, f, ws1)" by (metis prod_cases3)
  have "length [] < frame_length []" by (simp add: frame_length_def)
  with c k assms net_response_closed [OF assms(1), of L] show ?thesis
    by (cases f) (auto simp: net_call_def closed_call_def exchange_def and_then_def)
next
  case False
  with assms show ?thesis
    by (auto simp: net_call_def closed_call_def split: sum.splits option.splits)
qed

lemma net_run_closed:
  "length bs < frame_length bs \<Longrightarrow>
   \<exists>xs l. net_run L qs (d, g, ws, [(bs, read_exact_eof)]) = (closed_run L (g, ws) qs, xs, d, l)"
proof (induction qs arbitrary: bs g ws)
  case (Cons q qs)
  obtain r g1 ws1 where c: "closed_call L q (g, ws) = (r, g1, ws1)" by (metis prod_cases3)
  from net_call_closed [OF Cons.prems c] obtain xs bs1 where
    n: "net_call L q (d, g, ws, [(bs, read_exact_eof)]) = (r, xs, d, g1, ws1, [(bs1, read_exact_eof)])"
    and b: "length bs1 < frame_length bs1" by blast
  from Cons.IH [OF b, of g1 ws1] c n show ?case by auto
qed simp

lemma frame_length_truncated:
  assumes "k < length (server_frame body)" "length body \<le> unat max_response_bytes"
  shows "length (take k (server_frame body)) < frame_length (take k (server_frame body))"
proof (cases "k < 8")
  case True
  then show ?thesis by (simp add: frame_length_def Let_def min_def)
next
  case False
  have n: "unat (of_nat (length body) :: u64) = length body"
    using assms(2) by (simp add: unat_of_nat max_response_bytes_def)
  then have "\<not> (of_nat (length body) :: u64) > max_response_bytes"
    using assms(2) by (simp add: not_less word_le_nat_alt)
  with False n assms(1) show ?thesis by (simp add: frame_length_def server_frame_def Let_def)
qed

subsection \<open>Properties\<close>

text \<open>C4: on every network, a session is a function of its calls, the database, the guard, the runs
  of bytes that arrive between errors, and what becomes of its writes. Nothing is assumed of either
  side: how the bytes are cut, where interruptions and errors fall and what the bytes mean makes no
  difference to the statement. Each asking call that is not refused locally sends its encoding, in
  order, as far as the stream takes it; a call whose write fails reports that and reads nothing.\<close>

theorem session_refines_network:
  assumes "net_run L qs (c_database c, c_guard c, wr (c_stream c), deliveries (rx (c_stream c))) =
    (results, sent, d, g, ws, ds)"
  shows "\<exists>c'. invoke_all L qs c = (results, c') \<and> c_database c' = d \<and> c_guard c' = g
    \<and> wr (c_stream c') = ws \<and> deliveries (rx (c_stream c')) = ds
    \<and> tx (c_stream c') = tx (c_stream c) @ concat (map (\<lambda>(cmd, k). take k (request_bytes L cmd)) sent)"
  using invoke_all_network [of L qs c] assms
  by (auto simp: stands_def net_state_def link_of_def wire_bytes_def)

definition timed_out :: io_error where
  "timed_out = \<lparr>io_kind = TimedOut, io_message = []\<rparr>"

text \<open>The first request is cut by a timeout, the answer to the second by another, and the third
  reads an empty frame.\<close>

theorem session_refines_network_witness:
  "\<exists>c'. invoke_all reference_libs [Commit, Commit, Commit]
      ((fake_client [])\<lparr>c_stream := (spawn [])\<lparr>rx := [Chunk [0, 0, 0], RdErr timed_out,
         Chunk [0, 0, 0, 0], Chunk [0, 0, 0, 0]], wr := [Accept 2, WrErr timed_out]\<rparr>\<rparr>) =
        ([Inl (Io timed_out), Inl (Io timed_out), Inr Done], c')
    \<and> deliveries (rx (c_stream c')) = [([], read_exact_eof)]
    \<and> tx (c_stream c') = take 2 (request_bytes reference_libs (cwa_db DC_Commit []))
        @ request_bytes reference_libs (cwa_db DC_Commit []) @ request_bytes reference_libs (cwa_db DC_Commit [])"
proof -
  let ?c = "(fake_client [])\<lparr>c_stream := (spawn [])\<lparr>rx := [Chunk [0, 0, 0], RdErr timed_out,
         Chunk [0, 0, 0, 0], Chunk [0, 0, 0, 0]], wr := [Accept 2, WrErr timed_out]\<rparr>\<rparr>"
  let ?d = "[([0, 0, 0], timed_out), ([0, 0, 0, 0, 0, 0, 0, 0], read_exact_eof)]"
  let ?q = "cwa_db DC_Commit []"
  have ds: "deliveries (rx (c_stream ?c)) = ?d"
    by (simp add: deliveries_def timed_out_def)
  have e: "encode_request reference_libs ?q = Inr (request_bytes reference_libs ?q)"
    by (simp add: request_bytes_def encode_request_def and_then_def map_err_def max_request_bytes_def
        ser_command_with_args_def ser_list_def enc_text_def length_enc_head)
  have l: "2 < length (request_bytes reference_libs ?q)"
    by (simp add: request_bytes_def ser_command_with_args_def ser_list_def enc_text_def length_enc_head)
  have x: "exchange reference_libs (length (request_bytes reference_libs ?q)) ([Accept 2, WrErr timed_out], ?d) =
      (Inl (Io timed_out), 2, [], ?d)"
    using l by (cases "request_bytes reference_libs ?q = []") (simp_all add: exchange_def from_io_def timed_out_def min_def)
  have r1: "net_response reference_libs ?d = (Inl (Io timed_out), tl ?d)"
    by (simp add: net_response_def next_run_def parse_frame_def frame_length_def from_io_def timed_out_def)
  have r2: "net_response reference_libs (tl ?d) = (Inr R_QuietOk, [([], read_exact_eof)])"
    by (simp add: net_response_def next_run_def parse_frame_def frame_length_def from_be_bytes_def
        be_val_def max_response_bytes_def)
  have "net_run reference_libs [Commit, Commit, Commit]
      (c_database ?c, c_guard ?c, wr (c_stream ?c), deliveries (rx (c_stream ?c))) =
      ([Inl (Io timed_out), Inl (Io timed_out), Inr Done],
       [(?q, 2), in_full reference_libs ?q, in_full reference_libs ?q], None, True, [], [([], read_exact_eof)])"
    unfolding ds using e x r1 r2 by (simp add: net_call_def and_then_def check_def in_full_def exchange_def)
  from session_refines_network [OF this] show ?thesis by (auto simp: in_full_def)
qed

text \<open>C3: a session refines its specification. Whatever the server computes from its state and the
  commands, when the requests are taken and its answers arrive in order, cut in any way, and can be
  decoded, the calls return what the specification says, the database selected and the guard are
  those of the specification, and the bytes sent are the encodings of exactly the commands
  exchanged.\<close>

theorem session_refines_spec:
  assumes "spec_run L server qs (c_database c, c_guard c, s) = (results, exchanges, d, g, s')"
    and "takes L (map fst exchanges) (wr (c_stream c)) = Some ws"
    and "list_all (\<lambda>(cmd, r). readable L body r) exchanges"
    and "avail (rx (c_stream c)) = concat (map (\<lambda>(cmd, r). server_frame (body r)) exchanges) @ rest"
  shows "\<exists>c'. invoke_all L qs c = (results, c') \<and> c_database c' = d \<and> c_guard c' = g
    \<and> tx (c_stream c') = tx (c_stream c) @ concat (map (\<lambda>(cmd, r). request_bytes L cmd) exchanges)
    \<and> avail (rx (c_stream c')) = rest \<and> wr (c_stream c') = ws"
  using invoke_all_refines [OF assms(1), of body rest ws] assms(2-4)
  by (auto simp: carries_def arrived_def)

theorem session_refines_spec_witness:
  "\<exists>c'. invoke_all reference_libs
       [Use_Database '' mydb '', Execute ''DELETE FROM t'', Tables]
       (fake_client [R_Ok, R_SystemMsg ''Tables: users'']) =
         ([Inr Done, Inl (Unsupported ''DELETE statements''), Inr (Names [''users''])], c')
     \<and> c_database c' = Some ''mydb'' \<and> avail (rx (c_stream c')) = []"
proof -
  let ?rs = "[R_Ok, R_SystemMsg ''Tables: users'']"
  let ?server = "\<lambda>rs cmd. (hd rs, tl rs) :: response \<times> response list"
  let ?xs = "[(cwa_system SC_Connect [''mydb''], R_Ok), (cwa_db DC_ShowTables [], R_SystemMsg ''Tables: users'')]"
  have t: "trim '' mydb '' = ''mydb''" by code_simp
  have i: "inspect ''DELETE FROM t'' = Some (Inl (Unsupported ''DELETE statements''))" by code_simp
  have e: "\<exists>b. encode_request reference_libs (cwa_system SC_Connect [''mydb'']) = Inr b"
    "\<exists>b. encode_request reference_libs (cwa_db DC_ShowTables []) = Inr b"
    by (simp_all add: encode_request_def and_then_def map_err_def max_request_bytes_def
        ser_command_with_args_def ser_list_def enc_text_def length_enc_head)
  have spec: "spec_run reference_libs ?server [Use_Database '' mydb '', Execute ''DELETE FROM t'', Tables]
      (c_database (fake_client ?rs), c_guard (fake_client ?rs), ?rs) =
      ([Inr Done, Inl (Unsupported ''DELETE statements''), Inr (Names [''users''])], ?xs, Some ''mydb'', True, [])"
    using e t i populated_messages(4)
    by (auto simp: spec_call_def map_ok_def require_name_def execute_guard_def check_def expect_message_def)
  have "plain_response R_Ok" "plain_response (R_SystemMsg ''Tables: users'')"
    by (simp_all add: plain_response_def enc_text_def length_enc_head max_response_bytes_def)
  then have "list_all (\<lambda>(cmd, r). readable reference_libs (\<lambda>r. cbor_encode (ser_response r)) r) ?xs"
    by (simp add: readable_plain)
  moreover obtain ws where "takes reference_libs (map fst ?xs) (wr (c_stream (fake_client ?rs))) = Some ws"
    using takes_accepting [of "wr (c_stream (fake_client ?rs))" reference_libs "map fst ?xs"] by auto
  moreover have "avail (rx (c_stream (fake_client ?rs))) =
      concat (map (\<lambda>(cmd, r). server_frame (cbor_encode (ser_response r))) ?xs) @ []"
    by (simp add: spawn_def del: cbor_encode.simps ser_response.simps)
  ultimately show ?thesis using session_refines_spec [OF spec] by blast
qed

text \<open>C9: when the server answers some calls and then hangs up, between answers or anywhere inside
  one, the calls it answered return what the specification says, and every later call that would
  ask the server reports the closed connection, or the error of its own write where that already
  fails, while refusals and settings are as before; the database recorded stays the one selected
  last. The writes only have to go through as far as the server answers.\<close>

theorem session_until_hangup:
  assumes "spec_run L server qs (c_database c, c_guard c, s) = (results, exchanges, d, g, s')"
    and "list_all (\<lambda>(cmd, r). readable L body r) exchanges"
    and "takes L (map fst exchanges) (wr (c_stream c)) = Some ws"
    and "k < length (server_frame lost)" and "length lost \<le> unat max_response_bytes"
    and "deliveries (rx (c_stream c)) =
      [(concat (map (\<lambda>(cmd, r). server_frame (body r)) exchanges) @ take k (server_frame lost), read_exact_eof)]"
  shows "\<exists>c'. invoke_all L (qs @ later_qs) c = (results @ closed_run L (g, ws) later_qs, c') \<and> c_database c' = d"
proof -
  obtain xs l where "net_run L later_qs (d, g, ws, [(take k (server_frame lost), read_exact_eof)]) =
      (closed_run L (g, ws) later_qs, xs, d, l)"
    using net_run_closed [OF frame_length_truncated [OF assms(4,5)]] by blast
  then have "net_run L (qs @ later_qs) (net_state c) =
      (results @ closed_run L (g, ws) later_qs, map (in_full L \<circ> fst) exchanges @ xs, d, l)"
    unfolding net_state_def link_of_def assms(6) by (simp add: net_run_append net_run_spec [OF assms(1-3)])
  from invoke_all_network [OF this] show ?thesis by (auto simp: stands_def net_state_def)
qed

text \<open>The server is gone in the middle of an answer; the first call notices when it reads, the last
  one when it writes.\<close>

definition broken_pipe :: io_error where
  "broken_pipe = \<lparr>io_kind = OtherKind ''BrokenPipe'', io_message = []\<rparr>"

theorem session_until_hangup_witness:
  "\<exists>c'. invoke_all reference_libs ([] @ [Execute ''DELETE FROM t'', Commit, Set_Guard False, Commit])
      ((fake_client [])\<lparr>c_stream := (spawn [])\<lparr>rx := [Chunk (take 3 (server_frame [0x62, 0x4F, 0x6B]))],
        wr := [Accept 1024, WrErr broken_pipe]\<rparr>\<rparr>) =
    ([] @ [Inl (Unsupported ''DELETE statements''), Inl ConnectionClosed, Inr Done, Inl (Io broken_pipe)], c')
    \<and> c_database c' = None"
proof -
  let ?qs = "[Execute ''DELETE FROM t'', Commit, Set_Guard False, Commit]"
  let ?c = "(fake_client [])\<lparr>c_stream := (spawn [])\<lparr>rx := [Chunk (take 3 (server_frame [0x62, 0x4F, 0x6B]))],
        wr := [Accept 1024, WrErr broken_pipe]\<rparr>\<rparr>"
  have i: "inspect ''DELETE FROM t'' = Some (Inl (Unsupported ''DELETE statements''))" by code_simp
  have e: "\<exists>bytes. encode_request reference_libs (cwa_db DC_Commit []) = Inr bytes
      \<and> 0 < length bytes \<and> length bytes \<le> 1024"
    by (simp add: encode_request_def and_then_def map_err_def max_request_bytes_def
        ser_command_with_args_def ser_list_def enc_text_def length_enc_head)
  have r: "closed_run reference_libs (True, [Accept 1024, WrErr broken_pipe]) ?qs =
      [Inl (Unsupported ''DELETE statements''), Inl ConnectionClosed, Inr Done, Inl (Io broken_pipe)]"
    using i e by (auto simp: closed_call_def execute_guard_def map_ok_def broken_pipe_def from_io_def)
  have "spec_run reference_libs (\<lambda>s cmd. (R_Ok, s)) [] (c_database ?c, c_guard ?c, ()) =
      ([], [], None, True, ())" by simp
  from session_until_hangup [OF this, where k = 3 and lost = "[0x62, 0x4F, 0x6B]"
      and later_qs = ?qs and ws = "[Accept 1024, WrErr broken_pipe]"]
  show ?thesis unfolding r
    by (simp add: deliveries_def server_frame_def max_response_bytes_def)
qed

text \<open>C18: a read error inside an answer, such as a timeout, is reported once, but the bytes of the
  answer read so far are lost and the rest is taken for the next answer: when what follows the
  error reads as a frame, for instance because a value in a row holds the bytes of one, the next
  call returns that frame as the server's response.\<close>

theorem cut_answer_is_misread:
  assumes "deliveries (rx (c_stream c)) = (take k (server_frame body), e) # (drop k (server_frame body) @ rest, e') # ds"
    and "k < length (server_frame body)" and "length body \<le> unat max_response_bytes"
    and "drop k (server_frame body) = server_frame forged @ junk"
    and "forged \<noteq> []" and "length forged \<le> unat max_response_bytes" and "from_slice L forged = Inr answer"
    and "encode_request L cmd1 = Inr bytes1" and "encode_request L cmd2 = Inr bytes2"
    and "takes L [cmd1, cmd2] (wr (c_stream c)) = Some ws"
  shows "\<exists>c' c''. round_trip L cmd1 c = (Inl (from_io e), c') \<and> round_trip L cmd2 c' = (Inr answer, c'')
    \<and> deliveries (rx (c_stream c'')) = (junk @ rest, e') # ds"
proof -
  let ?bs = "take k (server_frame body)"
  have short: "length ?bs < frame_length ?bs" by (rule frame_length_truncated [OF assms(2,3)])
  then have "parse_frame L ?bs e = Inl (from_io e)"
    by (auto simp: parse_frame_def frame_length_def Let_def split: if_splits)
  moreover have "\<not> frame_length ?bs \<le> length ?bs" using short by (simp only: not_le)
  ultimately have n1: "net_response L (deliveries (rx (c_stream c))) =
      (Inl (from_io e), (server_frame forged @ junk @ rest, e') # ds)"
    unfolding assms(1) by (simp add: net_response_def next_run_def assms(4) del: length_take)
  obtain ws1 where t: "takes L [cmd1] (wr (c_stream c)) = Some ws1" "takes L [cmd2] ws1 = Some ws"
    using assms(10) takes_append [of L "[cmd1]" "[cmd2]"] by auto
  obtain c' where c': "round_trip L cmd1 c = (Inl (from_io e), c')"
    "stands L c [in_full L cmd1] (c_database c, c_guard c, ws1, (server_frame forged @ junk @ rest, e') # ds) c'"
    using round_trip_takes [OF t(1) assms(8) n1] by auto
  then have d': "deliveries (rx (c_stream c')) = (server_frame forged @ junk @ rest, e') # ds"
    and a': "takes L [cmd2] (wr (c_stream c')) = Some ws"
    using t(2) by (simp_all add: stands_def net_state_def link_of_def)
  have "net_response L (deliveries (rx (c_stream c'))) = (Inr answer, (junk @ rest, e') # ds)"
    unfolding d' by (simp add: net_response_frame assms(5-7) map_err_def)
  with round_trip_takes [OF a' assms(9)] obtain c'' where
    "round_trip L cmd2 c' = (Inr answer, c'')" "deliveries (rx (c_stream c'')) = (junk @ rest, e') # ds"
    by (auto simp: stands_def net_state_def link_of_def)
  with c'(1) show ?thesis by blast
qed

text \<open>A message whose text ends in the bytes of the frame of \<open>Ok\<close>.\<close>

definition ok_frame :: "u8 list" where
  "ok_frame = [0, 0, 0, 0, 0, 0, 0, 3, 0x62, 0x4F, 0x6B]"

definition tricky_body :: "u8 list" where
  "tricky_body = cbor_encode (ser_response (R_SystemMsg (text_of ok_frame)))"

lemma tricky_body_split: "length tricky_body = 23" "drop 20 (server_frame tricky_body) = ok_frame"
  "length (server_frame tricky_body) = 31"
proof -
  have b: "bytes_of (text_of ok_frame) = ok_frame" by code_simp
  have n: "length (text_of ok_frame) = 11" by (simp add: text_of_def ok_frame_def)
  show l: "length tricky_body = 23"
    by (simp add: tricky_body_def enc_text_def length_enc_head n)
  show "drop 20 (server_frame tricky_body) = ok_frame"
    by (simp add: server_frame_def tricky_body_def enc_text_def length_enc_head n b)
  show "length (server_frame tricky_body) = 31" using l by (simp add: server_frame_def)
qed

theorem cut_answer_is_misread_witness:
  "\<exists>c' c''. round_trip reference_libs (cwa_system SC_ShowDatabases [])
      ((fake_client [])\<lparr>c_stream := (spawn [])\<lparr>rx := [Chunk (take 20 (server_frame tricky_body)),
         RdErr timed_out, Chunk (drop 20 (server_frame tricky_body))]\<rparr>\<rparr>) = (Inl (Io timed_out), c')
    \<and> round_trip reference_libs (cwa_db DC_Commit []) c' = (Inr R_Ok, c'')
    \<and> deliveries (rx (c_stream c'')) = [([], read_exact_eof)]"
proof -
  let ?c = "(fake_client [])\<lparr>c_stream := (spawn [])\<lparr>rx := [Chunk (take 20 (server_frame tricky_body)),
         RdErr timed_out, Chunk (drop 20 (server_frame tricky_body))]\<rparr>\<rparr>"
  have d: "deliveries (rx (c_stream ?c)) = (take 20 (server_frame tricky_body), timed_out)
      # (drop 20 (server_frame tricky_body) @ [], read_exact_eof) # []"
    by (simp add: deliveries_def timed_out_def)
  have f: "drop 20 (server_frame tricky_body) = server_frame [0x62, 0x4F, 0x6B] @ []"
    unfolding tricky_body_split by code_simp
  have a: "from_slice reference_libs [0x62, 0x4F, 0x6B] = Inr R_Ok"
    using ref.decodes [of R_Ok] by (simp add: enc_text_def enc_head_def bytes_of_def)
  obtain b1 b2 where e: "encode_request reference_libs (cwa_system SC_ShowDatabases []) = Inr b1"
    "encode_request reference_libs (cwa_db DC_Commit []) = Inr b2"
    by (simp add: encode_request_def and_then_def map_err_def max_request_bytes_def
        ser_command_with_args_def ser_list_def enc_text_def length_enc_head)
  from cut_answer_is_misread [OF d _ _ f _ _ a e]
  show ?thesis by (simp add: tricky_body_split max_response_bytes_def from_io_def timed_out_def)
qed

end
