(* ===== verification/In_Step.thy ===== *)
theory In_Step
  imports Network
begin

section \<open>Sessions that report no error of the stream\<close>

text \<open>
  \<open>Network\<close> computes what a session returns from what the stream does. This is the way back: what
  can be told of the stream from what the calls returned. A session none of whose results is an
  error of the stream is in step with the server, however the stream behaved: every request went
  out whole and each call that asks got the next complete frame for its answer, so the results
  are those of the specification against the responses in these frames. Losing step, which
  \<open>Network\<close> and \<open>Requests\<close> show to be possible, is always reported first.
\<close>

subsection \<open>Frames\<close>

text \<open>The errors of the stream: of reading, of writing, of a length over the limit and of a body that
  does not decode.\<close>

definition stream_error :: "error \<Rightarrow> bool" where
  "stream_error e \<longleftrightarrow>
     (case e of
        Io _ \<Rightarrow> True
      | ConnectionClosed \<Rightarrow> True
      | ResponseTooLarge _ _ \<Rightarrow> True
      | Decode _ \<Rightarrow> True
      | _ \<Rightarrow> False)"

lemma stream_error_simps [simp]:
  "stream_error (Io e)" "stream_error ConnectionClosed" "stream_error (ResponseTooLarge m n)"
  "stream_error (Decode d)" "stream_error (from_io e)"
  by (simp_all add: stream_error_def from_io_eq)

text \<open>The bytes are exactly one frame, and the frame holds the response.\<close>

definition is_frame :: "libs \<Rightarrow> u8 list \<Rightarrow> response \<Rightarrow> bool" where
  "is_frame L f r \<longleftrightarrow> frame_length f = length f \<and> parse_frame L f read_exact_eof = Inr r"

lemma frame_length_take: "frame_length bs \<le> length bs \<Longrightarrow> frame_length (take (frame_length bs) bs) = frame_length bs"
proof -
  assume a: "frame_length bs \<le> length bs"
  moreover have e: "8 \<le> frame_length bs" by (simp add: frame_length_def Let_def)
  ultimately have "take 8 (take (frame_length bs) bs) = take 8 bs" "8 \<le> length (take (frame_length bs) bs)"
    by (simp_all add: min_def)
  with a e show ?thesis unfolding frame_length_def [of "take (frame_length bs) bs"]
    by (auto simp: frame_length_def Let_def)
qed

lemma parse_frame_response:
  assumes "parse_frame L bs e = Inr r"
  shows "frame_length bs \<le> length bs" and "is_frame L (take (frame_length bs) bs) r"
proof -
  let ?len = "from_be_bytes (take 8 bs) :: u64"
  from assms have n: "8 \<le> length bs" "\<not> ?len > max_response_bytes" "?len = 0 \<or> 8 + unat ?len \<le> length bs"
    by (auto simp: parse_frame_def Let_def split: if_splits)
  then have f: "frame_length bs = 8 + unat ?len" by (auto simp: frame_length_def Let_def)
  then show l: "frame_length bs \<le> length bs" using n(1,3) by auto
  have t: "take 8 (take (frame_length bs) bs) = take 8 bs" by (simp add: f min_def)
  have "parse_frame L (take (frame_length bs) bs) read_exact_eof = Inr r"
    using assms n l t f unfolding parse_frame_def by (auto simp: Let_def drop_take split: if_splits)
  then show "is_frame L (take (frame_length bs) bs) r"
    using frame_length_take [OF l] l by (simp add: is_frame_def)
qed

lemma parse_frame_error: "parse_frame L bs e = Inl err \<Longrightarrow> stream_error err"
  by (auto simp: parse_frame_def map_err_def Let_def split: if_splits sum.splits)

subsection \<open>Calls\<close>

definition quiet :: "error + 'a \<Rightarrow> bool" where
  "quiet r \<longleftrightarrow> (case r of Inl e \<Rightarrow> \<not> stream_error e | Inr _ \<Rightarrow> True)"

lemma exchange_quiet:
  assumes "exchange L n (ws, (bs, e) # ds) = (a, k, l)" and "quiet a"
  shows "\<exists>r ws' f rest. a = Inr r \<and> k = n \<and> l = (ws', (rest, e) # ds) \<and> bs = f @ rest \<and> is_frame L f r"
proof -
  obtain j failure ws' where w: "write_run n ws = (j, failure, ws')" by (metis prod_cases3)
  with assms have f: "failure = None" by (cases failure) (auto simp: exchange_def quiet_def)
  then have "j = n" using write_run_all_or_error [OF w] by simp
  with assms w f have a: "a = parse_frame L bs e" "k = n"
    "l = (ws', if frame_length bs \<le> length bs then (drop (frame_length bs) bs, e) # ds else next_run ds)"
    by (auto simp: exchange_def net_response_def next_run_def)
  with assms(2) obtain r where r: "parse_frame L bs e = Inr r"
    using parse_frame_error by (cases "parse_frame L bs e") (auto simp: quiet_def)
  with a parse_frame_response [OF r] show ?thesis
    by (intro exI [of _ r] exI [of _ ws'] exI [of _ "take (frame_length bs) bs"]
        exI [of _ "drop (frame_length bs) bs"]) simp
qed

lemma net_call_quiet:
  assumes "net_call L q (d, g, ws, (bs, e) # ds) = (r, sent, d', g', ws', ds')" and "quiet r"
  shows "\<exists>xs frames rest. bs = concat frames @ rest \<and> ds' = (rest, e) # ds
    \<and> list_all2 (\<lambda>f (cmd, r). is_frame L f r) frames xs \<and> sent = map (in_full L \<circ> fst) xs
    \<and> (\<forall>script. spec_call L scripted q (d, g, map snd xs @ script) = (r, xs, d', g', script))"
proof (cases "\<exists>cmd bytes. asks g q = Inr (Some cmd) \<and> encode_request L cmd = Inr bytes")
  case True
  then obtain cmd bytes where c: "asks g q = Inr (Some cmd)" "encode_request L cmd = Inr bytes" by blast
  obtain a k l where x: "exchange L (length bytes) (ws, (bs, e) # ds) = (a, k, l)" by (metis prod_cases3)
  with assms c have "quiet a"
    by (cases a) (auto simp: net_call_def quiet_def and_then_def)
  from exchange_quiet [OF x this] obtain r0 ws1 f rest where
    e: "a = Inr r0" "k = length bytes" "l = (ws1, (rest, e) # ds)" "bs = f @ rest" "is_frame L f r0" by blast
  have "sent = [in_full L cmd] \<and> ds' = (rest, e) # ds
      \<and> (\<forall>script. spec_call L scripted q (d, g, r0 # script) = (r, [(cmd, r0)], d', g', script))"
    using assms(1) c x e request_bytes_eq [OF c(2)]
    by (cases "check r0") (auto simp: net_call_def and_then_def in_full_def spec_call_scripted)
  with e show ?thesis
    by (intro exI [of _ "[(cmd, r0)]"] exI [of _ "[f]"] exI [of _ rest]) simp
next
  case False
  with assms have "sent = [] \<and> ds' = (bs, e) # ds
      \<and> (\<forall>script. spec_call L scripted q (d, g, script) = (r, [], d', g', script))"
    by (auto simp: net_call_def spec_call_scripted split: sum.splits option.splits)
  then show ?thesis by (intro exI [of _ "[]"] exI [of _ bs]) simp
qed

lemma net_run_quiet:
  "net_run L qs (d, g, ws, (bs, e) # ds) = (rs, sent, d', g', ws', ds') \<Longrightarrow> list_all quiet rs \<Longrightarrow>
   \<exists>xs frames rest. bs = concat frames @ rest \<and> ds' = (rest, e) # ds
    \<and> list_all2 (\<lambda>f (cmd, r). is_frame L f r) frames xs \<and> sent = map (in_full L \<circ> fst) xs
    \<and> (\<forall>script. spec_run L scripted qs (d, g, map snd xs @ script) = (rs, xs, d', g', script))"
proof (induction qs arbitrary: d g ws bs rs sent)
  case Nil
  then show ?case by (intro exI [of _ "[]"] exI [of _ bs]) simp
next
  case (Cons q qs)
  obtain r sent1 d1 g1 ws1 ds1 where c: "net_call L q (d, g, ws, (bs, e) # ds) = (r, sent1, d1, g1, ws1, ds1)"
    by (metis prod_cases3)
  obtain rs2 sent2 where n: "net_run L qs (d1, g1, ws1, ds1) = (rs2, sent2, d', g', ws', ds')"
    and rs: "rs = r # rs2" "sent = sent1 @ sent2" using Cons.prems(1) c by (auto split: prod.splits)
  from Cons.prems(2) rs have q: "quiet r" "list_all quiet rs2" by simp_all
  from net_call_quiet [OF c q(1)] obtain xs1 frames1 rest1 where
    1: "bs = concat frames1 @ rest1" "ds1 = (rest1, e) # ds"
      "list_all2 (\<lambda>f (cmd, r). is_frame L f r) frames1 xs1" "sent1 = map (in_full L \<circ> fst) xs1"
      "\<And>script. spec_call L scripted q (d, g, map snd xs1 @ script) = (r, xs1, d1, g1, script)" by blast
  from Cons.IH [OF n [unfolded 1(2)] q(2)] obtain xs2 frames2 rest where
    2: "rest1 = concat frames2 @ rest" "ds' = (rest, e) # ds"
      "list_all2 (\<lambda>f (cmd, r). is_frame L f r) frames2 xs2" "sent2 = map (in_full L \<circ> fst) xs2"
      "\<And>script. spec_run L scripted qs (d1, g1, map snd xs2 @ script) = (rs2, xs2, d', g', script)" by blast
  have "list_all2 (\<lambda>f (cmd, r). is_frame L f r) (frames1 @ frames2) (xs1 @ xs2)"
    using 1(3) 2(3) by (rule list_all2_appendI)
  with 1 2 rs show ?case
    by (intro exI [of _ "xs1 @ xs2"] exI [of _ "frames1 @ frames2"] exI [of _ rest]) simp
qed

subsection \<open>Properties\<close>

text \<open>C5: a session that reports no error of the stream is in step with the server, on every network:
  the requests of the calls that ask went out whole, in order, the bytes read are one complete
  frame for each of them, and the results, the database and the guard are those of the
  specification when the server answers with what these frames hold.\<close>

theorem quiet_session_in_step:
  assumes "invoke_all L qs c = (results, c')" and "list_all quiet results"
  shows "\<exists>exchanges frames.
    spec_run L scripted qs (c_database c, c_guard c, map snd exchanges) =
      (results, exchanges, c_database c', c_guard c', [])
    \<and> avail (rx (c_stream c)) = concat frames @ avail (rx (c_stream c'))
    \<and> list_all2 (\<lambda>f (cmd, r). is_frame L f r) frames exchanges
    \<and> tx (c_stream c') = tx (c_stream c) @ concat (map (\<lambda>(cmd, r). request_bytes L cmd) exchanges)"
proof -
  obtain rs sent st where n: "net_run L qs (net_state c) = (rs, sent, st)" by (metis prod_cases3)
  from invoke_all_network [OF n] assms(1) have rs: "rs = results" "stands L c sent st c'" by auto
  then have st: "st = net_state c'" by (simp add: stands_def)
  let ?s = "c_stream c" and ?s' = "c_stream c'"
  have "net_run L qs (c_database c, c_guard c, wr ?s, (avail (rx ?s), rx_end (rx ?s)) # later (rx ?s)) =
      (results, sent, c_database c', c_guard c', wr ?s', (avail (rx ?s'), rx_end (rx ?s')) # later (rx ?s'))"
    using n rs(1) st by (simp add: net_state_def link_of_def deliveries_def)
  from net_run_quiet [OF this assms(2)] obtain xs frames rest where x:
    "avail (rx ?s) = concat frames @ rest" "rest = avail (rx ?s')"
    "list_all2 (\<lambda>f (cmd, r). is_frame L f r) frames xs" "sent = map (in_full L \<circ> fst) xs"
    "\<And>script. spec_run L scripted qs (c_database c, c_guard c, map snd xs @ script) =
      (results, xs, c_database c', c_guard c', script)" by auto
  have "wire_bytes L sent = concat (map (\<lambda>(cmd, r). request_bytes L cmd) xs)"
    unfolding x(4) map_map [symmetric] wire_bytes_in_full by (simp add: comp_def split_def)
  with rs(2) have "tx ?s' = tx ?s @ concat (map (\<lambda>(cmd, r). request_bytes L cmd) xs)"
    by (simp add: stands_def)
  with x x(5) [of "[]"] show ?thesis by (intro exI [of _ xs] exI [of _ frames]) simp
qed

text \<open>An acknowledgement without a body, and a refusal that asks nothing of the server.\<close>

theorem quiet_session_in_step_witness:
  "\<exists>c' exchanges frames. invoke_all reference_libs [Commit, Execute ''DELETE FROM t'']
      ((fake_client [])\<lparr>c_stream := (spawn [])\<lparr>rx := [Chunk [0, 0, 0], Chunk [0, 0, 0, 0, 0, 7]]\<rparr>\<rparr>) =
        ([Inr Done, Inl (Unsupported ''DELETE statements'')], c')
    \<and> spec_run reference_libs scripted [Commit, Execute ''DELETE FROM t''] (None, True, map snd exchanges) =
        ([Inr Done, Inl (Unsupported ''DELETE statements'')], exchanges, c_database c', c_guard c', [])
    \<and> concat frames @ avail (rx (c_stream c')) = [0, 0, 0, 0, 0, 0, 0, 0, 7]"
proof -
  let ?qs = "[Commit, Execute ''DELETE FROM t'']"
  let ?rs = "[Inr Done, Inl (Unsupported ''DELETE statements'')] :: (error + reply) list"
  let ?c = "(fake_client [])\<lparr>c_stream := (spawn [])\<lparr>rx := [Chunk [0, 0, 0], Chunk [0, 0, 0, 0, 0, 7]]\<rparr>\<rparr>"
  let ?q = "cwa_db DC_Commit []"
  have i: "inspect ''DELETE FROM t'' = Some (Inl (Unsupported ''DELETE statements''))" by code_simp
  have e: "encode_request reference_libs ?q = Inr (request_bytes reference_libs ?q)"
    by (simp add: request_bytes_def encode_request_def and_then_def map_err_def max_request_bytes_def
        ser_command_with_args_def ser_list_def enc_text_def length_enc_head)
  have ds: "deliveries (rx (c_stream ?c)) = [([0, 0, 0, 0, 0, 0, 0, 0, 7], read_exact_eof)]"
    by (simp add: deliveries_def)
  have r: "net_response reference_libs [([0, 0, 0, 0, 0, 0, 0, 0, 7], read_exact_eof)] =
      (Inr R_QuietOk, [([7], read_exact_eof)])"
    by (simp add: net_response_def next_run_def parse_frame_def frame_length_def from_be_bytes_def
        be_val_def max_response_bytes_def)
  have "net_run reference_libs ?qs (net_state ?c) =
      (?rs, [(?q, length (request_bytes reference_libs ?q))], None, True, [], [([7], read_exact_eof)])"
    unfolding net_state_def link_of_def ds using e r i
    by (simp add: net_call_def and_then_def check_def exchange_def execute_guard_def map_ok_def)
  from invoke_all_network [OF this] obtain c' where c': "invoke_all reference_libs ?qs ?c = (?rs, c')" by blast
  moreover have "list_all quiet ?rs" by (simp add: quiet_def stream_error_def)
  ultimately obtain exchanges frames where
    "spec_run reference_libs scripted ?qs (c_database ?c, c_guard ?c, map snd exchanges) =
      (?rs, exchanges, c_database c', c_guard c', [])"
    "avail (rx (c_stream ?c)) = concat frames @ avail (rx (c_stream c'))"
    using quiet_session_in_step by blast
  with c' show ?thesis by auto
qed

end
