(* ===== verification/Requests.thy ===== *)
theory Requests
  imports Network
begin

section \<open>What a server can read from the bytes of a session\<close>

text \<open>
  \<open>write_request\<close> puts no length before a request: the code relies on the server taking each
  \<open>read\<close> for one request, which \<open>Server\<close> shows to fail when the network cuts one. The bytes
  themselves are enough: an encoding that says where it ends can be taken off the front of the
  stream, and then the commands of a session can be read back from its bytes however they arrive.
  CBOR is such an encoding. What they do not survive is a write that fails inside a request.
\<close>

subsection \<open>The interface\<close>

text \<open>A reader of one request that returns what follows it, and its use on a whole stream.\<close>

function requests_in :: "(u8 list \<Rightarrow> ('c \<times> u8 list) option) \<Rightarrow> u8 list \<Rightarrow> 'c list option" where
  "requests_in next_request bs =
     (if bs = [] then Some []
      else case next_request bs of
             None \<Rightarrow> None
           | Some (cmd, rest) \<Rightarrow>
               if length rest < length bs then map_option (\<lambda>cmds. cmd # cmds) (requests_in next_request rest)
               else None)"
  by pat_completeness auto
termination by (relation "measure (\<lambda>(f, bs). length bs)") auto

declare requests_in.simps [simp del]

locale self_delimiting =
  fixes encode :: "'c \<Rightarrow> u8 list"
    and encodable :: "'c \<Rightarrow> bool"
    and next_request :: "u8 list \<Rightarrow> ('c \<times> u8 list) option"
  assumes takes_one: "encodable cmd \<Longrightarrow> next_request (encode cmd @ rest) = Some (cmd, rest)"
    and not_empty: "encode cmd \<noteq> []"
begin

lemma reads_all: "list_all encodable cmds \<Longrightarrow> requests_in next_request (concat (map encode cmds)) = Some cmds"
proof (induction cmds)
  case Nil
  show ?case by (subst requests_in.simps) simp
next
  case (Cons cmd cmds)
  let ?rest = "concat (map encode cmds)"
  have "next_request (encode cmd @ ?rest) = Some (cmd, ?rest)" using Cons.prems by (simp add: takes_one)
  moreover have "length ?rest < length (encode cmd @ ?rest)" using not_empty [of cmd] by simp
  moreover have "requests_in next_request ?rest = Some cmds" using Cons by simp
  moreover have "encode cmd @ ?rest \<noteq> []" using not_empty [of cmd] by simp
  ultimately have "requests_in next_request (encode cmd @ ?rest) = Some (cmd # cmds)"
    unfolding requests_in.simps [of next_request "encode cmd @ ?rest"] by (simp only: if_False option.case prod.case if_True option.map)
  then show ?case by simp
qed

text \<open>So the bytes determine the commands.\<close>

lemma bytes_determine:
  assumes "list_all encodable cmds" "list_all encodable cmds'"
    and "concat (map encode cmds) = concat (map encode cmds')"
  shows "cmds = cmds'"
  using reads_all [OF assms(1)] reads_all [OF assms(2)] unfolding assms(3) by (metis option.inject)

end

subsection \<open>CBOR\<close>

definition cbor_request :: "u8 list \<Rightarrow> (command_with_args \<times> u8 list) option" where
  "cbor_request bs =
     Option.bind (dec (2 * length bs + 1) bs) (\<lambda>(x, rest).
       map_option (\<lambda>cmd. (cmd, rest)) (de_command_with_args x))"

definition request_encoding :: "command_with_args \<Rightarrow> u8 list" where
  "request_encoding cmd = cbor_encode (ser_command_with_args cmd)"

lemma cbor_request_takes_one:
  assumes "cbor_ok (ser_command_with_args cmd)"
  shows "cbor_request (request_encoding cmd @ rest) = Some (cmd, rest)"
proof -
  have "dec (2 * length (request_encoding cmd @ rest) + 1) (request_encoding cmd @ rest) =
      Some (ser_command_with_args cmd, rest)"
    unfolding request_encoding_def by (rule dec_encode [OF assms]) simp
  then show ?thesis by (simp add: cbor_request_def de_command_with_args_ser)
qed

interpretation cbor_requests: self_delimiting request_encoding "\<lambda>cmd. cbor_ok (ser_command_with_args cmd)" cbor_request
  by unfold_locales (simp_all add: cbor_request_takes_one, simp add: request_encoding_def)

text \<open>A request within the limit can be decoded.\<close>

lemma small_request_ok:
  "length (cbor_encode (ser_command_with_args cmd)) \<le> 1024 \<Longrightarrow> cbor_ok (ser_command_with_args cmd)"
  by (rule short_command_ok) simp

subsection \<open>Sessions\<close>

lemma net_call_encodes:
  "net_call L q st = (r, xs, st') \<Longrightarrow> list_all (\<lambda>(cmd, k). \<exists>bytes. encode_request L cmd = Inr bytes) xs"
  by (auto simp: net_call_def split: prod.splits sum.splits option.splits)

lemma net_run_encodes:
  "net_run L qs st = (rs, xs, st') \<Longrightarrow> list_all (\<lambda>(cmd, k). \<exists>bytes. encode_request L cmd = Inr bytes) xs"
proof (induction qs arbitrary: st rs xs st')
  case (Cons q qs)
  obtain r xs1 st1 where s1: "net_call L q st = (r, xs1, st1)" by (metis prod_cases3)
  obtain rs2 xs2 st2 where s2: "net_run L qs st1 = (rs2, xs2, st2)" by (metis prod_cases3)
  from Cons.prems s1 s2 have "xs = xs1 @ xs2" by simp
  with net_call_encodes [OF s1] Cons.IH [OF s2] show ?case by simp
qed simp

text \<open>The requests before the first one that was cut.\<close>

definition went_through :: "libs \<Rightarrow> command_with_args \<times> nat \<Rightarrow> bool" where
  "went_through L x \<longleftrightarrow> (case x of (cmd, k) \<Rightarrow> k = length (request_bytes L cmd))"

lemma wire_bytes_through:
  "list_all (went_through L) sent \<Longrightarrow> wire_bytes L sent = concat (map (request_bytes L) (map fst sent))"
  by (induction sent) (auto simp: went_through_def)

lemma encoded_requests:
  assumes "list_all (\<lambda>cmd. \<exists>bytes. encode_request reference_libs cmd = Inr bytes) cmds"
  shows "list_all (\<lambda>cmd. cbor_ok (ser_command_with_args cmd)) cmds"
    and "map (request_bytes reference_libs) cmds = map request_encoding cmds"
proof -
  have "cbor_ok (ser_command_with_args cmd)" if "cmd \<in> set cmds" for cmd
  proof -
    have "length (cbor_encode (ser_command_with_args cmd)) \<le> 1024"
      using assms that by (auto simp: list_all_iff encode_request_def and_then_def map_err_def max_request_bytes_def
        split: if_splits)
    then show ?thesis by (rule small_request_ok)
  qed
  then show "list_all (\<lambda>cmd. cbor_ok (ser_command_with_args cmd)) cmds" by (simp add: list_all_iff)
  show "map (request_bytes reference_libs) cmds = map request_encoding cmds"
    by (simp add: request_bytes_def request_encoding_def)
qed

text \<open>C20: the bytes of a session say what it asked for: on every network, whatever arrives and
  whatever becomes of the writes, a reader that takes one CBOR item after another off the bytes the
  session wrote gets exactly the commands that were sent, in order, although nothing is put between
  them, up to the first one whose write failed.\<close>

theorem session_bytes_read_back:
  assumes "net_run reference_libs qs (c_database c, c_guard c, wr (c_stream c), deliveries (rx (c_stream c))) =
    (results, sent, st)"
  shows "\<exists>c' bytes cut. invoke_all reference_libs qs c = (results, c')
    \<and> tx (c_stream c') = tx (c_stream c) @ bytes @ cut
    \<and> requests_in cbor_request bytes = Some (map fst (takeWhile (went_through reference_libs) sent))
    \<and> (cut \<noteq> [] \<longrightarrow> \<not> list_all (went_through reference_libs) sent)"
proof -
  let ?ok = "takeWhile (went_through reference_libs) sent"
  let ?cut = "dropWhile (went_through reference_libs) sent"
  obtain c' where c': "invoke_all reference_libs qs c = (results, c')"
    "tx (c_stream c') = tx (c_stream c) @ wire_bytes reference_libs sent"
    using invoke_all_network [of reference_libs qs c] assms by (auto simp: stands_def net_state_def link_of_def)
  have "wire_bytes reference_libs sent = wire_bytes reference_libs ?ok @ wire_bytes reference_libs ?cut"
    by (metis takeWhile_dropWhile_id wire_bytes_simps(3))
  moreover have "list_all (went_through reference_libs) ?ok" by (auto simp: list_all_iff dest: set_takeWhileD)
  then have "wire_bytes reference_libs ?ok = concat (map (request_bytes reference_libs) (map fst ?ok))"
    by (rule wire_bytes_through)
  moreover have "list_all (\<lambda>cmd. \<exists>bytes. encode_request reference_libs cmd = Inr bytes) (map fst ?ok)"
    using net_run_encodes [OF assms] by (fastforce simp: list_all_iff dest: set_takeWhileD)
  then have "requests_in cbor_request (concat (map (request_bytes reference_libs) (map fst ?ok))) = Some (map fst ?ok)"
    unfolding encoded_requests(2) [OF \<open>list_all _ (map fst ?ok)\<close>]
    by (intro cbor_requests.reads_all encoded_requests(1))
  moreover have "wire_bytes reference_libs ?cut \<noteq> [] \<Longrightarrow> \<not> list_all (went_through reference_libs) sent"
    unfolding list_all_iff by (metis dropWhile_eq_Nil_conv wire_bytes_simps(1))
  ultimately show ?thesis using c' by auto
qed

text \<open>The second request is cut after five bytes.\<close>

theorem session_bytes_read_back_witness:
  "\<exists>c' bytes cut. invoke_all reference_libs [Commit, Help]
      ((fake_client [])\<lparr>c_stream := (spawn [])\<lparr>wr := [Accept 1024, Accept 5, WrErr timed_out]\<rparr>\<rparr>) =
        ([Inl ConnectionClosed, Inl (Io timed_out)], c')
    \<and> tx (c_stream c') = bytes @ cut \<and> requests_in cbor_request bytes = Some [cwa_db DC_Commit []]"
proof -
  let ?c = "(fake_client [])\<lparr>c_stream := (spawn [])\<lparr>wr := [Accept 1024, Accept 5, WrErr timed_out]\<rparr>\<rparr>"
  let ?n = "\<lambda>cmd. length (request_bytes reference_libs cmd)"
  have e: "encode_request reference_libs (cwa_db DC_Commit []) = Inr (request_bytes reference_libs (cwa_db DC_Commit []))"
    "encode_request reference_libs (cwa_system SC_Help []) = Inr (request_bytes reference_libs (cwa_system SC_Help []))"
    by (simp_all add: request_bytes_def encode_request_def and_then_def map_err_def max_request_bytes_def
        ser_command_with_args_def ser_list_def enc_text_def length_enc_head)
  have l: "0 < ?n (cwa_db DC_Commit [])" "?n (cwa_db DC_Commit []) \<le> 1024" "5 < ?n (cwa_system SC_Help [])"
    by (simp_all add: request_bytes_def ser_command_with_args_def ser_list_def enc_text_def length_enc_head)
  have d: "deliveries (rx (c_stream ?c)) = [([], read_exact_eof)]"
    by (simp add: spawn_def deliveries_Nil)
  have "net_response reference_libs [([], read_exact_eof)] = (Inl ConnectionClosed, [([], read_exact_eof)])"
    by (rule net_response_closed) (simp add: frame_length_def)
  with e l have "net_run reference_libs [Commit, Help] (c_database ?c, c_guard ?c, wr (c_stream ?c),
      deliveries (rx (c_stream ?c))) = ([Inl ConnectionClosed, Inl (Io timed_out)],
      [(cwa_db DC_Commit [], ?n (cwa_db DC_Commit [])), (cwa_system SC_Help [], 5)],
      None, True, [], [([], read_exact_eof)])"
    unfolding d by (auto simp: net_call_def and_then_def exchange_def from_io_def timed_out_def)
  from session_bytes_read_back [OF this] l show ?thesis by (auto simp: went_through_def)
qed

subsection \<open>A write that fails inside a request\<close>

text \<open>C19: a write that fails inside a request, such as a timeout, leaves the part that was sent in
  front of the next request: the next call that can be written sends its own bytes right behind it
  and then takes whatever answer that gets for its own, and nothing on the wire tells the server
  where the next request begins.\<close>

theorem cut_request_spoils_next:
  assumes "encode_request L cmd1 = Inr bytes1" and "encode_request L cmd2 = Inr bytes2"
    and "write_run (length bytes1) (wr (c_stream c)) = (k, Some e, ws)" and "takes L [cmd2] ws = Some ws'"
  shows "k < length bytes1 \<and> (\<exists>c' c''. round_trip L cmd1 c = (Inl (from_io e), c')
    \<and> round_trip L cmd2 c' = (fst (net_response L (deliveries (rx (c_stream c)))), c'')
    \<and> tx (c_stream c'') = tx (c_stream c) @ take k bytes1 @ bytes2)"
proof -
  have "exchange L (length bytes1) (link_of (c_stream c)) =
      (Inl (from_io e), k, ws, deliveries (rx (c_stream c)))"
    using assms(3) by (simp add: exchange_def link_of_def)
  from round_trip_network [OF assms(1) this] obtain c' where c': "round_trip L cmd1 c = (Inl (from_io e), c')"
    "stands L c [(cmd1, k)] (c_database c, c_guard c, ws, deliveries (rx (c_stream c))) c'" by blast
  then have s: "wr (c_stream c') = ws" "deliveries (rx (c_stream c')) = deliveries (rx (c_stream c))"
    "tx (c_stream c') = tx (c_stream c) @ take k bytes1"
    using request_bytes_eq [OF assms(1)] by (simp_all add: stands_def net_state_def link_of_def)
  obtain c'' where "round_trip L cmd2 c' = (fst (net_response L (deliveries (rx (c_stream c)))), c'')"
    "stands L c' [in_full L cmd2] (c_database c', c_guard c', ws', snd (net_response L (deliveries (rx (c_stream c))))) c''"
    using round_trip_takes [OF _ assms(2) surjective_pairing, of c' ws'] assms(4) s by auto
  moreover from this(2) have "tx (c_stream c'') = tx (c_stream c) @ take k bytes1 @ bytes2"
    using s request_bytes_eq [OF assms(2)] by (simp add: stands_def in_full_def)
  ultimately show ?thesis using c'(1) write_run_all_or_error [OF assms(3)] by auto
qed

text \<open>The first bytes of one request in front of another are no request at all.\<close>

theorem cut_request_spoils_next_witness:
  "\<exists>c' c'' bytes. round_trip reference_libs (cwa_system SC_Help [])
      ((fake_client [])\<lparr>c_stream := (spawn [])\<lparr>wr := [Accept 5, WrErr timed_out]\<rparr>\<rparr>) = (Inl (Io timed_out), c')
    \<and> round_trip reference_libs (cwa_db DC_Commit []) c' = (Inl ConnectionClosed, c'')
    \<and> tx (c_stream c'') = bytes \<and> cbor_request bytes = None"
proof -
  let ?c = "(fake_client [])\<lparr>c_stream := (spawn [])\<lparr>wr := [Accept 5, WrErr timed_out]\<rparr>\<rparr>"
  let ?b1 = "cbor_encode (ser_command_with_args (cwa_system SC_Help []))"
  let ?b2 = "cbor_encode (ser_command_with_args (cwa_db DC_Commit []))"
  have e: "encode_request reference_libs (cwa_system SC_Help []) = Inr ?b1"
    "encode_request reference_libs (cwa_db DC_Commit []) = Inr ?b2"
    by (simp_all add: encode_request_def and_then_def map_err_def max_request_bytes_def
        ser_command_with_args_def ser_list_def enc_text_def length_enc_head)
  have l: "5 < length ?b1"
    by (simp add: ser_command_with_args_def ser_list_def enc_text_def length_enc_head)
  have d: "deliveries (rx (c_stream ?c)) = [([], read_exact_eof)]"
    by (simp add: spawn_def deliveries_Nil)
  have n: "net_response reference_libs [([], read_exact_eof)] = (Inl ConnectionClosed, [([], read_exact_eof)])"
    by (rule net_response_closed) (simp add: frame_length_def)
  have b: "cbor_request (take 5 ?b1 @ ?b2) = None" by code_simp
  have t: "from_io timed_out = Io timed_out" "io_kind timed_out \<noteq> Interrupted"
    by (simp_all add: from_io_def timed_out_def)
  have w: "write_run (length ?b1) (wr (c_stream ?c)) = (5, Some timed_out, [])"
    using l t(2) by (cases "?b1") (simp_all add: timed_out_def)
  have "takes reference_libs [cwa_db DC_Commit []] [] = Some []" by simp
  from cut_request_spoils_next [OF e w this] t d n b
  show ?thesis by (auto simp del: cbor_encode.simps)
qed

end
