(* ===== verification/Concurrent.thy ===== *)
theory Concurrent
  imports Network Server
begin

section \<open>A session of calls against the scripted server\<close>

text \<open>
  The two sides put together: the calls of a client, as \<open>client.rs\<close> performs them, interleaved
  with the thread of the fake server and the network between them. A call that asks the server
  puts its encoding on the network and waits; it returns once what has arrived holds a whole
  frame, or once the server is gone and no more can arrive. What the call returns, and what it
  leaves unread, is the client's own \<open>invoke\<close> on the bytes that have arrived. The network delivers
  each request in one piece, writes go through while the server is there, and the client can decode
  the responses (\<open>fit\<close>). Then, whatever the order of the steps, the results are those of the
  sequential specification against the script.
\<close>

subsection \<open>The system\<close>

text \<open>The bytes a call sends, if it sends any.\<close>

definition request_for :: "libs \<Rightarrow> bool \<Rightarrow> call \<Rightarrow> u8 list option" where
  "request_for L g q =
     (case asks g q of
        Inr (Some cmd) \<Rightarrow> (case encode_request L cmd of Inl _ \<Rightarrow> None | Inr bytes \<Rightarrow> Some bytes)
      | _ \<Rightarrow> None)"

text \<open>The world of \<open>Server\<close>, the client between two calls, the calls to come, whether the first of
  them waits for its answer, how many of the bytes received the client has read, and the results
  so far.\<close>

record system =
  outside :: world
  agent :: client
  todo :: "call list"
  waiting :: bool
  consumed :: nat
  results :: "(error + reply) list"

definition start_system :: "client \<Rightarrow> call list \<Rightarrow> response list \<Rightarrow> system" where
  "start_system c qs responses =
     \<lparr>outside = start_world responses, agent = c, todo = qs, waiting = False, consumed = 0, results = []\<rparr>"

definition unread :: "system \<Rightarrow> u8 list" where
  "unread s = drop (consumed s) (got (outside s))"

text \<open>The client when it reads what has arrived and not been read.\<close>

definition fed :: "system \<Rightarrow> client" where
  "fed s = (agent s)\<lparr>c_stream := (c_stream (agent s))\<lparr>rx := [Chunk (unread s)]\<rparr>\<rparr>"

definition sends_to :: "u8 list \<Rightarrow> world \<Rightarrow> world" where
  "sends_to bytes w = w\<lparr>sent := sent w @ [bytes], in_flight := in_flight w @ bytes\<rparr>"

text \<open>\<open>surroundings\<close>: a step of the network, which delivers requests in one piece, or of the server.
  \<open>hung_up\<close>: with the server gone and everything it wrote received, the calls left run on the
  closed connection, to which nothing more can come and whose writes may do anything; that of a
  call that waits is already behind it.\<close>

definition writes_left :: "libs \<Rightarrow> system \<Rightarrow> wr_event list \<Rightarrow> bool" where
  "writes_left L s ws \<longleftrightarrow>
     (waiting s \<longrightarrow>
        (case request_for L (c_guard (agent s)) (hd (todo s)) of
           None \<Rightarrow> False
         | Some bytes \<Rightarrow> fst (snd (write_run (length bytes) ws)) = None))"

definition fed_closed :: "wr_event list \<Rightarrow> system \<Rightarrow> client" where
  "fed_closed ws s = (fed s)\<lparr>c_stream := (c_stream (fed s))\<lparr>wr := ws\<rparr>\<rparr>"

inductive system_step :: "libs \<Rightarrow> response list \<Rightarrow> system \<Rightarrow> system \<Rightarrow> bool" for L responses where
  locally: "todo s = q # qs \<Longrightarrow> \<not> waiting s \<Longrightarrow> request_for L (c_guard (agent s)) q = None \<Longrightarrow>
    invoke L q (agent s) = (r, c) \<Longrightarrow>
    system_step L responses s (s\<lparr>agent := c, todo := qs, results := results s @ [r]\<rparr>)"
| asks_server: "todo s = q # qs \<Longrightarrow> \<not> waiting s \<Longrightarrow> request_for L (c_guard (agent s)) q = Some bytes \<Longrightarrow>
    length (sent (outside s)) < length responses \<Longrightarrow>
    system_step L responses s (s\<lparr>outside := sends_to bytes (outside s), waiting := True\<rparr>)"
| surroundings: "world_step L responses True (outside s) w \<Longrightarrow> sent w = sent (outside s) \<Longrightarrow>
    system_step L responses s (s\<lparr>outside := w\<rparr>)"
| answered: "todo s = q # qs \<Longrightarrow> waiting s \<Longrightarrow> frame_length (unread s) \<le> length (unread s) \<Longrightarrow>
    invoke L q (fed s) = (r, c) \<Longrightarrow>
    system_step L responses s (s\<lparr>agent := c, todo := qs, waiting := False,
      consumed := received (outside s) - length (avail (rx (c_stream c))), results := results s @ [r]\<rparr>)"
| hung_up: "todo s \<noteq> [] \<Longrightarrow> thread (peer (outside s)) = Hung_Up \<Longrightarrow>
    received (outside s) = length (written (peer (outside s))) \<Longrightarrow>
    length (unread s) < frame_length (unread s) \<Longrightarrow> writes_left L s ws \<Longrightarrow>
    invoke_all L (todo s) (fed_closed ws s) = (rs, c) \<Longrightarrow>
    system_step L responses s (s\<lparr>agent := c, todo := [], waiting := False, results := results s @ rs\<rparr>)"

inductive system_reachable :: "libs \<Rightarrow> response list \<Rightarrow> client \<Rightarrow> call list \<Rightarrow> system \<Rightarrow> bool"
  for L responses c qs where
  initially: "system_reachable L responses c qs (start_system c qs responses)"
| step: "system_reachable L responses c qs s \<Longrightarrow> system_step L responses s s' \<Longrightarrow>
    system_reachable L responses c qs s'"

subsection \<open>Calls of the specification\<close>

lemma spec_call_local:
  assumes "request_for L g q = None"
  shows "\<exists>r d' g'. spec_call L scripted q (d, g, rs) = (r, [], d', g', rs)"
  using assms by (auto simp: spec_call_scripted request_for_def split: sum.splits option.splits)

lemma spec_call_asking:
  assumes "request_for L g q = Some bytes"
  shows "\<exists>r cmd d'. spec_call L scripted q (d, g, rs) = (r, [(cmd, hd rs)], d', g, tl rs)
    \<and> encode_request L cmd = Inr bytes"
  using assms by (auto simp: spec_call_scripted request_for_def split: sum.splits option.splits)

subsection \<open>What has arrived and not been read\<close>

lemma received_frames:
  assumes "reachable L responses True w" "n \<le> length responses"
    and "length (frames (take n responses)) \<le> received w"
  shows "got w = frames (take n responses) @ drop (length (frames (take n responses))) (got w)"
    and "length (got w) = received w"
proof -
  let ?f = "frames (take n responses)"
  show l: "length (got w) = received w"
    using reachable_in_step [OF assms(1)] by (simp add: in_step_def got_def)
  obtain q where "got w @ q = frames responses"
    using received_is_prefix_of_script [OF assms(1)] unfolding frames_spawn by blast
  moreover have "frames responses = ?f @ frames (drop n responses)"
    by (metis append_take_drop_id frames_simps(3))
  ultimately have "take (length ?f) (got w) = ?f"
    using assms(3) l by (metis append_eq_conv_conj take_append append_Nil2 diff_is_0_eq take_0)
  then show "got w = ?f @ drop (length ?f) (got w)" by (metis append_take_drop_id)
qed

lemma nothing_unread:
  assumes "reachable L responses True w" "length (sent w) = n"
    and "length (frames (take n responses)) \<le> received w" "n \<le> length responses"
  shows "got w = frames (take n responses)"
proof -
  obtain p where "got w @ p = frames (take n responses)"
    using reads_in_step [OF assms(1)] assms(2) by auto
  then show ?thesis using received_frames [OF assms(1,4,3)]
    by (metis append_self_conv append_assoc append_is_Nil_conv)
qed

lemma unread_prefix:
  assumes "reachable L responses True w" "length (sent w) = Suc n"
    and "length (frames (take n responses)) \<le> received w" "n < length responses"
  shows "\<exists>p. drop (length (frames (take n responses))) (got w) @ p = response_frame (responses ! n)"
proof -
  let ?f = "frames (take n responses)"
  obtain p where "got w @ p = frames (take (Suc n) responses)"
    using reads_in_step [OF assms(1)] assms(2) by auto
  then have "got w @ p = ?f @ response_frame (responses ! n)" using frames_take_Suc [OF assms(4)] by simp
  moreover have "got w = ?f @ drop (length ?f) (got w)"
    using received_frames(1) [OF assms(1) _ assms(3)] assms(4) by simp
  ultimately have "?f @ drop (length ?f) (got w) @ p = ?f @ response_frame (responses ! n)"
    by (metis append_assoc)
  then show ?thesis by blast
qed

lemma complete_frame:
  assumes "bs @ p = server_frame body" "frame_length bs \<le> length bs" "length body \<le> unat max_response_bytes"
  shows "bs = server_frame body"
proof (rule ccontr)
  assume "bs \<noteq> server_frame body"
  with assms(1) have "p \<noteq> []" by auto
  then have "length bs < length (server_frame body)" using assms(1) by (metis length_append length_greater_0_conv less_add_same_cancel1)
  moreover have "bs = take (length bs) (server_frame body)" using assms(1) by (metis append_eq_conv_conj)
  ultimately show False using frame_length_truncated [of "length bs" body] assms(2,3) by (metis not_le)
qed

lemma frame_is_complete:
  assumes "length body \<le> unat max_response_bytes" "body \<noteq> []"
  shows "frame_length (server_frame body) \<le> length (server_frame body)"
  using parse_frame_body(2) [OF assms(2,1), of "[]"] by (simp add: server_frame_def)

subsection \<open>The invariant\<close>

text \<open>
  While the server answers: the calls \<open>don\<close> made so far have the results and the exchanges \<open>xs\<close>
  of the specification, the client stands where the specification does, it has read one frame
  for each exchange, and the requests sent are those of the exchanges and of the call that waits.
\<close>

definition underway ::
    "libs \<Rightarrow> response list \<Rightarrow> client \<Rightarrow> call list \<Rightarrow> system \<Rightarrow> call list
       \<Rightarrow> (command_with_args \<times> response) list \<Rightarrow> bool" where
  "underway L responses c qs s don xs \<longleftrightarrow>
     qs = don @ todo s
     \<and> spec_run L scripted don (c_database c, c_guard c, responses) =
         (results s, xs, c_database (agent s), c_guard (agent s), drop (length xs) responses)
     \<and> length xs \<le> length responses
     \<and> accepting (wr (c_stream (agent s)))
     \<and> tx (c_stream (agent s)) = tx (c_stream c) @ concat (map (\<lambda>(cmd, r). request_bytes L cmd) xs)
     \<and> consumed s = length (frames (take (length xs) responses))
     \<and> consumed s \<le> received (outside s)
     \<and> reachable L responses True (outside s)
     \<and> (if waiting s
         then \<exists>q qs' bytes. todo s = q # qs' \<and> request_for L (c_guard (agent s)) q = Some bytes
           \<and> sent (outside s) = map (\<lambda>(cmd, r). request_bytes L cmd) xs @ [bytes]
         else sent (outside s) = map (\<lambda>(cmd, r). request_bytes L cmd) xs)"

text \<open>After the server has hung up: the calls answered, and the ones that found it gone. Unless the
  connection failed, that is after the whole script and with no request unanswered.\<close>

definition cut_off :: "libs \<Rightarrow> response list \<Rightarrow> client \<Rightarrow> call list \<Rightarrow> system \<Rightarrow> bool" where
  "cut_off L responses c qs s \<longleftrightarrow>
     todo s = [] \<and> \<not> waiting s \<and> thread (peer (outside s)) = Hung_Up
     \<and> (\<exists>don rest rs xs g u ws. qs = don @ rest
          \<and> spec_run L scripted don (c_database c, c_guard c, responses) =
              (rs, xs, c_database (agent s), g, drop (length xs) responses)
          \<and> length xs \<le> length responses \<and> results s = rs @ closed_run L (g, ws) rest
          \<and> (u \<noteq> [] \<longrightarrow> rest \<noteq> [] \<and> hd (closed_run L (g, ws) rest) = Inl ConnectionClosed)
          \<and> sent (outside s) = map (\<lambda>(cmd, r). request_bytes L cmd) xs @ u \<and> length u \<le> 1
          \<and> (\<not> broken (peer (outside s)) \<longrightarrow> length xs = length responses \<and> u = []))"

lemma underway_start:
  "accepting (wr (c_stream c)) \<Longrightarrow> underway L responses c qs (start_system c qs responses) [] []"
  by (simp add: underway_def start_system_def start_world_def reachable.initially [unfolded start_world_def])

lemma underway_locally:
  assumes "underway L responses c qs s don xs" "todo s = q # qs'" "\<not> waiting s"
    and "request_for L (c_guard (agent s)) q = None" "invoke L q (agent s) = (r, c')"
  shows "underway L responses c qs (s\<lparr>agent := c', todo := qs', results := results s @ [r]\<rparr>) (don @ [q]) xs"
proof -
  obtain r0 d g where sp: "spec_call L scripted q (c_database (agent s), c_guard (agent s),
      drop (length xs) responses) = (r0, [], d, g, drop (length xs) responses)"
    using spec_call_local [OF assms(4)] by metis
  have "carries L (\<lambda>r. []) (agent s) [] (avail (rx (c_stream (agent s)))) (wr (c_stream (agent s)))"
    using assms(1) by (simp add: carries_def)
  from invoke_refines [OF sp this] assms(5) have "r = r0"
    and "arrived L (agent s) [] (avail (rx (c_stream (agent s)))) (wr (c_stream (agent s))) (d, g) c'"
    by simp_all
  with assms(1-3) sp show ?thesis
    by (simp add: underway_def arrived_def spec_run_append)
qed

lemma underway_asks:
  assumes "underway L responses c qs s don xs" "todo s = q # qs'" "\<not> waiting s"
    and "request_for L (c_guard (agent s)) q = Some bytes" "length (sent (outside s)) < length responses"
    and "\<And>cmd. encode_request L cmd \<noteq> Inr []"
  shows "underway L responses c qs (s\<lparr>outside := sends_to bytes (outside s), waiting := True\<rparr>) don xs"
proof -
  obtain cmd where e: "encode_request L cmd = Inr bytes"
    using assms(4) by (auto simp: request_for_def split: sum.splits option.splits)
  have w: "reachable L responses True (outside s)" "length (sent (outside s)) = length xs"
    "length (frames (take (length xs) responses)) \<le> received (outside s)" "length xs \<le> length responses"
    using assms(1,3) by (simp_all add: underway_def)
  have "bytes \<noteq> []" using e assms(6) by auto
  then have "world_step L responses True (outside s) (sends_to bytes (outside s))"
    unfolding sends_to_def using e assms(5) nothing_unread [OF w] w(2) by (intro world_step.request) simp_all
  with w(1) have "reachable L responses True (sends_to bytes (outside s))" by (rule reachable.step)
  with assms(1-4) show ?thesis by (simp add: underway_def sends_to_def)
qed

lemma world_step_received:
  "world_step L responses whole w w' \<Longrightarrow> received w \<le> received w'"
  by (erule world_step.cases) simp_all

lemma underway_surroundings:
  assumes "underway L responses c qs s don xs" "world_step L responses True (outside s) w"
    and "sent w = sent (outside s)"
  shows "underway L responses c qs (s\<lparr>outside := w\<rparr>) don xs"
  using assms world_step_received [OF assms(2)]
  by (auto simp: underway_def intro: reachable.step)

text \<open>The bytes of the answer, once they are all there.\<close>

lemma answer_there:
  assumes "underway L responses c qs s don xs" "waiting s" "frame_length (unread s) \<le> length (unread s)"
    and "list_all (readable L (\<lambda>r. cbor_encode (ser_response r))) responses"
  shows "length xs < length responses" "unread s = response_frame (responses ! length xs)"
    "received (outside s) = length (frames (take (Suc (length xs)) responses))"
proof -
  have w: "reachable L responses True (outside s)" "length (sent (outside s)) = Suc (length xs)"
    "length (frames (take (length xs) responses)) \<le> received (outside s)" "length xs \<le> length responses"
    and u: "unread s = drop (length (frames (take (length xs) responses))) (got (outside s))"
    using assms(1,2) by (auto simp: underway_def unread_def)
  then show n: "length xs < length responses"
    using reachable_in_step [OF w(1)] by (simp add: in_step_def)
  have "length (cbor_encode (ser_response (responses ! length xs))) \<le> unat max_response_bytes"
    using assms(4) n by (simp add: list_all_length readable_def)
  then show f: "unread s = response_frame (responses ! length xs)"
    using unread_prefix [OF w(1-3) n] complete_frame assms(3) u unfolding response_frame_def by metis
  show "received (outside s) = length (frames (take (Suc (length xs)) responses))"
    using received_frames [OF w(1) _ w(3)] n f u frames_take_Suc [OF n] by (metis less_imp_le)
qed

lemma underway_answered:
  assumes "underway L responses c qs s don xs" "todo s = q # qs'" "waiting s"
    and "frame_length (unread s) \<le> length (unread s)" "invoke L q (fed s) = (r, c')"
    and "list_all (readable L (\<lambda>r. cbor_encode (ser_response r))) responses"
  shows "\<exists>x. underway L responses c qs (s\<lparr>agent := c', todo := qs', waiting := False,
      consumed := received (outside s) - length (avail (rx (c_stream c'))), results := results s @ [r]\<rparr>)
    (don @ [q]) (xs @ [x])"
proof -
  let ?n = "length xs"
  let ?a = "responses ! ?n"
  note there = answer_there [OF assms(1,3,4,6)]
  obtain bytes where b: "request_for L (c_guard (agent s)) q = Some bytes"
    and se: "sent (outside s) = map (\<lambda>(cmd, r). request_bytes L cmd) xs @ [bytes]"
    using assms(1-3) by (auto simp: underway_def)
  have hd: "hd (drop ?n responses) = ?a" "tl (drop ?n responses) = drop (Suc ?n) responses"
    using there(1) by (simp_all add: hd_drop_conv_nth drop_Suc tl_drop)
  obtain r0 cmd d where sp: "spec_call L scripted q (c_database (agent s), c_guard (agent s),
      drop ?n responses) = (r0, [(cmd, ?a)], d, c_guard (agent s), drop (Suc ?n) responses)"
    and e: "encode_request L cmd = Inr bytes"
    using spec_call_asking [OF b] hd by metis
  obtain ws where ws: "takes L [cmd] (wr (c_stream (fed s))) = Some ws" "accepting ws"
    using takes_accepting [of "wr (c_stream (fed s))" L "[cmd]"] assms(1) by (auto simp: fed_def underway_def)
  then have "carries L (\<lambda>r. cbor_encode (ser_response r)) (fed s) [(cmd, ?a)] [] ws"
    using assms(6) there by (simp add: carries_def fed_def response_frame_def list_all_length)
  moreover have "c_database (fed s) = c_database (agent s)" "c_guard (fed s) = c_guard (agent s)"
    "tx (c_stream (fed s)) = tx (c_stream (agent s))" by (simp_all add: fed_def)
  ultimately have "r = r0" and "arrived L (fed s) [(cmd, ?a)] [] ws (d, c_guard (agent s)) c'"
    using invoke_refines [of L scripted q "fed s" "drop ?n responses" r0] sp assms(5) by auto
  with assms(1-3) sp there se e ws(2) show ?thesis
    by (intro exI [of _ "(cmd, ?a)"])
      (auto simp: underway_def arrived_def spec_run_append fed_def request_bytes_eq)
qed

lemma closed_run_waiting:
  assumes "writes_left L s ws" "waiting s" "todo s \<noteq> []"
  shows "hd (closed_run L (c_guard (agent s), ws) (todo s)) = Inl ConnectionClosed"
  using assms
  by (cases "todo s") (auto simp: writes_left_def request_for_def closed_call_def split: sum.splits option.splits prod.splits)

text \<open>Without a failure everything that was sent has been answered when the server is gone.\<close>

lemma gone_with_script:
  assumes "underway L responses c qs s don xs" "thread (peer (outside s)) = Hung_Up"
    and "\<not> broken (peer (outside s))" "received (outside s) = length (written (peer (outside s)))"
    and "length (unread s) < frame_length (unread s)"
    and "list_all (readable L (\<lambda>r. cbor_encode (ser_response r))) responses"
  shows "length xs = length responses \<and> \<not> waiting s"
proof -
  have r: "reachable L responses True (outside s)" and x: "length xs \<le> length responses"
    and c: "consumed s = length (frames (take (length xs) responses))"
    using assms(1) by (simp_all add: underway_def)
  have e: "length (reads (peer (outside s))) = length responses" "written (peer (outside s)) = frames responses"
    using reachable_ends_with_script [OF r] assms(2,3) by (simp_all add: ends_with_script_def)
  have "sent (outside s) = reads (peer (outside s))" "length (sent (outside s)) = length responses"
    using reachable_in_step [OF r] e(1) by (auto simp: in_step_def)
  moreover have "length (sent (outside s)) = length xs + (if waiting s then 1 else 0)"
    using assms(1) by (auto simp: underway_def)
  ultimately have n: "length xs + (if waiting s then 1 else 0) = length responses" by simp
  have "\<not> waiting s"
  proof
    assume "waiting s"
    with n have l: "length xs < length responses" "Suc (length xs) = length responses" by simp_all
    have "got (outside s) = frames (take (length xs) responses) @ response_frame (responses ! length xs)"
      using frames_take_Suc [OF l(1)] l(2) e(2) assms(4) by (simp add: got_def)
    then have u: "unread s = response_frame (responses ! length xs)" by (simp add: unread_def c)
    have "readable L (\<lambda>r. cbor_encode (ser_response r)) (responses ! length xs)"
      using assms(6) l(1) by (simp add: list_all_length)
    then have "frame_length (unread s) \<le> length (unread s)"
      unfolding u response_frame_def by (intro frame_is_complete) (simp_all add: readable_def)
    with assms(5) show False by simp
  qed
  with n show ?thesis by simp
qed

lemma cut_off_hung_up:
  assumes "underway L responses c qs s don xs" "thread (peer (outside s)) = Hung_Up"
    and "received (outside s) = length (written (peer (outside s)))"
    and "list_all (readable L (\<lambda>r. cbor_encode (ser_response r))) responses"
    and "length (unread s) < frame_length (unread s)" "writes_left L s ws"
    and "invoke_all L (todo s) (fed_closed ws s) = (rs, c')"
  shows "cut_off L responses c qs (s\<lparr>agent := c', todo := [], waiting := False, results := results s @ rs\<rparr>)"
proof -
  have n: "net_state (fed_closed ws s) = (c_database (agent s), c_guard (agent s), ws, [(unread s, read_exact_eof)])"
    by (simp add: net_state_def link_of_def fed_closed_def fed_def deliveries_def)
  obtain ys l where "net_run L (todo s) (net_state (fed_closed ws s)) =
      (closed_run L (c_guard (agent s), ws) (todo s), ys, c_database (agent s), l)"
    using net_run_closed [OF assms(5)] unfolding n by blast
  then have rs: "rs = closed_run L (c_guard (agent s), ws) (todo s)" "c_database c' = c_database (agent s)"
    using invoke_all_network [of L "todo s" "fed_closed ws s"] assms(7) by (auto simp: stands_def net_state_def)
  have spec: "qs = don @ todo s" "spec_run L scripted don (c_database c, c_guard c, responses) =
      (results s, xs, c_database (agent s), c_guard (agent s), drop (length xs) responses)"
    "length xs \<le> length responses" using assms(1) by (simp_all add: underway_def)
  have intact: "\<not> broken (peer (outside s)) \<Longrightarrow> length xs = length responses \<and> \<not> waiting s"
    using gone_with_script [OF assms(1,2) _ assms(3,5,4)] .
  show ?thesis
  proof (cases "waiting s")
    case True
    then obtain bytes where "todo s \<noteq> []" "sent (outside s) = map (\<lambda>(cmd, r). request_bytes L cmd) xs @ [bytes]"
      using assms(1) by (auto simp: underway_def)
    moreover from this(1) have "hd rs = Inl ConnectionClosed"
      using closed_run_waiting [OF assms(6) True] rs(1) by simp
    moreover have "broken (peer (outside s))" using intact True by blast
    ultimately show ?thesis using spec rs assms(2) unfolding cut_off_def
      by (intro conjI exI [of _ don] exI [of _ "todo s"] exI [of _ "results s"] exI [of _ xs]
          exI [of _ "c_guard (agent s)"] exI [of _ "[bytes]"] exI [of _ ws]) simp_all
  next
    case False
    with assms(1) have "sent (outside s) = map (\<lambda>(cmd, r). request_bytes L cmd) xs" by (simp add: underway_def)
    with spec rs assms(2) intact show ?thesis unfolding cut_off_def
      by (intro conjI exI [of _ don] exI [of _ "todo s"] exI [of _ "results s"] exI [of _ xs]
          exI [of _ "c_guard (agent s)"] exI [of _ "[]"] exI [of _ ws]) simp_all
  qed
qed

lemma gone_stays:
  assumes "world_step L responses whole w w'" "thread (peer w) = Hung_Up"
  shows "thread (peer w') = Hung_Up"
  using assms by (auto elim!: world_step.cases server_stepE)

lemma broken_stays:
  assumes "world_step L responses whole w w'" "broken (peer w)"
  shows "broken (peer w')"
  using assms by (auto elim!: world_step.cases server_stepE)

lemma cut_off_surroundings:
  "cut_off L responses c qs s \<Longrightarrow> world_step L responses True (outside s) w \<Longrightarrow> sent w = sent (outside s) \<Longrightarrow>
   cut_off L responses c qs (s\<lparr>outside := w\<rparr>)"
  using gone_stays [of L responses True "outside s" w] broken_stays [of L responses True "outside s" w]
  unfolding cut_off_def by simp blast

inductive_cases system_stepE: "system_step L responses s s'"

text \<open>What is assumed of the libraries, the script and the stream.\<close>

definition fit :: "libs \<Rightarrow> response list \<Rightarrow> client \<Rightarrow> bool" where
  "fit L responses c \<longleftrightarrow>
     accepting (wr (c_stream c)) \<and> list_all (readable L (\<lambda>r. cbor_encode (ser_response r))) responses
     \<and> (\<forall>cmd. encode_request L cmd \<noteq> Inr [])"

lemma underway_or_cut_off:
  assumes "system_reachable L responses c qs s" "fit L responses c"
  shows "(\<exists>don xs. underway L responses c qs s don xs) \<or> cut_off L responses c qs s"
  using assms(1)
proof (induction rule: system_reachable.induct)
  case initially
  then show ?case using underway_start assms(2) unfolding fit_def by blast
next
  case (step s s')
  from step.IH show ?case
  proof
    assume "\<exists>don xs. underway L responses c qs s don xs"
    then obtain don xs where u: "underway L responses c qs s don xs" by blast
    from step.hyps(2) show ?thesis
    proof (cases rule: system_step.cases)
      case (locally q qs' r c')
      then show ?thesis using underway_locally [OF u] by blast
    next
      case (asks_server q qs' bytes)
      then show ?thesis using underway_asks [OF u] assms(2) unfolding fit_def by blast
    next
      case (surroundings w)
      then show ?thesis using underway_surroundings [OF u] by blast
    next
      case (answered q qs' r c')
      then show ?thesis using underway_answered [OF u] assms(2) unfolding fit_def by blast
    next
      case (hung_up ws rs c')
      then show ?thesis using cut_off_hung_up [OF u] assms(2) unfolding fit_def by blast
    qed
  next
    assume c: "cut_off L responses c qs s"
    then have "todo s = []" by (simp add: cut_off_def)
    with step.hyps(2) c show ?thesis
      by (cases rule: system_step.cases) (auto intro: cut_off_surroundings)
  qed
qed

subsection \<open>Progress\<close>

lemma sent_grows: "(world_step L responses True)\<^sup>*\<^sup>* w w' \<Longrightarrow> \<exists>u. sent w' = sent w @ u"
  by (induction rule: rtranclp_induct) (auto elim!: world_step.cases)

lemma surroundings_go_on:
  "(world_step L responses True)\<^sup>*\<^sup>* w w' \<Longrightarrow> sent w' = sent w \<Longrightarrow>
   (system_step L responses)\<^sup>*\<^sup>* (s\<lparr>outside := w\<rparr>) (s\<lparr>outside := w'\<rparr>)"
proof (induction rule: rtranclp_induct)
  case (step w1 w2)
  obtain u v where "sent w1 = sent w @ u" "sent w2 = sent w1 @ v"
    using sent_grows [OF step.hyps(1)] sent_grows [OF r_into_rtranclp [of "world_step L responses True", OF step.hyps(2)]] by blast
  with step.prems have "sent w1 = sent w" "sent w2 = sent w1" by simp_all
  with step.IH system_step.surroundings [of L responses "s\<lparr>outside := w1\<rparr>" w2] step.hyps(2)
  show ?case by fastforce
qed simp

lemma system_reachable_steps:
  "(system_step L responses)\<^sup>*\<^sup>* s s' \<Longrightarrow> system_reachable L responses c qs s \<Longrightarrow>
   system_reachable L responses c qs s'"
  by (induction rule: rtranclp_induct) (auto intro: system_reachable.step)

text \<open>The call that waits gets its answer.\<close>

lemma waiting_answered:
  assumes "system_reachable L responses c qs s" "fit L responses c"
    and "underway L responses c qs s don xs" "waiting s" "thread (peer (outside s)) \<noteq> Hung_Up"
  shows "\<exists>s'. (system_step L responses)\<^sup>*\<^sup>* s s' \<and> length (todo s') < length (todo s)
    \<and> thread (peer (outside s')) \<noteq> Hung_Up \<and> broken (peer (outside s')) = broken (peer (outside s))"
proof -
  obtain w rs where w: "(world_step L responses True)\<^sup>*\<^sup>* (outside s) w" "sent w = sent (outside s)"
    "got w = frames (take (length (sent (outside s))) responses)" "thread (peer w) = Serving rs"
    "broken (peer w) = broken (peer (outside s))"
    using all_answered [of L responses "outside s"] assms(3,5) unfolding underway_def by blast
  let ?s = "s\<lparr>outside := w\<rparr>"
  have st: "(system_step L responses)\<^sup>*\<^sup>* s ?s"
    using surroundings_go_on [OF w(1,2), of s] by simp
  obtain q qs' bytes where q: "todo s = q # qs'"
    "sent (outside s) = map (\<lambda>(cmd, r). request_bytes L cmd) xs @ [bytes]"
    using assms(3,4) by (auto simp: underway_def)
  have n: "length xs < length responses"
    using reachable_in_step [of L responses "outside s"] assms(3) q(2) by (simp add: underway_def in_step_def)
  have "got w = frames (take (length xs) responses) @ response_frame (responses ! length xs)"
    using w(3) q(2) frames_take_Suc [OF n] by simp
  then have u: "unread ?s = response_frame (responses ! length xs)"
    using assms(3) by (simp add: unread_def underway_def)
  have "readable L (\<lambda>r. cbor_encode (ser_response r)) (responses ! length xs)"
    using assms(2) n by (simp add: fit_def list_all_length)
  then have c: "frame_length (unread ?s) \<le> length (unread ?s)"
    unfolding u response_frame_def by (intro frame_is_complete) (simp_all add: readable_def)
  obtain r c' where i: "invoke L q (fed ?s) = (r, c')" by fastforce
  let ?s' = "?s\<lparr>agent := c', todo := qs', waiting := False,
      consumed := received w - length (avail (rx (c_stream c'))), results := results s @ [r]\<rparr>"
  have "system_step L responses ?s ?s'"
    using system_step.answered [of ?s q qs' L r c' responses] q(1) assms(4) c i by simp
  with st have "(system_step L responses)\<^sup>*\<^sup>* s ?s'" by (rule rtranclp.rtrancl_into_rtrancl)
  with q(1) w(4,5) show ?thesis by (intro exI [of _ ?s']) simp
qed

lemma script_left:
  assumes "underway L responses c qs s don xs" "todo s = q # qs'" "request_for L (c_guard (agent s)) q = Some bytes"
    and "spec_run L scripted qs (c_database c, c_guard c, responses) = (rs, all_xs, st)"
    and "length all_xs \<le> length responses"
  shows "length xs < length responses"
proof -
  obtain r cmd d where "spec_call L scripted q (c_database (agent s), c_guard (agent s), drop (length xs) responses) =
      (r, [(cmd, hd (drop (length xs) responses))], d, c_guard (agent s), tl (drop (length xs) responses))"
    using spec_call_asking [OF assms(3)] by blast
  then have "\<exists>ys. all_xs = xs @ (cmd, hd (drop (length xs) responses)) # ys"
    using assms(1,2,4) by (auto simp: underway_def spec_run_append split: prod.splits)
  with assms(5) show ?thesis by auto
qed

lemma not_gone_underway:
  assumes "system_reachable L responses c qs s" "fit L responses c" "thread (peer (outside s)) \<noteq> Hung_Up"
  obtains don xs where "underway L responses c qs s don xs"
  using underway_or_cut_off [OF assms(1,2)] assms(3) by (auto simp: cut_off_def)

lemma one_call_less:
  assumes "system_reachable L responses c qs s" "fit L responses c" "thread (peer (outside s)) \<noteq> Hung_Up"
    and "spec_run L scripted qs (c_database c, c_guard c, responses) = (rs, all_xs, st)"
    and "length all_xs \<le> length responses" "todo s \<noteq> []"
  shows "\<exists>s'. (system_step L responses)\<^sup>*\<^sup>* s s' \<and> length (todo s') < length (todo s)
    \<and> thread (peer (outside s')) \<noteq> Hung_Up"
proof -
  obtain don xs where u: "underway L responses c qs s don xs"
    using not_gone_underway [OF assms(1-3)] .
  obtain q qs' where q: "todo s = q # qs'" using assms(6) by (cases "todo s") auto
  consider (waits) "waiting s" | (here) "\<not> waiting s" "request_for L (c_guard (agent s)) q = None"
    | (there) bytes where "\<not> waiting s" "request_for L (c_guard (agent s)) q = Some bytes"
    by (cases "request_for L (c_guard (agent s)) q") auto
  then show ?thesis
  proof cases
    case waits
    from waiting_answered [OF assms(1,2) u this assms(3)] show ?thesis by blast
  next
    case here
    obtain r c' where i: "invoke L q (agent s) = (r, c')" by fastforce
    let ?s = "s\<lparr>agent := c', todo := qs', results := results s @ [r]\<rparr>"
    have "system_step L responses s ?s" using system_step.locally [OF q here i] .
    then have "(system_step L responses)\<^sup>*\<^sup>* s ?s" by (rule r_into_rtranclp)
    with q assms(3) show ?thesis by (intro exI [of _ ?s]) simp
  next
    case there
    let ?s = "s\<lparr>outside := sends_to bytes (outside s), waiting := True\<rparr>"
    have "length (sent (outside s)) < length responses"
      using script_left [OF u q there(2) assms(4,5)] u there(1) by (simp add: underway_def)
    from system_step.asks_server [OF q there this] have st: "system_step L responses s ?s" .
    with assms(1) have r: "system_reachable L responses c qs ?s" by (rule system_reachable.step)
    have g: "thread (peer (outside ?s)) \<noteq> Hung_Up" using assms(3) by (simp add: sends_to_def)
    obtain don' xs' where "underway L responses c qs ?s don' xs'"
      using not_gone_underway [OF r assms(2) g] .
    from waiting_answered [OF r assms(2) this _ g] obtain s' where
      "(system_step L responses)\<^sup>*\<^sup>* ?s s'" "length (todo s') < length (todo s)"
      "thread (peer (outside s')) \<noteq> Hung_Up" by auto
    with st show ?thesis by (meson converse_rtranclp_into_rtranclp)
  qed
qed

lemma all_calls_made:
  assumes "spec_run L scripted qs (c_database c, c_guard c, responses) = (rs, all_xs, st)"
    and "length all_xs \<le> length responses" "fit L responses c"
  shows "system_reachable L responses c qs s \<Longrightarrow> thread (peer (outside s)) \<noteq> Hung_Up \<Longrightarrow>
    \<exists>s'. (system_step L responses)\<^sup>*\<^sup>* s s' \<and> todo s' = [] \<and> thread (peer (outside s')) \<noteq> Hung_Up"
proof (induction "length (todo s)" arbitrary: s rule: less_induct)
  case less
  show ?case
  proof (cases "todo s = []")
    case True
    with less.prems show ?thesis by blast
  next
    case False
    then obtain s1 where s1: "(system_step L responses)\<^sup>*\<^sup>* s s1" "length (todo s1) < length (todo s)"
      "thread (peer (outside s1)) \<noteq> Hung_Up"
      using one_call_less [OF less.prems(1) assms(3) less.prems(2) assms(1,2)] by blast
    from less.hyps [OF s1(2) system_reachable_steps [OF s1(1) less.prems(1)] s1(3)] s1(1)
    show ?thesis by (meson rtranclp_trans)
  qed
qed

lemma completed:
  assumes "spec_run L scripted qs (c_database c, c_guard c, responses) = (rs, xs, d, g, st)"
    and "length xs \<le> length responses" "fit L responses c"
    and "system_reachable L responses c qs s" "thread (peer (outside s)) \<noteq> Hung_Up"
  shows "\<exists>s'. (system_step L responses)\<^sup>*\<^sup>* s s' \<and> todo s' = [] \<and> results s' = rs
    \<and> c_database (agent s') = d \<and> sent (outside s') = map (\<lambda>(cmd, r). request_bytes L cmd) xs"
proof -
  obtain s' where s': "(system_step L responses)\<^sup>*\<^sup>* s s'" "todo s' = []" "thread (peer (outside s')) \<noteq> Hung_Up"
    using all_calls_made [OF assms(1-5)] by blast
  obtain don ys where "underway L responses c qs s' don ys"
    using not_gone_underway [OF system_reachable_steps [OF s'(1) assms(4)] assms(3) s'(3)] .
  with s' assms(1) show ?thesis by (intro exI [of _ s']) (auto simp: underway_def split: if_splits)
qed

subsection \<open>Properties\<close>

text \<open>C6: against a server whose responses the client can decode, with requests that are delivered in
  one piece and writes that go through while the server is there: whatever the order in which the
  client's calls, the deliveries and the server's thread take their steps, and whenever the
  connection fails on the server's side, the results so far are those of the sequential
  specification against the script, for the calls that were answered, followed, when the server
  has gone, by what a closed connection gives for the others, whatever becomes of their writes:
  the call whose request was already written reports the closed connection. The database recorded
  is the one of the specification, and the requests sent are those of the exchanges, in order, and
  at most one more, which waits for its answer or never got one.\<close>

theorem concurrent_session_results:
  assumes "system_reachable L responses c qs s" and "fit L responses c"
  shows "\<exists>answered_qs lost rs exchanges g more ws.
    qs = answered_qs @ lost @ todo s
    \<and> spec_run L scripted answered_qs (c_database c, c_guard c, responses) =
        (rs, exchanges, c_database (agent s), g, drop (length exchanges) responses)
    \<and> length exchanges \<le> length responses
    \<and> results s = rs @ closed_run L (g, ws) lost
    \<and> (lost \<noteq> [] \<longrightarrow> thread (peer (outside s)) = Hung_Up)
    \<and> (lost \<noteq> [] \<and> more \<noteq> [] \<longrightarrow> hd (closed_run L (g, ws) lost) = Inl ConnectionClosed)
    \<and> sent (outside s) = map (\<lambda>(cmd, r). request_bytes L cmd) exchanges @ more \<and> length more \<le> 1"
  using underway_or_cut_off [OF assms]
proof
  assume "\<exists>don xs. underway L responses c qs s don xs"
  then obtain don xs where u: "underway L responses c qs s don xs" by blast
  then obtain more where "sent (outside s) = map (\<lambda>(cmd, r). request_bytes L cmd) xs @ more" "length more \<le> 1"
    by (cases "waiting s") (auto simp: underway_def)
  with u show ?thesis
    by (intro exI [of _ don] exI [of _ "[]"] exI [of _ "results s"] exI [of _ xs]
        exI [of _ "c_guard (agent s)"] exI [of _ more]) (simp add: underway_def)
next
  assume "cut_off L responses c qs s"
  then obtain don rest rs xs g u ws where "todo s = []" "qs = don @ rest" "thread (peer (outside s)) = Hung_Up"
    "spec_run L scripted don (c_database c, c_guard c, responses) =
       (rs, xs, c_database (agent s), g, drop (length xs) responses)"
    "length xs \<le> length responses" "results s = rs @ closed_run L (g, ws) rest"
    "u \<noteq> [] \<longrightarrow> rest \<noteq> [] \<and> hd (closed_run L (g, ws) rest) = Inl ConnectionClosed"
    "sent (outside s) = map (\<lambda>(cmd, r). request_bytes L cmd) xs @ u" "length u \<le> 1"
    unfolding cut_off_def by blast
  then show ?thesis
    by (intro exI [of _ don] exI [of _ rest] exI [of _ rs] exI [of _ xs] exI [of _ g] exI [of _ u]
        exI [of _ ws]) simp
qed


text \<open>A session that selects a database, is refused a statement and lists the tables.\<close>

definition demo_calls :: "call list" where
  "demo_calls = [Use_Database ''mydb'', Execute ''DELETE FROM t'', Tables]"

definition demo_script :: "response list" where
  "demo_script = [R_Ok, R_SystemMsg ''Tables: users'']"

lemma reference_requests_nonempty: "encode_request reference_libs cmd \<noteq> Inr []"
  by (auto simp: encode_request_def and_then_def map_err_def ser_command_with_args_def split: if_splits)

lemma demo_fit: "fit reference_libs demo_script (fake_client [])"
proof -
  have "plain_response R_Ok" "plain_response (R_SystemMsg ''Tables: users'')"
    by (simp_all add: plain_response_def enc_text_def length_enc_head max_response_bytes_def)
  then show ?thesis
    by (simp add: fit_def demo_script_def readable_plain reference_requests_nonempty)
qed

lemma demo_spec:
  "spec_run reference_libs scripted demo_calls (c_database (fake_client []), c_guard (fake_client []), demo_script) =
     ([Inr Done, Inl (Unsupported ''DELETE statements''), Inr (Names [''users''])],
      [(cwa_system SC_Connect [''mydb''], R_Ok), (cwa_db DC_ShowTables [], R_SystemMsg ''Tables: users'')],
      Some ''mydb'', True, [])"
proof -
  have t: "trim ''mydb'' = ''mydb''" by code_simp
  have i: "inspect ''DELETE FROM t'' = Some (Inl (Unsupported ''DELETE statements''))" by code_simp
  have e: "\<exists>b. encode_request reference_libs (cwa_system SC_Connect [''mydb'']) = Inr b"
    "\<exists>b. encode_request reference_libs (cwa_db DC_ShowTables []) = Inr b"
    by (simp_all add: encode_request_def and_then_def map_err_def max_request_bytes_def
        ser_command_with_args_def ser_list_def enc_text_def length_enc_head)
  show ?thesis
    using e t i populated_messages(4)
    by (auto simp: demo_calls_def demo_script_def scripted_def spec_call_def map_ok_def require_name_def
        execute_guard_def check_def expect_message_def)
qed

lemma demo_not_gone: "thread (peer (outside (start_system c qs responses))) \<noteq> Hung_Up"
  by (simp add: start_system_def start_world_def start_server_def)


theorem concurrent_session_results_witness:
  "\<exists>s :: system. todo s = [] \<and> results s \<noteq> [] \<and> (\<exists>answered_qs lost rs exchanges g ws.
    demo_calls = answered_qs @ lost
    \<and> spec_run reference_libs scripted answered_qs (None, True, demo_script) =
        (rs, exchanges, c_database (agent s), g, drop (length exchanges) demo_script)
    \<and> results s = rs @ closed_run reference_libs (g, ws) lost)"
proof -
  obtain s where "(system_step reference_libs demo_script)\<^sup>*\<^sup>* (start_system (fake_client []) demo_calls demo_script) s"
    and s: "todo s = []" "results s = [Inr Done, Inl (Unsupported ''DELETE statements''), Inr (Names [''users''])]"
    using completed [OF demo_spec _ demo_fit system_reachable.initially demo_not_gone]
    by (auto simp: demo_script_def)
  then have "system_reachable reference_libs demo_script (fake_client []) demo_calls s"
    using system_reachable_steps system_reachable.initially by blast
  from concurrent_session_results [OF this demo_fit] obtain answered_qs lost rs exchanges g ws where
    "demo_calls = answered_qs @ lost @ todo s"
    "spec_run reference_libs scripted answered_qs (c_database (fake_client []), c_guard (fake_client []), demo_script) =
        (rs, exchanges, c_database (agent s), g, drop (length exchanges) demo_script)"
    "results s = rs @ closed_run reference_libs (g, ws) lost" by blast
  then have "demo_calls = answered_qs @ lost" "results s = rs @ closed_run reference_libs (g, ws) lost"
    "spec_run reference_libs scripted answered_qs (None, True, demo_script) =
        (rs, exchanges, c_database (agent s), g, drop (length exchanges) demo_script)"
    using s(1) by simp_all
  moreover have "results s \<noteq> []" using s(2) by simp
  ultimately show ?thesis using s(1) by blast
qed

end
