(* ===== verification/Schedules.thy ===== *)
theory Schedules
  imports Concurrent
begin

section \<open>No deadlock: every schedule ends with all calls returned\<close>

text \<open>
  The client waits for an answer and the server waits for a request; here is that they never wait
  for each other. A state is stuck when no step of the client, the network or the server changes
  anything, a failure of the connection not counted: the server cannot be rescued from a \<open>read\<close>
  that has nothing to return. A stuck state has every call returned, and without a failure with the
  results of the specification. No schedule runs for ever, since every step that changes anything
  uses up a call, a delivery, a part of the script or of what the server has written.
\<close>

subsection \<open>Every step uses something up\<close>










subsection \<open>A state that still has calls to make goes on\<close>











subsection \<open>What a state with no call left holds\<close>




subsection \<open>Properties\<close>




end
