(* ===== verification/Capture.thy ===== *)
theory Capture
  imports Client
begin

section \<open>The capture of the fixture (\<open>src/tests/capture_fixture.rs\<close>)\<close>

text \<open>
  The program that records a server's answer for the tests. It builds its requests by hand, so
  that they do not depend on the types under test, and has its own round trip. An \<open>unwrap\<close> or
  \<open>expect\<close> that panics is \<open>None\<close>. The clock and the writing of the file are outside: the
  definition takes the nanoseconds and returns the bytes of the file.
\<close>

text \<open>A map of \<open>serde_cbor::Value\<close> is a \<open>BTreeMap\<close>, ordered by the length of its text keys
  first; the keys of the program differ in length.\<close>

definition value_map :: "(string \<times> cbor) list \<Rightarrow> cbor" where
  "value_map fs = C_Map (sort_key (\<lambda>f. length (fst f)) fs)"

definition capture_command :: "string \<Rightarrow> string \<Rightarrow> string list \<Rightarrow> u8 list" where
  "capture_command kind variant args =
     (let inner = value_map [(kind, C_Text variant)];
          request = value_map [(''command'', inner), (''args'', C_Array (map C_Text args))]
      in cbor_encode request)"

definition capture_round_trip :: "u8 list \<Rightarrow> tcp_stream \<Rightarrow> (u8 list \<times> tcp_stream) option" where
  "capture_round_trip request s =
     (case write_all request s of
        (Inl _, _) \<Rightarrow> None
      | (Inr _, s) \<Rightarrow>
          (case tcp_flush s of
             (Inl _, _) \<Rightarrow> None
           | (Inr _, s) \<Rightarrow>
               (case read_exact 8 s of
                  (Inl _, _) \<Rightarrow> None
                | (Inr len, s) \<Rightarrow>
                    (case read_exact (unat (from_be_bytes len)) s of
                       (Inl _, _) \<Rightarrow> None
                     | (Inr body, s) \<Rightarrow> Some (body, s)))))"

text \<open>Round trips whose answers are dropped.\<close>

fun capture_all :: "u8 list list \<Rightarrow> tcp_stream \<Rightarrow> tcp_stream option" where
  "capture_all [] s = Some s"
| "capture_all (r # rs) s = Option.bind (capture_round_trip r s) (\<lambda>(body, s). capture_all rs s)"

definition capture_setup :: "string \<Rightarrow> u8 list list" where
  "capture_setup nanos =
     (let database = ''fing_fixture_'' @ nanos; table = ''fixture_'' @ nanos in
      [capture_command ''System'' ''Create'' [database],
       capture_command ''System'' ''Connect'' [database],
       capture_command ''DB'' ''ExecuteSQL''
         [''CREATE TABLE '' @ table @ '' (id INTEGER PRIMARY KEY, name VARCHAR(255))'']]
      @ map (\<lambda>values. capture_command ''DB'' ''ExecuteSQL'' [''INSERT INTO '' @ table @ '' VALUES '' @ values])
          [''(1, '' @ [CHR 0x27] @ ''alice'' @ [CHR 0x27] @ '')'',
           ''(2, '' @ [CHR 0x27] @ ''Ziad'' @ [CHR 0x27] @ '')''])"

definition capture_select :: "string \<Rightarrow> u8 list" where
  "capture_select nanos = capture_command ''DB'' ''ExecuteSQL'' [''SELECT * FROM fixture_'' @ nanos]"

definition capture_a_select_response :: "net \<Rightarrow> socket_addr \<Rightarrow> string \<Rightarrow> (u8 list \<times> tcp_stream) option" where
  "capture_a_select_response N addr nanos =
     (case tcp_connect N addr of
        Inl _ \<Rightarrow> None
      | Inr s \<Rightarrow>
          Option.bind (capture_all (capture_setup nanos) s) (\<lambda>s.
          Option.bind (capture_round_trip (capture_select nanos) s) (\<lambda>(body, s).
          if body = [] then None else Some (body, s))))"

subsection \<open>One round trip\<close>

lemma capture_round_trip_framed:
  assumes "accepting (wr s)" "length body < 2 ^ 64" "avail (rx s) = server_frame body @ rest"
  shows "\<exists>s'. capture_round_trip request s = Some (body, s') \<and> accepting (wr s')
    \<and> tx s' = tx s @ request \<and> avail (rx s') = rest"
proof -
  obtain ws where w: "write_all request s = (Inr (), s\<lparr>tx := tx s @ request, wr := ws\<rparr>)" "accepting ws"
    using write_all_accepting [OF assms(1)] by blast
  let ?s = "s\<lparr>tx := tx s @ request, wr := ws\<rparr>"
  have a: "avail (rx ?s) = to_be_bytes (of_nat (length body)) @ body @ rest"
    using assms(3) by (simp add: server_frame_def)
  obtain evs where h: "read_exact 8 ?s = (Inr (to_be_bytes (of_nat (length body))), ?s\<lparr>rx := evs\<rparr>)"
    "avail evs = body @ rest"
    using read_exact_spec [of 8 ?s] unfolding a by auto
  obtain evs' where b: "read_exact (length body) (?s\<lparr>rx := evs\<rparr>) = (Inr body, ?s\<lparr>rx := evs'\<rparr>)"
    "avail evs' = rest"
    using read_exact_spec [of "length body" "?s\<lparr>rx := evs\<rparr>"] h(2) by auto
  have "unat (of_nat (length body) :: u64) = length body"
    using assms(2) by (simp add: unat_of_nat)
  then have "capture_round_trip request s = Some (body, ?s\<lparr>rx := evs'\<rparr>)"
    using w h b by (simp add: capture_round_trip_def tcp_flush_def)
  with w(2) b(2) show ?thesis by simp
qed

lemma capture_all_framed:
  "accepting (wr s) \<Longrightarrow> length bodies = length requests \<Longrightarrow>
   list_all (\<lambda>body. length body < 2 ^ 64) bodies \<Longrightarrow>
   avail (rx s) = concat (map server_frame bodies) @ rest \<Longrightarrow>
   \<exists>s'. capture_all requests s = Some s' \<and> accepting (wr s')
     \<and> tx s' = tx s @ concat requests \<and> avail (rx s') = rest"
proof (induction requests arbitrary: bodies s)
  case (Cons r rs)
  then obtain b bs where bodies: "bodies = b # bs" by (cases bodies) auto
  obtain s1 where s1: "capture_round_trip r s = Some (b, s1)" "accepting (wr s1)"
    "tx s1 = tx s @ r" "avail (rx s1) = concat (map server_frame bs) @ rest"
    using capture_round_trip_framed [OF Cons.prems(1), of b "concat (map server_frame bs) @ rest"]
      Cons.prems(3,4) bodies by auto
  obtain s2 where "capture_all rs s1 = Some s2" "accepting (wr s2)" "tx s2 = tx s1 @ concat rs"
    "avail (rx s2) = rest"
    using Cons.IH [OF s1(2) _ _ s1(4)] Cons.prems(2,3) bodies by auto
  with s1 show ?case by simp
qed simp

subsection \<open>What the fixture is\<close>

text \<open>The hand-built requests decode to the commands they stand for.\<close>

theorem capture_command_decodes:
  assumes "length args < 2 ^ 64" and "list_all (\<lambda>a. length a < 2 ^ 64) args"
  shows "Option.bind (cbor_decode (capture_command ''System'' (system_command_name sc) args))
      de_command_with_args = Some (cwa_system sc args)
    \<and> Option.bind (cbor_decode (capture_command ''DB'' (db_command_name dc) args))
      de_command_with_args = Some (cwa_db dc args)"
proof -
  have a: "de_list de_text (C_Array (map C_Text args)) = Some args"
    using de_list_ser_id [of args de_text C_Text] by (simp add: ser_list_def)
  have c: "de_command (C_Map [(''System'', C_Text (system_command_name sc))]) = Some (System sc)"
    "de_command (C_Map [(''DB'', C_Text (db_command_name dc))]) = Some (DB dc)"
    using de_command_ser [of "System sc"] de_command_ser [of "DB dc"] by simp_all
  have n: "length (system_command_name sc) < 2 ^ 64" "length (db_command_name dc) < 2 ^ 64"
    by (cases sc; simp) (cases dc; simp)
  have l: "list_all cbor_ok (map C_Text args)" using assms(2) by (simp add: list.pred_map comp_def)
  show ?thesis
    unfolding capture_command_def Let_def
    using assms(1) a c n l
    by (subst cbor_decode_encode) (simp add: value_map_def,
        subst cbor_decode_encode, simp add: value_map_def,
        simp add: value_map_def de_command_with_args_def de_field_def cwa_system_def cwa_db_def)
qed

text \<open>The program keeps the body of the server's sixth answer, the one to its query, and has sent
  its six requests.\<close>

theorem capture_keeps_the_select_body:
  assumes "tcp_connect N addr = Inr s" and "accepting (wr s)" and "length bodies = 5"
    and "list_all (\<lambda>b. length b < 2 ^ 64) (bodies @ [body])" and "body \<noteq> []"
    and "avail (rx s) = concat (map server_frame (bodies @ [body]))"
  shows "\<exists>s'. capture_a_select_response N addr nanos = Some (body, s')
    \<and> tx s' = tx s @ concat (capture_setup nanos) @ capture_select nanos \<and> avail (rx s') = []"
proof -
  have n: "length bodies = length (capture_setup nanos)"
    using assms(3) by (simp add: capture_setup_def Let_def)
  obtain s1 where s1: "capture_all (capture_setup nanos) s = Some s1" "accepting (wr s1)"
    "tx s1 = tx s @ concat (capture_setup nanos)" "avail (rx s1) = server_frame body @ []"
    using capture_all_framed [OF assms(2) n, of "server_frame body @ []"] assms(4,6) by auto
  obtain s2 where "capture_round_trip (capture_select nanos) s1 = Some (body, s2)"
    "tx s2 = tx s1 @ capture_select nanos" "avail (rx s2) = []"
    using capture_round_trip_framed [OF s1(2) _ s1(4)] assms(4) by auto
  with s1 assms(1,5) show ?thesis by (simp add: capture_a_select_response_def)
qed

text \<open>Bytes the program keeps are what the client would have decoded in the same place.\<close>

theorem capture_is_what_the_client_decodes:
  assumes "accepting (wr s)" and "body \<noteq> []" and "length body \<le> unat max_response_bytes"
    and "avail (rx s) = server_frame body @ rest" and "from_slice L body = Inr response"
  shows "(\<exists>s'. capture_round_trip request s = Some (body, s'))
    \<and> fst (read_response L s) = Inr response"
proof -
  have "length body < 2 ^ 64" using assms(3) by (simp add: max_response_bytes_def)
  from capture_round_trip_framed [OF assms(1) this assms(4)]
    read_framed [OF assms(2,3,4), of L] assms(5)
  show ?thesis by auto
qed

end
