(* ===== verification/Live.thy ===== *)
theory Live
  imports Concurrent "HOL-Library.Monad_Syntax"
begin

section \<open>Programs that use the crate\<close>

text \<open>
  The two examples in the documentation of the crate (\<open>src/src/lib.rs\<close>) and the tests against a
  running server (\<open>src/tests/live.rs\<close>), as programs over the model. A test returns \<open>Some ()\<close>
  when it passes and \<open>None\<close> when it panics: in \<open>unwrap\<close>, in \<open>expect\<close>, or in an assertion. The
  server is not in the repository; the results below say which answers make each program do what
  it is there to show.
\<close>

subsection \<open>The examples of \<open>lib.rs\<close>\<close>

definition quick_start :: "libs \<Rightarrow> net \<Rightarrow> ((error + unit) \<times> string list) option" where
  "quick_start L N =
     (case client_connect L N ''127.0.0.1:3333'' of
        Inl e \<Rightarrow> Some (Inl e, [])
      | Inr c \<Rightarrow>
          main_step (create_database L ''mydb'' c) [] (\<lambda>_ c.
          main_step (use_database L ''mydb'' c) [] (\<lambda>_ c.
          Option.bind (execute L ''CREATE TABLE users (id INTEGER PRIMARY KEY, name VARCHAR(255))'' c) (\<lambda>p.
          main_step p [] (\<lambda>_ c.
          Option.bind (execute L insert_alice c) (\<lambda>p.
          main_step p [] (\<lambda>_ c.
          Option.bind (query L ''SELECT * FROM users'' c) (\<lambda>p.
          main_step p [] (\<lambda>rows c.
          print_rows (row_iter_collect (rows_into_iter rows)) [])))))))))"

text \<open>Reading three columns of a row: a number that is widened or narrowed, text that may be
  missing, and a value as it is. An error ends the reading.\<close>

definition row_step :: "(error + 'a) option \<Rightarrow> ('a \<Rightarrow> (error + 'b) option) \<Rightarrow> (error + 'b) option" where
  "row_step m f = Option.bind m (\<lambda>r. case r of Inl e \<Rightarrow> Some (Inl e) | Inr x \<Rightarrow> f x)"

definition reading_values :: "row \<Rightarrow> (error + int \<times> string option \<times> val) option" where
  "reading_values r =
     row_step (row_get str_index_in (returning i32_from_value) r ''id'') (\<lambda>key.
     row_step (row_get str_index_in (option_from_value (returning str_from_value)) r ''nick'') (\<lambda>nickname.
     row_step (row_value str_index_in r ''id'') (\<lambda>raw.
     Some (Inr (key, nickname, raw)))))"

subsection \<open>The tests of \<open>live.rs\<close>\<close>

definition unwrap :: "(error + 'a) \<times> client \<Rightarrow> ('a \<times> client) option" where
  "unwrap p = (case p of (Inl _, _) \<Rightarrow> None | (Inr x, c) \<Rightarrow> Some (x, c))"

definition assert_that :: "bool \<Rightarrow> unit option" where
  "assert_that b = (if b then Some () else None)"

text \<open>The address from the environment, the clock and the two kinds of names.\<close>

definition live_addr :: "string option \<Rightarrow> string" where
  "live_addr var = (case var of None \<Rightarrow> ''127.0.0.1:3333'' | Some a \<Rightarrow> a)"

definition shared_database :: "libs \<Rightarrow> net \<Rightarrow> string \<Rightarrow> nat \<Rightarrow> string option" where
  "shared_database L N addr nanos = do {
     c \<leftarrow> expect_ok (client_connect L N addr);
     let name = ''fing_test_'' @ digits nanos;
     (_, c) \<leftarrow> unwrap (create_database L name c);
     Some name
   }"

definition live_connect :: "libs \<Rightarrow> net \<Rightarrow> string \<Rightarrow> string \<Rightarrow> client option" where
  "live_connect L N addr shared = expect_ok (client_connect_to L N addr shared)"

definition unique_table :: "string \<Rightarrow> nat \<Rightarrow> string" where
  "unique_table tag nanos = tag @ ''_'' @ digits nanos"

text \<open>A statement and a query whose results are unwrapped, and a column read as a whole.\<close>

definition runs :: "libs \<Rightarrow> string \<Rightarrow> client \<Rightarrow> (outcome \<times> client) option" where
  "runs L sql c = Option.bind (execute L sql c) unwrap"

definition selects_rows :: "libs \<Rightarrow> string \<Rightarrow> client \<Rightarrow> (rows \<times> client) option" where
  "selects_rows L sql c = Option.bind (query L sql c) unwrap"

definition read_column :: "(val \<Rightarrow> (conversion_error + 'a) option) \<Rightarrow> string \<Rightarrow> rows \<Rightarrow> 'a list option" where
  "read_column from_value name rows =
     those (map (\<lambda>r. Option.bind (row_get str_index_in from_value r name) expect_ok)
       (row_iter_collect (rows_iter rows)))"

definition live_create_insert_and_select ::
    "libs \<Rightarrow> net \<Rightarrow> string \<Rightarrow> string \<Rightarrow> nat \<Rightarrow> unit option" where
  "live_create_insert_and_select L N addr shared nanos = do {
     c \<leftarrow> live_connect L N addr shared;
     let table = unique_table ''users'' nanos;
     (_, c) \<leftarrow> runs L (''CREATE TABLE '' @ table @ '' (id INTEGER PRIMARY KEY, name VARCHAR(255))'') c;
     (out, c) \<leftarrow> runs L (''INSERT INTO '' @ table @ '' VALUES (1, '' @ [CHR 0x27] @ ''alice'' @ [CHR 0x27] @ '')'') c;
     assert_that (rows_affected out = 1);
     (_, c) \<leftarrow> runs L (''INSERT INTO '' @ table @ '' VALUES (2, '' @ [CHR 0x27] @ ''Ziad'' @ [CHR 0x27] @ '')'') c;
     (rows, c) \<leftarrow> selects_rows L (''SELECT * FROM '' @ table) c;
     assert_that (rows_len rows = 2);
     names \<leftarrow> read_column (returning str_from_value) ''name'' rows;
     assert_that (''alice'' \<in> set names);
     assert_that (''Ziad'' \<in> set names);
     ids \<leftarrow> read_column (returning i64_from_value) ''id'' rows;
     assert_that (1 \<in> set ids \<and> 2 \<in> set ids)
   }"

definition live_schema_comes_back_with_column_types ::
    "libs \<Rightarrow> net \<Rightarrow> string \<Rightarrow> string \<Rightarrow> nat \<Rightarrow> unit option" where
  "live_schema_comes_back_with_column_types L N addr shared nanos = do {
     c \<leftarrow> live_connect L N addr shared;
     let table = unique_table ''typed'' nanos;
     (_, c) \<leftarrow> runs L (''CREATE TABLE '' @ table @ '' (a INT, b VARCHAR(20), PRIMARY KEY (a))'') c;
     (_, c) \<leftarrow> runs L (''INSERT INTO '' @ table @ '' VALUES (1, '' @ [CHR 0x27] @ ''x'' @ [CHR 0x27] @ '')'') c;
     (rows, c) \<leftarrow> selects_rows L (''SELECT * FROM '' @ table) c;
     assert_that (names (rows_schema_ref rows) = [''a'', ''b'']);
     first \<leftarrow> slice_get (rows_columns rows) 0;
     assert_that (attr_dtype first = TBigInt);
     second \<leftarrow> slice_get (rows_columns rows) 1;
     assert_that (attr_dtype second = TString);
     assert_that (is_primary_key first);
     r \<leftarrow> rows_get rows 0;
     a \<leftarrow> Option.bind (row_value str_index_in r ''a'') expect_ok;
     assert_that (a = VBigInt 1);
     n \<leftarrow> Option.bind (row_get str_index_in (returning i32_from_value) r ''a'') expect_ok;
     assert_that (n = 1);
     b \<leftarrow> Option.bind (row_get str_index_in (returning str_from_value) r ''b'') expect_ok;
     assert_that (b = ''x'')
   }"

text \<open>The loop over \<open>1..=5\<close>.\<close>

fun insert_numbers :: "libs \<Rightarrow> string \<Rightarrow> nat list \<Rightarrow> client \<Rightarrow> client option" where
  "insert_numbers L table [] c = Some c"
| "insert_numbers L table (n # ns) c = do {
     (_, c) \<leftarrow> runs L (''INSERT INTO '' @ table @ '' VALUES ('' @ digits n @ '')'') c;
     insert_numbers L table ns c
   }"

definition live_projections_and_predicates_work ::
    "libs \<Rightarrow> net \<Rightarrow> string \<Rightarrow> string \<Rightarrow> nat \<Rightarrow> unit option" where
  "live_projections_and_predicates_work L N addr shared nanos = do {
     c \<leftarrow> live_connect L N addr shared;
     let table = unique_table ''nums'' nanos;
     (_, c) \<leftarrow> runs L (''CREATE TABLE '' @ table @ '' (n INTEGER PRIMARY KEY)'') c;
     c \<leftarrow> insert_numbers L table [1, 2, 3, 4, 5] c;
     (rows, c) \<leftarrow> selects_rows L (''SELECT n FROM '' @ table @ '' WHERE n > 3'') c;
     got \<leftarrow> read_column (returning i64_from_value) ''n'' rows;
     assert_that (sort got = [4, 5])
   }"

definition live_tables_are_listed :: "libs \<Rightarrow> net \<Rightarrow> string \<Rightarrow> string \<Rightarrow> nat \<Rightarrow> unit option" where
  "live_tables_are_listed L N addr shared nanos = do {
     c \<leftarrow> live_connect L N addr shared;
     let table = unique_table ''listed'' nanos;
     (_, c) \<leftarrow> runs L (''CREATE TABLE '' @ table @ '' (id INTEGER PRIMARY KEY)'') c;
     (ts, c) \<leftarrow> unwrap (tables L c);
     assert_that (table \<in> set ts)
   }"

definition live_databases_are_listed :: "libs \<Rightarrow> net \<Rightarrow> string \<Rightarrow> string \<Rightarrow> unit option" where
  "live_databases_are_listed L N addr shared = do {
     c \<leftarrow> expect_ok (client_connect L N addr);
     (listed, c) \<leftarrow> unwrap (databases L c);
     assert_that (list_ex (\<lambda>name. name = shared) listed)
   }"

definition live_an_empty_result_keeps_its_schema ::
    "libs \<Rightarrow> net \<Rightarrow> string \<Rightarrow> string \<Rightarrow> nat \<Rightarrow> unit option" where
  "live_an_empty_result_keeps_its_schema L N addr shared nanos = do {
     c \<leftarrow> live_connect L N addr shared;
     let table = unique_table ''empty'' nanos;
     (_, c) \<leftarrow> runs L (''CREATE TABLE '' @ table @ '' (id INTEGER PRIMARY KEY)'') c;
     (rows, c) \<leftarrow> selects_rows L (''SELECT * FROM '' @ table) c;
     assert_that (rows_is_empty rows);
     assert_that (names (rows_schema_ref rows) = [''id''])
   }"

definition live_connect_to_selects_the_database_in_one_step ::
    "libs \<Rightarrow> net \<Rightarrow> string \<Rightarrow> string \<Rightarrow> unit option" where
  "live_connect_to_selects_the_database_in_one_step L N addr shared = do {
     c \<leftarrow> live_connect L N addr shared;
     assert_that (selected_database c = Some shared)
   }"

definition live_sql_before_selecting_a_database_is_refused :: "libs \<Rightarrow> net \<Rightarrow> string \<Rightarrow> unit option" where
  "live_sql_before_selecting_a_database_is_refused L N addr = do {
     c \<leftarrow> expect_ok (client_connect L N addr);
     (r, c) \<leftarrow> query L ''SELECT 1'' c;
     assert_that (r = Inl NotConnected)
   }"

definition live_unsupported_statements_are_refused_without_reaching_the_server ::
    "libs \<Rightarrow> net \<Rightarrow> string \<Rightarrow> string \<Rightarrow> nat \<Rightarrow> unit option" where
  "live_unsupported_statements_are_refused_without_reaching_the_server L N addr shared nanos = do {
     c \<leftarrow> live_connect L N addr shared;
     let table = unique_table ''guarded'' nanos;
     (_, c) \<leftarrow> runs L (''CREATE TABLE '' @ table @ '' (id INTEGER PRIMARY KEY)'') c;
     (r, c) \<leftarrow> execute L (''DELETE FROM '' @ table) c;
     assert_that (case r of Inl (Unsupported _) \<Rightarrow> True | _ \<Rightarrow> False);
     (_, c) \<leftarrow> runs L (''INSERT INTO '' @ table @ '' VALUES (1)'') c;
     (rows, c) \<leftarrow> selects_rows L (''SELECT * FROM '' @ table) c;
     assert_that (rows_len rows = 1)
   }"

definition live_oversized_statements_are_refused_without_reaching_the_server ::
    "libs \<Rightarrow> net \<Rightarrow> string \<Rightarrow> string \<Rightarrow> unit option" where
  "live_oversized_statements_are_refused_without_reaching_the_server L N addr shared = do {
     c \<leftarrow> live_connect L N addr shared;
     let sql = ''SELECT * FROM t WHERE name = '' @ [CHR 0x27] @ replicate 2000 CHR ''x'' @ [CHR 0x27];
     (r, c) \<leftarrow> execute L sql c;
     assert_that (case r of Inl (RequestTooLarge _ _) \<Rightarrow> True | _ \<Rightarrow> False)
   }"

definition live_a_missing_table_closes_the_connection ::
    "libs \<Rightarrow> net \<Rightarrow> string \<Rightarrow> string \<Rightarrow> unit option" where
  "live_a_missing_table_closes_the_connection L N addr shared = do {
     c \<leftarrow> live_connect L N addr shared;
     (r, c) \<leftarrow> query L ''SELECT * FROM definitely_not_a_table'' c;
     assert_that (case r of Inl ConnectionClosed \<Rightarrow> True | Inl (error.Query _) \<Rightarrow> True | _ \<Rightarrow> False)
   }"

end
