(* ===== verification/Live_Runs.thy ===== *)
theory Live_Runs
  imports Live
begin

section \<open>What the programs do against a server that answers\<close>

text \<open>
  First the statements the programs send: their text with any table name passes the guard. Then a
  client whose stream holds the answers to come (\<open>expects\<close>), with one lemma per kind of call. The
  runs of the programs are chains of these.
\<close>

subsection \<open>Statements without a semicolon\<close>

lemma not_in_rest:
  assumes "CHR '';'' \<notin> set cs"
  shows "CHR '';'' \<notin> set (after_string cs)" "CHR '';'' \<notin> set (after_ident cs)"
    "CHR '';'' \<notin> set (dropWhile P cs)" "CHR '';'' \<notin> set (dropWhile P (tl cs))"
    "CHR '';'' \<notin> set (after_block (tl cs))"
proof -
  have t: "CHR '';'' \<notin> set (tl cs)" using assms by (cases cs) simp_all
  show "CHR '';'' \<notin> set (after_string cs)" using assms after_string_suffix [of cs] by (metis UnCI set_append)
  show "CHR '';'' \<notin> set (after_ident cs)" using assms after_ident_suffix [of cs] by (metis UnCI set_append)
  show "CHR '';'' \<notin> set (dropWhile P cs)" using assms set_dropWhileD by metis
  show "CHR '';'' \<notin> set (dropWhile P (tl cs))" using t set_dropWhileD by metis
  show "CHR '';'' \<notin> set (after_block (tl cs))" using t after_block_suffix [of "tl cs"] by (metis UnCI set_append)
qed

lemma lex_no_semicolon: "CHR '';'' \<notin> set sql \<Longrightarrow> T_Semi \<notin> set (sql_lex sql)"
proof (induction sql rule: sql_lex.induct)
  case (2 b cs)
  then have cs: "CHR '';'' \<notin> set cs" by simp
  note n = not_in_rest [OF cs]
  from 2 cs show ?case
    by (subst sql_lex.simps(2)) (simp add: n)
qed simp

lemma inspect_no_semicolon:
  assumes "CHR '';'' \<notin> set sql"
  shows "inspect sql = Some (classify (take 2 (token_words (sql_lex sql))))"
proof -
  have "T_Semi \<notin> set (sql_lex sql)" by (rule lex_no_semicolon [OF assms])
  then have t: "takeWhile (\<lambda>t. t \<noteq> T_Semi) (sql_lex sql) = sql_lex sql"
    "dropWhile (\<lambda>t. t \<noteq> T_Semi) (sql_lex sql) = []"
    by (auto simp: takeWhile_eq_all_conv dropWhile_eq_Nil_conv)
  show ?thesis
    unfolding inspect_eq more_statements_def leading_words_def first_statement_def t by simp
qed

lemma lex_word:
  assumes "list_all word_byte w" "w \<noteq> []" "word_start (hd w)"
  shows "sql_lex (w @ CHR '' '' # rest) = T_Word w # T_Space # sql_lex rest"
proof -
  have sp: "\<not> word_byte CHR '' ''" by code_simp
  obtain b cs where w: "w = b # cs" using assms(2) by (cases w) auto
  have n: "b \<noteq> CHR ''-''" "b \<noteq> CHR ''/''" "b \<noteq> CHR '';''" "b \<noteq> CHR 0x27" "b \<noteq> CHR 0x22" "\<not> is_ascii_whitespace b"
    using assms(3) w not_word_start by (auto simp: word_start_def is_ascii_alphanumeric_def is_digit_def
      is_ascii_lower_def is_ascii_upper_def)
  have tw: "takeWhile word_byte (cs @ CHR '' '' # rest) = cs"
    "dropWhile word_byte (cs @ CHR '' '' # rest) = CHR '' '' # rest"
    using assms(1) w sp by (simp_all add: list_all_iff takeWhile_append2 dropWhile_append2)
  have "sql_lex (CHR '' '' # rest) = T_Space # sql_lex rest"
    by (simp add: sql_lex.simps(2) is_ascii_whitespace_def)
  with n tw assms(3) show ?thesis unfolding w append_Cons by (simp add: sql_lex.simps(2))
qed

text \<open>The first word decides, whatever follows.\<close>

lemma inspect_statement:
  assumes "CHR '';'' \<notin> set rest"
  shows "inspect (''SELECT '' @ rest) = Some (Inr SK_Query)"
    and "inspect (''INSERT '' @ rest) = Some (Inr SK_Insert)"
    and "inspect (''DELETE '' @ rest) = Some (Inl (Unsupported ''DELETE statements''))"
    and "inspect (''CREATE TABLE '' @ rest) = Some (Inr SK_CreateTable)"
proof -
  have u: "to_ascii_uppercase ''SELECT'' = ''SELECT''" "to_ascii_uppercase ''INSERT'' = ''INSERT''"
    "to_ascii_uppercase ''DELETE'' = ''DELETE''" "to_ascii_uppercase ''CREATE'' = ''CREATE''"
    "to_ascii_uppercase ''TABLE'' = ''TABLE''" by code_simp+
  have w: "list_all word_byte ''SELECT''" "list_all word_byte ''INSERT''" "list_all word_byte ''DELETE''"
    "list_all word_byte ''CREATE''" "list_all word_byte ''TABLE''" "word_start CHR ''S''"
    "word_start CHR ''I''" "word_start CHR ''D''" "word_start CHR ''C''" "word_start CHR ''T''" by code_simp+
  have l: "sql_lex (''SELECT '' @ rest) = T_Word ''SELECT'' # T_Space # sql_lex rest"
    "sql_lex (''INSERT '' @ rest) = T_Word ''INSERT'' # T_Space # sql_lex rest"
    "sql_lex (''DELETE '' @ rest) = T_Word ''DELETE'' # T_Space # sql_lex rest"
    "sql_lex (''TABLE '' @ rest) = T_Word ''TABLE'' # T_Space # sql_lex rest"
    "sql_lex (''CREATE '' @ ''TABLE '' @ rest) = T_Word ''CREATE'' # T_Space # sql_lex (''TABLE '' @ rest)"
    using lex_word [of "''SELECT''" rest] lex_word [of "''INSERT''" rest] lex_word [of "''DELETE''" rest]
      lex_word [of "''TABLE''" rest] lex_word [of "''CREATE''" "''TABLE '' @ rest"] w by simp_all
  show "inspect (''SELECT '' @ rest) = Some (Inr SK_Query)"
    "inspect (''INSERT '' @ rest) = Some (Inr SK_Insert)"
    "inspect (''DELETE '' @ rest) = Some (Inl (Unsupported ''DELETE statements''))"
    using assms by (simp_all add: inspect_no_semicolon l [simplified] u classify_def)
  show "inspect (''CREATE TABLE '' @ rest) = Some (Inr SK_CreateTable)"
    using assms l(5) by (simp add: inspect_no_semicolon l(4) [simplified] u classify_def)
qed

text \<open>The names the tests make.\<close>

lemma digits_no: "\<not> is_digit d \<Longrightarrow> d \<notin> set (digits n)"
  using digits_are_digits [of n] by (auto simp: list_all_iff)

lemma table_names:
  assumes "nanos < 2 ^ 128"
  shows "length (unique_table tag nanos) \<le> length tag + 40"
    and "CHR '';'' \<notin> set tag \<Longrightarrow> CHR '';'' \<notin> set (unique_table tag nanos)"
proof -
  have "length (digits nanos) \<le> 39" using length_digits_le [of nanos 39] assms by simp
  then show "length (unique_table tag nanos) \<le> length tag + 40" by (simp add: unique_table_def)
  show "CHR '';'' \<notin> set tag \<Longrightarrow> CHR '';'' \<notin> set (unique_table tag nanos)"
    using digits_no [of "CHR '';''" nanos] by (simp add: unique_table_def is_digit_def)
qed

subsection \<open>A client with the answers to come\<close>

definition expects :: "client \<Rightarrow> response list \<Rightarrow> bool" where
  "expects c rs \<longleftrightarrow>
     accepting (wr (c_stream c)) \<and> list_all plain_response rs
     \<and> avail (rx (c_stream c)) = frames rs \<and> rx_end (rx (c_stream c)) = read_exact_eof"

definition goes_on :: "client \<Rightarrow> response list \<Rightarrow> client \<Rightarrow> bool" where
  "goes_on c rs c' \<longleftrightarrow> expects c' rs \<and> c_guard c' = c_guard c \<and> c_database c' = c_database c"

lemma expects_served:
  assumes "expects c (r # rs)" "length (cbor_encode (ser_command_with_args cmd)) \<le> 1024"
  shows "served reference_libs c cmd (cbor_encode (ser_command_with_args cmd))
    (cbor_encode (ser_response r)) r (frames rs)"
  using assms served_next by (simp add: expects_def response_frame_def)

lemma expects_exchanged:
  "expects c (r # rs) \<Longrightarrow> exchanged c bytes (frames rs) c' \<Longrightarrow> goes_on c rs c'"
  by (simp add: expects_def goes_on_def exchanged_def)

lemma system_expects:
  assumes "expects c (r # rs)" "length (cbor_encode (ser_command_with_args (cwa_system cmd args))) \<le> 1024"
  shows "\<exists>c'. system reference_libs cmd args c = (check r, c') \<and> goes_on c rs c'"
  using system_served [OF expects_served [OF assms]] expects_exchanged [OF assms(1)] by blast

lemma db_expects:
  assumes "expects c (r # rs)" "length (cbor_encode (ser_command_with_args (cwa_db cmd args))) \<le> 1024"
  shows "\<exists>c'. db reference_libs cmd args c = (check r, c') \<and> goes_on c rs c'"
  using db_served [OF expects_served [OF assms]] expects_exchanged [OF assms(1)] by blast

lemma execute_expects:
  assumes "expects c (r # rs)" "c_guard c" "inspect sql = Some (Inr k)" "length sql \<le> 991"
  shows "\<exists>c'. execute reference_libs sql c = Some (and_then (check r) (execute_response reference_libs), c')
    \<and> goes_on c rs c'"
proof -
  have "execute_guard (c_guard c) sql = Some (Inr ())"
    using assms(2,3) by (simp add: execute_guard_def map_ok_def)
  moreover have "length (cbor_encode (ser_command_with_args (cwa_db DC_ExecuteSQL [sql]))) \<le> 1024"
    using execute_request_fits [of sql] assms(4) by simp
  ultimately show ?thesis
    using execute_served expects_served [OF assms(1)] expects_exchanged [OF assms(1)] by blast
qed

lemma query_expects:
  assumes "expects c (R_QueryResult (QR_Select s ts pg) # rs)" "c_guard c" "inspect sql = Some (Inr k)"
    and "length sql \<le> 991"
  shows "\<exists>c'. query reference_libs sql c = Some (Inr (rows_new s (map field_vals ts) pg), c') \<and> goes_on c rs c'"
proof -
  obtain c' where "execute reference_libs sql c = Some (Inr (O_Rows (rows_new s (map field_vals ts) pg)), c')"
    "goes_on c rs c'"
    using execute_expects [OF assms] by (auto simp: and_then_def check_def execute_response_def into_outcome_def)
  then show ?thesis by (simp add: query_def try_then_def into_rows_def)
qed

end
