(* ===== verification/Live_Tests.thy ===== *)
theory Live_Tests
  imports Live_Runs
begin

section \<open>The documented examples and the live tests\<close>

text \<open>
  For each program, the answers under which it does what it is there to show: the example of the
  crate prints each row, and each live test passes.
\<close>

subsection \<open>Single steps\<close>

text \<open>An answer that a statement takes as its outcome.\<close>

definition grants :: "response \<Rightarrow> outcome \<Rightarrow> bool" where
  "grants r out \<longleftrightarrow> and_then (check r) (execute_response reference_libs) = Inr out"

definition granted :: "response \<Rightarrow> bool" where
  "granted r \<longleftrightarrow> (\<exists>out. grants r out)"

lemma runs_expects:
  assumes "expects c (r # rs)" "c_guard c" "inspect sql = Some (Inr k)" "length sql \<le> 991" "grants r out"
  shows "\<exists>c'. runs reference_libs sql c = Some (out, c') \<and> goes_on c rs c'"
  using execute_expects [OF assms(1-4)] unfolding assms(5) [unfolded grants_def]
  by (auto simp: runs_def unwrap_def)

lemma selects_expects:
  assumes "expects c (R_QueryResult (QR_Select s ts pg) # rs)" "c_guard c" "inspect sql = Some (Inr k)"
    and "length sql \<le> 991"
  shows "\<exists>c'. selects_rows reference_libs sql c = Some (rows_new s (map field_vals ts) pg, c') \<and> goes_on c rs c'"
  using query_expects [OF assms] by (auto simp: selects_rows_def unwrap_def)

lemma goes_onD:
  assumes "goes_on c rs c'"
  shows "expects c' rs" "c_guard c' = c_guard c" "c_database c' = c_database c"
  using assms by (simp_all add: goes_on_def)

lemma rx_end_spawn: "rx_end (rx (spawn rs)) = read_exact_eof"
  by (induction rs) (simp_all add: spawn_def)

text \<open>Connecting, with and without a database.\<close>

definition fresh :: "response list \<Rightarrow> string \<Rightarrow> client" where
  "fresh rs addr = \<lparr>c_stream = (spawn rs)\<lparr>nodelay := True\<rparr>, c_addr = addr, c_database = None, c_guard = True\<rparr>"

lemma fresh_expects: "list_all plain_response rs \<Longrightarrow> expects (fresh rs addr) rs"
  by (simp add: expects_def fresh_def frames_spawn rx_end_spawn)

lemma fresh_simps [simp]: "c_guard (fresh rs addr)" "c_database (fresh rs addr) = None" "c_addr (fresh rs addr) = addr"
  by (simp_all add: fresh_def)

lemma connects: "client_connect reference_libs (fake_net rs) addr = Inr (fresh rs addr)"
  by (simp add: client_connect_def builder_connect_eq default_builder_def resolve_def fake_net_def
      and_then_def map_err_def ok_or_def fresh_def spawn_def)

lemma connect_request_fits:
  "length name \<le> 900 \<Longrightarrow> length (cbor_encode (ser_command_with_args (cwa_system SC_Connect [name]))) \<le> 1024"
  by (simp add: ser_command_with_args_def ser_list_def enc_text_def length_enc_head)

lemma create_request_fits:
  "length name \<le> 900 \<Longrightarrow> length (cbor_encode (ser_command_with_args (cwa_system SC_Create [name]))) \<le> 1024"
  by (simp add: ser_command_with_args_def ser_list_def enc_text_def length_enc_head)

lemma use_expects:
  assumes "expects c (r # rs)" "check r = Inr r'" "trim name = name" "name \<noteq> []" "length name \<le> 900"
  shows "\<exists>c'. use_database reference_libs name c = (Inr (), c'\<lparr>c_database := Some name\<rparr>) \<and> goes_on c rs c'"
  using system_expects [OF assms(1) connect_request_fits [OF assms(5)]] assms(2-4)
  by (auto simp: use_database_def try_then_def require_name_def)

lemma create_expects:
  assumes "expects c (r # rs)" "check r = Inr r'" "trim name = name" "name \<noteq> []" "length name \<le> 900"
  shows "\<exists>c'. create_database reference_libs name c = (Inr (), c') \<and> goes_on c rs c'"
  using system_expects [OF assms(1) create_request_fits [OF assms(5)]] assms(2-4)
  by (auto simp: create_database_def try_then_def require_name_def)

lemma expects_database [simp]: "expects (c\<lparr>c_database := d\<rparr>) rs = expects c rs"
  by (simp add: expects_def)

text \<open>A database name that is usable as it is.\<close>

definition proper_name :: "string \<Rightarrow> bool" where
  "proper_name name \<longleftrightarrow> trim name = name \<and> name \<noteq> [] \<and> length name \<le> 900"

text \<open>A client on the shared database, with the answers to come.\<close>

definition on_database :: "string \<Rightarrow> response list \<Rightarrow> client \<Rightarrow> bool" where
  "on_database name rs c \<longleftrightarrow> expects c rs \<and> c_guard c \<and> c_database c = Some name"

lemma live_connects:
  assumes "list_all plain_response (r # rs)" "check r = Inr r'" "proper_name shared"
  shows "\<exists>c. live_connect reference_libs (fake_net (r # rs)) addr shared = Some c \<and> on_database shared rs c"
proof -
  have e: "expects (fresh (r # rs) addr) (r # rs)" by (rule fresh_expects [OF assms(1)])
  obtain c' where u: "use_database reference_libs shared (fresh (r # rs) addr) =
      (Inr (), c'\<lparr>c_database := Some shared\<rparr>)" "goes_on (fresh (r # rs) addr) rs c'"
    using use_expects [OF e assms(2)] assms(3) unfolding proper_name_def by blast
  have "client_connect_to reference_libs (fake_net (r # rs)) addr shared = Inr (c'\<lparr>c_database := Some shared\<rparr>)"
    using u(1) by (simp add: client_connect_to_def builder_connect_eq with_database_def default_builder_def
        resolve_def fake_net_def and_then_def map_err_def map_ok_def ok_or_def fresh_def spawn_def)
  with u(2) show ?thesis
    by (simp add: live_connect_def expect_ok_def on_database_def goes_on_def)
qed

lemma on_database_runs:
  assumes "on_database name (r # rs) c" "inspect sql = Some (Inr k)" "length sql \<le> 991" "grants r out"
  shows "\<exists>c'. runs reference_libs sql c = Some (out, c') \<and> on_database name rs c'"
  using runs_expects [of c r rs sql k out] assms by (auto simp: on_database_def goes_on_def)

lemma on_database_selects:
  assumes "on_database name (R_QueryResult (QR_Select s ts pg) # rs) c" "inspect sql = Some (Inr k)"
    and "length sql \<le> 991"
  shows "\<exists>c'. selects_rows reference_libs sql c = Some (rows_new s (map field_vals ts) pg, c') \<and> on_database name rs c'"
  using selects_expects [of c s ts pg rs sql k] assms by (auto simp: on_database_def goes_on_def)

text \<open>The statements of the tests, on a table with a unique name.\<close>

lemma statement_on_table:
  assumes "CHR '';'' \<notin> set rest"
  shows "inspect (''INSERT INTO '' @ rest) = Some (Inr SK_Insert)"
    and "inspect (''SELECT * FROM '' @ rest) = Some (Inr SK_Query)"
    and "inspect (''SELECT n FROM '' @ rest) = Some (Inr SK_Query)"
    and "inspect (''DELETE FROM '' @ rest) = Some (Inl (Unsupported ''DELETE statements''))"
    and "inspect (''CREATE TABLE '' @ rest) = Some (Inr SK_CreateTable)"
  using inspect_statement(2) [of "''INTO '' @ rest"] inspect_statement(1) [of "''* FROM '' @ rest"]
    inspect_statement(1) [of "''n FROM '' @ rest"] inspect_statement(3) [of "''FROM '' @ rest"]
    inspect_statement(4) [of rest] assms by simp_all

lemma creates:
  assumes "on_database shared (r # rs) c" "grants r out" "nanos < 2 ^ 128"
    and "CHR '';'' \<notin> set tag" "length tag \<le> 100" "CHR '';'' \<notin> set rest" "length rest \<le> 500"
  shows "\<exists>c'. runs reference_libs (''CREATE TABLE '' @ unique_table tag nanos @ rest) c = Some (out, c')
    \<and> on_database shared rs c'"
  by (rule on_database_runs [OF assms(1) statement_on_table(5) _ assms(2)])
    (use table_names [OF assms(3), of tag] assms(4-7) in auto)

lemma inserts:
  assumes "on_database shared (r # rs) c" "grants r out" "nanos < 2 ^ 128"
    and "CHR '';'' \<notin> set tag" "length tag \<le> 100" "CHR '';'' \<notin> set rest" "length rest \<le> 500"
  shows "\<exists>c'. runs reference_libs (''INSERT INTO '' @ unique_table tag nanos @ rest) c = Some (out, c')
    \<and> on_database shared rs c'"
  by (rule on_database_runs [OF assms(1) statement_on_table(1) _ assms(2)])
    (use table_names [OF assms(3), of tag] assms(4-7) in auto)

lemma selects_all:
  assumes "on_database shared (R_QueryResult (QR_Select s ts pg) # rs) c" "nanos < 2 ^ 128"
    and "CHR '';'' \<notin> set tag" "length tag \<le> 100"
  shows "\<exists>c'. selects_rows reference_libs (''SELECT * FROM '' @ unique_table tag nanos) c =
      Some (rows_new s (map field_vals ts) pg, c') \<and> on_database shared rs c'"
  by (rule on_database_selects [OF assms(1) statement_on_table(2)])
    (use table_names [OF assms(2), of tag] assms(3,4) in auto)

lemma read_column_new:
  "read_column from_value name (rows_new s vss pg) =
     those (map (\<lambda>vs. Option.bind (row_get str_index_in from_value \<lparr>row_schema = s, row_values = vs\<rparr> name) expect_ok) vss)"
  by (simp add: read_column_def rows_iter_def rows_new_def row_iter_collect_eq comp_def)

lemma read_users:
  "read_column (returning str_from_value) ''name'' (rows_new users_schema (users_values us) None) = Some (map snd us)"
  "read_column (returning i64_from_value) ''id'' (rows_new users_schema (users_values us) None) = Some (map (sint \<circ> fst) us)"
proof -
  have i64: "i64_from_value (VBigInt i) = Inr (sint i)" for i
    using in_i64_sint [of i]
    by (simp add: i64_from_value_def int_from_value_def in_i64_def and_then_def ok_or_def)
  show "read_column (returning str_from_value) ''name'' (rows_new users_schema (users_values us) None) = Some (map snd us)"
    unfolding read_column_new users_values_def map_map
    by (rule those_map_Some) (auto simp: row_get_def str_index_in_def users_index slice_get_def map_err_def
        str_from_value_def ok_or_def expect_ok_def)
  show "read_column (returning i64_from_value) ''id'' (rows_new users_schema (users_values us) None) = Some (map (sint \<circ> fst) us)"
    unfolding read_column_new users_values_def map_map
    by (rule those_map_Some) (auto simp: row_get_def str_index_in_def users_index slice_get_def map_err_def
        i64 ok_or_def expect_ok_def)
qed

subsection \<open>The tests\<close>

lemma create_insert_and_select_passes:
  assumes "list_all plain_response [r0, r1, r2, r3, users_response us]" "check r0 = Inr r0'" "proper_name shared"
    and "grants r1 out1" "grants r2 out2" "grants r3 out3" "rows_affected out2 = 1"
    and "nanos < 2 ^ 128" "length us = 2" "set us = {(1, ''alice''), (2, ''Ziad'')}"
  shows "live_create_insert_and_select reference_libs (fake_net [r0, r1, r2, r3, users_response us]) addr shared nanos
    = Some ()"
proof -
  obtain c0 where c0: "live_connect reference_libs (fake_net [r0, r1, r2, r3, users_response us]) addr shared = Some c0"
    and o0: "on_database shared [r1, r2, r3, users_response us] c0"
    using live_connects [OF assms(1-3)] by blast
  let ?table = "unique_table ''users'' nanos"
  obtain c1 where c1: "runs reference_libs (''CREATE TABLE '' @ ?table @
      '' (id INTEGER PRIMARY KEY, name VARCHAR(255))'') c0 = Some (out1, c1)"
    and o1: "on_database shared [r2, r3, users_response us] c1"
    using creates [OF o0 assms(4,8), of "''users''" "'' (id INTEGER PRIMARY KEY, name VARCHAR(255))''"] by auto
  obtain c2 where c2: "runs reference_libs (''INSERT INTO '' @ ?table @
      '' VALUES (1, '' @ [CHR 0x27] @ ''alice'' @ [CHR 0x27] @ '')'') c1 = Some (out2, c2)"
    and o2: "on_database shared [r3, users_response us] c2"
    using inserts [OF o1 assms(5,8), of "''users''" "'' VALUES (1, '' @ [CHR 0x27] @ ''alice'' @ [CHR 0x27] @ '')''"] by auto
  obtain c3 where c3: "runs reference_libs (''INSERT INTO '' @ ?table @
      '' VALUES (2, '' @ [CHR 0x27] @ ''Ziad'' @ [CHR 0x27] @ '')'') c2 = Some (out3, c3)"
    and o3: "on_database shared [users_response us] c3"
    using inserts [OF o2 assms(6,8), of "''users''" "'' VALUES (2, '' @ [CHR 0x27] @ ''Ziad'' @ [CHR 0x27] @ '')''"] by auto
  obtain c4 where c4: "selects_rows reference_libs (''SELECT * FROM '' @ ?table) c3 =
      Some (rows_new users_schema (users_values us) None, c4)"
    using selects_all [OF o3 [unfolded users_response_def] assms(8), of "''users''"] by (auto simp: comp_def)
  have "''alice'' \<in> snd ` set us" "''Ziad'' \<in> snd ` set us" "1 \<in> (sint \<circ> fst) ` set us" "2 \<in> (sint \<circ> fst) ` set us"
    unfolding assms(10) by simp_all
  then show ?thesis
    unfolding live_create_insert_and_select_def c0 Let_def
    by (simp add: c1 [simplified] c2 [simplified] c3 [simplified] c4 [simplified] assms(7,9) assert_that_def
        rows_len_def rows_new_def [of users_schema] users_values_def
        read_users [unfolded users_values_def rows_new_def])
qed

text \<open>A table with a number and a text, and one with a number alone.\<close>

definition select_response :: "attribute list \<Rightarrow> val list list \<Rightarrow> response" where
  "select_response attrs vss =
     R_QueryResult (QR_Select (schema_new attrs) (map (\<lambda>vs. \<lparr>tid = 0, value_id = None, field_vals = vs\<rparr>) vss) None)"

definition number_column :: "string \<Rightarrow> attribute" where
  "number_column name = \<lparr>attr_name = name, attr_dtype = TBigInt, attr_constraint = CPrimaryKey\<rparr>"

definition text_column :: "string \<Rightarrow> attribute" where
  "text_column name = \<lparr>attr_name = name, attr_dtype = TString, attr_constraint = CNone\<rparr>"

lemma column_simps [simp]:
  "attr_name (number_column n) = n" "attr_dtype (number_column n) = TBigInt" "is_primary_key (number_column n)"
  "attr_name (text_column n) = n" "attr_dtype (text_column n) = TString"
  by (simp_all add: number_column_def text_column_def is_primary_key_def)

lemma select_response_rows:
  assumes "on_database shared (select_response attrs vss # rs) c" "nanos < 2 ^ 128"
    and "CHR '';'' \<notin> set tag" "length tag \<le> 100"
  shows "\<exists>c'. selects_rows reference_libs (''SELECT * FROM '' @ unique_table tag nanos) c =
      Some (rows_new (schema_new attrs) vss None, c') \<and> on_database shared rs c'"
  using selects_all [OF assms(1) [unfolded select_response_def] assms(2-4)] by (simp add: comp_def)

lemma schema_comes_back_passes:
  assumes "list_all plain_response rs" "check r0 = Inr r0'" "proper_name shared"
    and "rs = [r0, r1, r2, select_response [number_column ''a'', text_column ''b''] [[VBigInt 1, VString ''x'']]]"
    and "grants r1 out1" "grants r2 out2" "nanos < 2 ^ 128"
  shows "live_schema_comes_back_with_column_types reference_libs (fake_net rs) addr shared nanos = Some ()"
proof -
  let ?r = "select_response [number_column ''a'', text_column ''b''] [[VBigInt 1, VString ''x'']]"
  let ?s = "schema_new [number_column ''a'', text_column ''b'']"
  obtain c0 where c0: "live_connect reference_libs (fake_net rs) addr shared = Some c0"
    and o0: "on_database shared [r1, r2, ?r] c0"
    using live_connects [OF assms(1) [unfolded assms(4)] assms(2,3)] unfolding assms(4) by blast
  let ?table = "unique_table ''typed'' nanos"
  obtain c1 where c1: "runs reference_libs (''CREATE TABLE '' @ ?table @
      '' (a INT, b VARCHAR(20), PRIMARY KEY (a))'') c0 = Some (out1, c1)"
    and o1: "on_database shared [r2, ?r] c1"
    using creates [OF o0 assms(5,7), of "''typed''" "'' (a INT, b VARCHAR(20), PRIMARY KEY (a))''"] by auto
  obtain c2 where c2: "runs reference_libs (''INSERT INTO '' @ ?table @
      '' VALUES (1, '' @ [CHR 0x27] @ ''x'' @ [CHR 0x27] @ '')'') c1 = Some (out2, c2)"
    and o2: "on_database shared [?r] c2"
    using inserts [OF o1 assms(6,7), of "''typed''" "'' VALUES (1, '' @ [CHR 0x27] @ ''x'' @ [CHR 0x27] @ '')''"] by auto
  obtain c3 where c3: "selects_rows reference_libs (''SELECT * FROM '' @ ?table) c2 =
      Some (rows_new ?s [[VBigInt 1, VString ''x'']] None, c3)"
    using select_response_rows [OF o2 assms(7), of "''typed''"] by auto
  have s: "names ?s = [''a'', ''b'']" "columns ?s = [number_column ''a'', text_column ''b'']"
    "index_of ?s ''a'' = Some 0" "index_of ?s ''b'' = Some 1"
    by (simp_all add: names_def columns_def schema_new_def number_column_def text_column_def index_of_def)
  have i: "i32_from_value (VBigInt 1) = Inr 1"
    by (simp add: i32_from_value_def int_from_value_def and_then_def ok_or_def)
  show ?thesis
    unfolding live_schema_comes_back_with_column_types_def c0 Let_def
    by (simp add: c1 [simplified] c2 [simplified] c3 [simplified] assert_that_def rows_schema_ref_def
        rows_columns_def rows_get_def rows_new_def s row_value_def row_get_def str_index_in_def ok_or_def
        slice_get_def expect_ok_def i str_from_value_def map_err_def)
qed

text \<open>One answer to each insertion of the loop.\<close>

lemma insert_numbers_passes:
  "on_database shared (rs @ rest) c \<Longrightarrow> nanos < 2 ^ 128 \<Longrightarrow> CHR '';'' \<notin> set tag \<Longrightarrow> length tag \<le> 100 \<Longrightarrow>
   list_all2 (\<lambda>r n. n < 10 \<and> granted r) rs ns \<Longrightarrow>
   \<exists>c'. insert_numbers reference_libs (unique_table tag nanos) ns c = Some c' \<and> on_database shared rest c'"
proof (induction ns arbitrary: rs c)
  case (Cons n ns)
  then obtain r rs' where rs: "rs = r # rs'" "n < 10" "granted r"
    "list_all2 (\<lambda>r n. n < 10 \<and> granted r) rs' ns"
    by (auto simp: list_all2_Cons2)
  then obtain out where out: "grants r out" by (auto simp: granted_def)
  have len: "length (digits n) \<le> 100" using length_digits_le [of n 2] rs(2) by simp
  have o: "on_database shared (r # rs' @ rest) c" using Cons.prems(1) rs(1) by simp
  obtain c1 where c1: "runs reference_libs (''INSERT INTO '' @ unique_table tag nanos @ '' VALUES ('' @ digits n @ '')'') c =
      Some (out, c1)" and o1: "on_database shared (rs' @ rest) c1"
    using inserts [OF o out Cons.prems(2-4), of "'' VALUES ('' @ digits n @ '')''"] len
      digits_no [of "CHR '';''" n] by (auto simp: is_digit_def)
  from Cons.IH [OF o1 Cons.prems(2-4) rs(4)] c1 show ?case by simp
qed simp

lemma projections_pass:
  assumes "list_all plain_response rs" "check r0 = Inr r0'" "proper_name shared"
    and "rs = [r0, r1] @ puts @ [select_response [number_column ''n''] (map (\<lambda>n. [VBigInt n]) ns)]"
    and "grants r1 out1" "length puts = 5" "\<forall>r \<in> set puts. granted r" "nanos < 2 ^ 128"
    and "sort (map sint ns) = [4, 5]"
  shows "live_projections_and_predicates_work reference_libs (fake_net rs) addr shared nanos = Some ()"
proof -
  let ?s = "schema_new [number_column ''n'']"
  let ?r = "select_response [number_column ''n''] (map (\<lambda>n. [VBigInt n]) ns)"
  have rs: "rs = r0 # r1 # puts @ [?r]" using assms(4) by simp
  obtain c0 where c0: "live_connect reference_libs (fake_net rs) addr shared = Some c0"
    and o0: "on_database shared (r1 # puts @ [?r]) c0"
    using live_connects [OF assms(1) [unfolded rs] assms(2,3)] unfolding rs by blast
  let ?table = "unique_table ''nums'' nanos"
  obtain c1 where c1: "runs reference_libs (''CREATE TABLE '' @ ?table @ '' (n INTEGER PRIMARY KEY)'') c0 = Some (out1, c1)"
    and o1: "on_database shared (puts @ [?r]) c1"
    using creates [OF o0 assms(5,8), of "''nums''" "'' (n INTEGER PRIMARY KEY)''"] by auto
  obtain p1 p2 p3 p4 p5 where "puts = [p1, p2, p3, p4, p5]"
    using assms(6) by (auto simp: numeral_eq_Suc length_Suc_conv)
  then have "list_all2 (\<lambda>r n. n < 10 \<and> granted r) puts [1, 2, 3, 4, 5 :: nat]"
    using assms(7) by simp
  then obtain c2 where c2: "insert_numbers reference_libs ?table [1, 2, 3, 4, 5] c1 = Some c2"
    and o2: "on_database shared [?r] c2"
    using insert_numbers_passes [OF o1 assms(8), of "''nums''" "[1, 2, 3, 4, 5]"] by auto
  have "length (''SELECT n FROM '' @ ?table @ '' WHERE n > 3'') \<le> 991"
    "CHR '';'' \<notin> set (?table @ '' WHERE n > 3'')"
    using table_names [OF assms(8), of "''nums''"] by auto
  then obtain c3 where c3: "selects_rows reference_libs (''SELECT n FROM '' @ ?table @ '' WHERE n > 3'') c2 =
      Some (rows_new ?s (map (\<lambda>n. [VBigInt n]) ns) None, c3)"
    using on_database_selects [OF o2 [unfolded select_response_def] statement_on_table(3)]
    by (fastforce simp: comp_def)
  have i64: "i64_from_value (VBigInt i) = Inr (sint i)" for i
    using in_i64_sint [of i]
    by (simp add: i64_from_value_def int_from_value_def in_i64_def and_then_def ok_or_def)
  have "index_of ?s ''n'' = Some 0" by (simp add: schema_new_def number_column_def index_of_def)
  then have "read_column (returning i64_from_value) ''n'' (rows_new ?s (map (\<lambda>n. [VBigInt n]) ns) None) = Some (map sint ns)"
    unfolding read_column_new map_map
    by (intro those_map_Some) (simp add: row_get_def str_index_in_def slice_get_def map_err_def i64 ok_or_def expect_ok_def)
  then show ?thesis
    unfolding live_projections_and_predicates_work_def c0 Let_def
    by (simp add: c1 [simplified] c2 c3 [simplified] assert_that_def assms(9) del: insert_numbers.simps One_nat_def)
qed

lemma tables_listed_passes:
  assumes "list_all plain_response [r0, r1, R_SystemMsg m]" "check r0 = Inr r0'" "proper_name shared"
    and "grants r1 out1" "nanos < 2 ^ 128" "unique_table ''listed'' nanos \<in> set (parse_list m ''Tables:'')"
  shows "live_tables_are_listed reference_libs (fake_net [r0, r1, R_SystemMsg m]) addr shared nanos = Some ()"
proof -
  obtain c0 where c0: "live_connect reference_libs (fake_net [r0, r1, R_SystemMsg m]) addr shared = Some c0"
    and o0: "on_database shared [r1, R_SystemMsg m] c0"
    using live_connects [OF assms(1-3)] by blast
  obtain c1 where c1: "runs reference_libs (''CREATE TABLE '' @ unique_table ''listed'' nanos @
      '' (id INTEGER PRIMARY KEY)'') c0 = Some (out1, c1)" and o1: "on_database shared [R_SystemMsg m] c1"
    using creates [OF o0 assms(4,5), of "''listed''" "'' (id INTEGER PRIMARY KEY)''"] by auto
  have "length (cbor_encode (ser_command_with_args (cwa_db DC_ShowTables []))) \<le> 1024"
    by (simp add: ser_command_with_args_def ser_list_def enc_text_def length_enc_head)
  then obtain c2 where "db reference_libs DC_ShowTables [] c1 = (check (R_SystemMsg m), c2)"
    using db_expects [of c1 "R_SystemMsg m" "[]" DC_ShowTables "[]"] o1 by (auto simp: on_database_def)
  then have "tables reference_libs c1 = (Inr (parse_list m ''Tables:''), c2)"
    by (simp add: tables_def try_then_def check_def expect_message_def)
  then show ?thesis
    unfolding live_tables_are_listed_def c0 Let_def
    by (simp add: c1 [simplified] unwrap_def assert_that_def assms(6))
qed

lemma databases_listed_passes:
  assumes "plain_response (R_SystemMsg m)" "shared \<in> set (parse_list m ''Databases:'')"
  shows "live_databases_are_listed reference_libs (fake_net [R_SystemMsg m]) addr shared = Some ()"
proof -
  have "expects (fresh [R_SystemMsg m] addr) [R_SystemMsg m]" using assms(1) by (intro fresh_expects) simp
  from system_expects [OF this small_system_command] obtain c1 where
    "system reference_libs SC_ShowDatabases [] (fresh [R_SystemMsg m] addr) = (check (R_SystemMsg m), c1)" by blast
  then have "databases reference_libs (fresh [R_SystemMsg m] addr) = (Inr (parse_list m ''Databases:''), c1)"
    by (simp add: databases_def try_then_def check_def expect_message_def)
  then show ?thesis using assms(2)
    by (simp add: live_databases_are_listed_def connects expect_ok_def unwrap_def assert_that_def list_ex_iff)
qed

lemma empty_result_passes:
  assumes "list_all plain_response [r0, r1, select_response [number_column ''id''] []]" "check r0 = Inr r0'"
    and "proper_name shared" "grants r1 out1" "nanos < 2 ^ 128"
  shows "live_an_empty_result_keeps_its_schema reference_libs
    (fake_net [r0, r1, select_response [number_column ''id''] []]) addr shared nanos = Some ()"
proof -
  let ?r = "select_response [number_column ''id''] []"
  obtain c0 where c0: "live_connect reference_libs (fake_net [r0, r1, ?r]) addr shared = Some c0"
    and o0: "on_database shared [r1, ?r] c0"
    using live_connects [OF assms(1-3)] by blast
  obtain c1 where c1: "runs reference_libs (''CREATE TABLE '' @ unique_table ''empty'' nanos @
      '' (id INTEGER PRIMARY KEY)'') c0 = Some (out1, c1)" and o1: "on_database shared [?r] c1"
    using creates [OF o0 assms(4,5), of "''empty''" "'' (id INTEGER PRIMARY KEY)''"] by auto
  obtain c2 where c2: "selects_rows reference_libs (''SELECT * FROM '' @ unique_table ''empty'' nanos) c1 =
      Some (rows_new (schema_new [number_column ''id'']) [] None, c2)"
    using select_response_rows [OF o1 assms(5), of "''empty''"] by auto
  have "names (schema_new [number_column ''id'']) = [''id'']"
    by (simp add: names_def schema_new_def)
  then show ?thesis
    unfolding live_an_empty_result_keeps_its_schema_def c0 Let_def
    by (simp add: c1 [simplified] c2 [simplified] assert_that_def rows_is_empty_def rows_schema_ref_def rows_new_def)
qed

lemma connect_to_passes:
  assumes "plain_response r0" "check r0 = Inr r0'" "proper_name shared"
  shows "live_connect_to_selects_the_database_in_one_step reference_libs (fake_net [r0]) addr shared = Some ()"
  using live_connects [of r0 "[]" r0' shared addr] assms
  by (auto simp: live_connect_to_selects_the_database_in_one_step_def on_database_def assert_that_def selected_database_def)

lemma sql_before_selecting_passes:
  assumes "plain_response (R_SystemErr m)" "str_contains ''Not connected to a database'' m"
  shows "live_sql_before_selecting_a_database_is_refused reference_libs (fake_net [R_SystemErr m]) addr = Some ()"
proof -
  have e: "expects (fresh [R_SystemErr m] addr) [R_SystemErr m]" using assms(1) by (intro fresh_expects) simp
  have "inspect ''SELECT 1'' = Some (Inr SK_Query)" by code_simp
  from execute_expects [OF e _ this] obtain c1 where
    "execute reference_libs ''SELECT 1'' (fresh [R_SystemErr m] addr) = Some (Inl NotConnected, c1)"
    using assms(2) by (auto simp: check_def and_then_def)
  then show ?thesis
    by (simp add: live_sql_before_selecting_a_database_is_refused_def connects expect_ok_def query_def
        try_then_def assert_that_def)
qed

lemma unsupported_passes:
  assumes "list_all plain_response [r0, r1, r2, select_response attrs [vs]]" "check r0 = Inr r0'"
    and "proper_name shared" "grants r1 out1" "grants r2 out2" "nanos < 2 ^ 128"
  shows "live_unsupported_statements_are_refused_without_reaching_the_server reference_libs
    (fake_net [r0, r1, r2, select_response attrs [vs]]) addr shared nanos = Some ()"
proof -
  let ?r = "select_response attrs [vs]"
  let ?table = "unique_table ''guarded'' nanos"
  obtain c0 where c0: "live_connect reference_libs (fake_net [r0, r1, r2, ?r]) addr shared = Some c0"
    and o0: "on_database shared [r1, r2, ?r] c0"
    using live_connects [OF assms(1-3)] by blast
  obtain c1 where c1: "runs reference_libs (''CREATE TABLE '' @ ?table @ '' (id INTEGER PRIMARY KEY)'') c0 =
      Some (out1, c1)" and o1: "on_database shared [r2, ?r] c1"
    using creates [OF o0 assms(4,6), of "''guarded''" "'' (id INTEGER PRIMARY KEY)''"] by auto
  have "inspect (''DELETE FROM '' @ ?table) = Some (Inl (Unsupported ''DELETE statements''))"
    using table_names(2) [OF assms(6), of "''guarded''"] by (intro statement_on_table) simp
  then have d: "execute reference_libs (''DELETE FROM '' @ ?table) c1 =
      Some (Inl (Unsupported ''DELETE statements''), c1)"
    using o1 by (simp add: execute_def execute_guard_def map_ok_def try_then_def on_database_def)
  obtain c2 where c2: "runs reference_libs (''INSERT INTO '' @ ?table @ '' VALUES (1)'') c1 = Some (out2, c2)"
    and o2: "on_database shared [?r] c2"
    using inserts [OF o1 assms(5,6), of "''guarded''" "'' VALUES (1)''"] by auto
  obtain c3 where c3: "selects_rows reference_libs (''SELECT * FROM '' @ ?table) c2 =
      Some (rows_new (schema_new attrs) [vs] None, c3)"
    using select_response_rows [OF o2 assms(6), of "''guarded''"] by auto
  show ?thesis
    unfolding live_unsupported_statements_are_refused_without_reaching_the_server_def c0 Let_def
    by (simp add: c1 [simplified] d [simplified] c2 [simplified] c3 [simplified] assert_that_def rows_len_def rows_new_def)
qed

lemma oversized_passes:
  assumes "plain_response r0" "check r0 = Inr r0'" "proper_name shared"
  shows "live_oversized_statements_are_refused_without_reaching_the_server reference_libs (fake_net [r0]) addr shared
    = Some ()"
proof -
  obtain c0 where c0: "live_connect reference_libs (fake_net [r0]) addr shared = Some c0"
    and o0: "on_database shared [] c0"
    using live_connects [of r0 "[]" r0' shared addr] assms by auto
  let ?rest = "''t WHERE name = '' @ [CHR 0x27] @ replicate 2000 CHR ''x'' @ [CHR 0x27]"
  let ?sql = "''SELECT * FROM '' @ ?rest"
  have "inspect ?sql = Some (Inr SK_Query)" by (rule statement_on_table(2)) (simp del: replicate.simps)
  then have g: "execute_guard (c_guard c0) ?sql = Some (Inr ())"
    using o0 by (simp add: execute_guard_def map_ok_def on_database_def)
  have "\<not> length ?sql \<le> 991" by simp
  then have "\<exists>n. encode_request reference_libs (cwa_db DC_ExecuteSQL [?sql]) = Inl (RequestTooLarge n max_request_bytes)"
    using execute_request_fits [of ?sql]
    by (auto simp: encode_request_def and_then_def map_err_def max_request_bytes_def simp del: cbor_encode.simps)
  then obtain n where "encode_request reference_libs (cwa_db DC_ExecuteSQL [?sql]) =
      Inl (RequestTooLarge n max_request_bytes)" by blast
  with g have "execute reference_libs ?sql c0 = Some (Inl (RequestTooLarge n max_request_bytes), c0)"
    by (simp add: execute_def try_then_def db_eq round_trip_unsent and_then_def del: replicate.simps)
  then show ?thesis
    unfolding live_oversized_statements_are_refused_without_reaching_the_server_def c0 Let_def
    by (simp add: assert_that_def del: replicate.simps)
qed

lemma missing_table_passes:
  assumes "plain_response r0" "check r0 = Inr r0'" "proper_name shared"
  shows "live_a_missing_table_closes_the_connection reference_libs (fake_net [r0]) addr shared = Some ()"
proof -
  obtain c0 where c0: "live_connect reference_libs (fake_net [r0]) addr shared = Some c0"
    and o0: "on_database shared [] c0"
    using live_connects [of r0 "[]" r0' shared addr] assms by auto
  let ?sql = "''SELECT * FROM definitely_not_a_table''"
  have i: "inspect ?sql = Some (Inr SK_Query)" by code_simp
  have "is_ok (encode_request reference_libs (cwa_db DC_ExecuteSQL [?sql]))"
    using execute_request_fits [of ?sql]
    by (simp add: encode_request_def and_then_def map_err_def max_request_bytes_def del: cbor_encode.simps)
  then obtain bytes where e: "encode_request reference_libs (cwa_db DC_ExecuteSQL [?sql]) = Inr bytes"
    by (auto simp: is_ok_iff)
  have "net_response reference_libs (deliveries (rx (c_stream c0))) =
      (parse_frame reference_libs [] read_exact_eof, next_run (later (rx (c_stream c0))))"
    using o0 unfolding net_response_def next_run_deliveries
    by (simp add: deliveries_def on_database_def expects_def frame_length_def)
  moreover have "parse_frame reference_libs [] read_exact_eof = Inl ConnectionClosed"
    by (simp add: parse_frame_def from_io_def read_exact_eof_def)
  ultimately obtain c1 where "round_trip reference_libs (cwa_db DC_ExecuteSQL [?sql]) c0 = (Inl ConnectionClosed, c1)"
    using round_trip_accepting [OF _ e, of c0] o0 by (auto simp: on_database_def expects_def)
  then have "query reference_libs ?sql c0 = Some (Inl ConnectionClosed, c1)"
    using i o0 by (simp add: query_def execute_def execute_guard_def map_ok_def try_then_def db_eq
        and_then_def on_database_def)
  then show ?thesis
    unfolding live_a_missing_table_closes_the_connection_def c0 by (simp add: assert_that_def)
qed

subsection \<open>The name of the shared database\<close>

lemma digit_not_white: "is_digit d \<Longrightarrow> \<not> is_white [d]"
  by (auto simp: is_white_def white_space_def is_digit_def)

lemma shared_name_proper:
  assumes "nanos < 2 ^ 128"
  shows "proper_name (''fing_test_'' @ digits nanos)"
proof -
  let ?s = "''fing_test_'' @ digits nanos"
  have a: "ascii ?s" by simp
  have "is_digit (last ?s)"
    using digits_are_digits [of nanos] last_in_set [of "digits nanos"] by (simp add: list_all_iff)
  then have "\<not> is_white (last (chars ?s))"
    unfolding chars_ascii [OF a] by (simp add: last_map digit_not_white)
  moreover have "\<not> is_white (hd (chars ?s))"
    unfolding chars_ascii [OF a] by (simp add: is_white_def white_space_def)
  ultimately have "trim ?s = ?s" by (intro trim_fixed)
  moreover have "length (digits nanos) \<le> 39" using length_digits_le [of nanos 39] assms by simp
  ultimately show ?thesis by (simp add: proper_name_def)
qed

lemma shared_database_made:
  assumes "plain_response r" "check r = Inr r'" "nanos < 2 ^ 128"
  shows "shared_database reference_libs (fake_net [r]) addr nanos = Some (''fing_test_'' @ digits nanos)"
proof -
  have "expects (fresh [r] addr) [r]" using assms(1) by (intro fresh_expects) simp
  from create_expects [OF this assms(2)] shared_name_proper [OF assms(3)] obtain c' where
    "create_database reference_libs (''fing_test_'' @ digits nanos) (fresh [r] addr) = (Inr (), c')"
    unfolding proper_name_def by blast
  then show ?thesis
    unfolding shared_database_def connects Let_def by (simp add: expect_ok_def unwrap_def)
qed

subsection \<open>The examples of the documentation\<close>

text \<open>Reading a row: a \<open>BIGINT\<close> that fits comes back as an \<open>i32\<close>, NULL as \<open>None\<close>.\<close>

lemma reading_values_reads:
  assumes "index_of (row_schema r) ''id'' = Some i" "slice_get (row_values r) i = Some (VBigInt w)"
    and "index_of (row_schema r) ''nick'' = Some j" "slice_get (row_values r) j = Some nick"
    and "- (2 ^ 31) \<le> sint w" "sint w < 2 ^ 31" "nick = VNull \<or> nick = VString s"
  shows "reading_values r = Some (Inr (sint w, if nick = VNull then None else Some s, VBigInt w))"
proof -
  have "i32_from_value (VBigInt w) = Inr (sint w)"
    using assms(5,6) by (simp add: i32_from_value_def int_from_value_def and_then_def ok_or_def)
  then show ?thesis using assms
    by (auto simp: reading_values_def row_step_def row_get_def row_value_def str_index_in_def ok_or_def
        map_err_def option_from_value_def map_ok_def str_from_value_def)
qed

text \<open>The example on the front page: against a server that accepts the database, the table and the
  row, it prints one line for each row of the result, in the order of the server, whatever the
  rows are.\<close>

lemma quick_start_prints:
  assumes "list_all plain_response [r1, r2, r3, r4, users_response us]"
    and "check r1 = Inr r1'" "check r2 = Inr r2'" "grants r3 out3" "grants r4 out4"
  shows "quick_start reference_libs (fake_net [r1, r2, r3, r4, users_response us]) =
    Some (Inr (), map (\<lambda>(i, n). show_int (sint i) @ '': '' @ n) us)"
proof -
  let ?rs = "[r1, r2, r3, r4, users_response us]"
  have n: "trim ''mydb'' = ''mydb''" by code_simp
  have i: "inspect ''CREATE TABLE users (id INTEGER PRIMARY KEY, name VARCHAR(255))'' = Some (Inr SK_CreateTable)"
    "inspect insert_alice = Some (Inr SK_Insert)" "inspect ''SELECT * FROM users'' = Some (Inr SK_Query)" by code_simp+
  have e0: "expects (fresh ?rs ''127.0.0.1:3333'') ?rs" by (rule fresh_expects [OF assms(1)])
  obtain c1 where c1: "create_database reference_libs ''mydb'' (fresh ?rs ''127.0.0.1:3333'') = (Inr (), c1)"
    and g1: "goes_on (fresh ?rs ''127.0.0.1:3333'') [r2, r3, r4, users_response us] c1"
    using create_expects [OF e0 assms(2) n] by auto
  obtain c2 where c2: "use_database reference_libs ''mydb'' c1 = (Inr (), c2\<lparr>c_database := Some ''mydb''\<rparr>)"
    and g2: "goes_on c1 [r3, r4, users_response us] c2"
    using use_expects [OF goes_onD(1) [OF g1] assms(3) n] by auto
  let ?c2 = "c2\<lparr>c_database := Some ''mydb''\<rparr>"
  have e2: "expects ?c2 [r3, r4, users_response us]" "c_guard ?c2"
    using g1 g2 by (simp_all add: goes_on_def)
  obtain c3 where c3: "execute reference_libs ''CREATE TABLE users (id INTEGER PRIMARY KEY, name VARCHAR(255))'' ?c2 =
      Some (Inr out3, c3)" and g3: "goes_on ?c2 [r4, users_response us] c3"
    using execute_expects [OF e2 i(1)] unfolding assms(4) [unfolded grants_def] by auto
  then have e3: "expects c3 [r4, users_response us]" "c_guard c3" using e2(2) by (simp_all add: goes_on_def)
  obtain c4 where c4: "execute reference_libs insert_alice c3 = Some (Inr out4, c4)"
    and g4: "goes_on c3 [users_response us] c4"
    using execute_expects [OF e3 i(2)] unfolding assms(5) [unfolded grants_def] by (auto simp: insert_alice_def)
  then have e4: "expects c4 [users_response us]" "c_guard c4" using e3(2) by (simp_all add: goes_on_def)
  obtain c5 where c5: "query reference_libs ''SELECT * FROM users'' c4 =
      Some (Inr (rows_new users_schema (users_values us) None), c5)"
    using query_expects [OF e4(1) [unfolded users_response_def] e4(2) i(3)] by (auto simp: comp_def)
  have l: "row_iter_collect (rows_into_iter (rows_new users_schema (users_values us) None)) =
      map (\<lambda>vs. \<lparr>row_schema = users_schema, row_values = vs\<rparr>) (users_values us)"
    by (simp add: rows_into_iter_def rows_iter_def row_iter_collect_eq rows_new_def)
  show ?thesis
    unfolding quick_start_def connects
    by (simp add: main_step_def c1 c2 c3 c4 c5 l print_rows_users)
qed

subsection \<open>Properties\<close>

lemma plain_users: "plain_response (users_response [(1, ''alice'')])"
  "plain_response (users_response [(2, ''Ziad''), (1, ''alice'')])"
  by (simp_all add: plain_response_def users_response_def users_values_def users_schema_def
      schema_new_def ser_schema_def ser_list_def ser_attribute_def ser_row_tuple_def
      ser_option_def ser_uint_def ser_sint_def enc_text_def length_enc_head forget_value_id_def
      max_response_bytes_def)

lemma plain_small: "plain_response R_Ok" "plain_response R_QuietOk"
  "plain_response (R_QueryResult (QR_Insert 1 ''users''))"
  by (simp_all add: plain_response_def ser_uint_def enc_text_def length_enc_head max_response_bytes_def)

lemma small_grants: "grants R_Ok (O_Message [])" "grants (R_QueryResult (QR_Insert 1 t)) (O_Insert 1 t)"
  by (simp_all add: grants_def and_then_def check_def execute_response_def into_outcome_def)

lemma quick_start_prints_run:
  "quick_start reference_libs (fake_net [R_Ok, R_Ok, R_Ok, R_Ok, users_response [(1, ''alice'')]]) =
    Some (Inr (), [''1: alice''])"
proof -
  have "show_int (sint (1 :: i64)) = ''1''" by code_simp
  moreover have "check R_Ok = Inr R_Ok" by (simp add: check_def)
  ultimately show ?thesis
    using quick_start_prints [of R_Ok R_Ok R_Ok R_Ok "[(1, ''alice'')]"] plain_users(1) plain_small(1) small_grants(1)
    by simp
qed

lemma plain_tables: "plain_response (select_response [number_column ''a'', text_column ''b''] [[VBigInt 1, VString ''x'']])"
  "plain_response (select_response [number_column ''id''] [])"
  "plain_response (select_response [number_column ''id''] [[VBigInt 1]])"
  "plain_response (select_response [number_column ''n''] [[VBigInt 5], [VBigInt 4]])"
  by (simp_all add: plain_response_def select_response_def number_column_def text_column_def
      schema_new_def ser_schema_def ser_list_def ser_attribute_def ser_row_tuple_def
      ser_option_def ser_uint_def ser_sint_def enc_text_def length_enc_head forget_value_id_def
      max_response_bytes_def)

text \<open>Every live test passes against a server that answers the way the test expects of it: it
  accepts the database, the tables and the rows, returns the two users in any order, the numbers
  above three in any order, the columns with the types FairyDB gives them, lists the table and
  the database among others, refuses SQL before a database is selected, and hangs up on a missing
  table. Whatever the time, the name of the shared database is one that every client can select.\<close>

lemma live_tests_pass:
  assumes "nanos < 2 ^ 128" "shared = ''fing_test_'' @ digits nanos"
    and "list_all plain_response [yes, made, put]" "check yes = Inr yes'" "grants made out" "grants put out'"
    and "rows_affected out' = 1"
    and "plain_response (users_response us)" "length us = 2" "set us = {(1, ''alice''), (2, ''Ziad'')}"
    and "plain_response (select_response [number_column ''n''] (map (\<lambda>n. [VBigInt n]) ns))"
    and "sort (map sint ns) = [4, 5]"
    and "plain_response (R_SystemMsg ts)" "unique_table ''listed'' nanos \<in> set (parse_list ts ''Tables:'')"
    and "plain_response (R_SystemMsg ds)" "shared \<in> set (parse_list ds ''Databases:'')"
    and "plain_response (R_SystemErr err)" "str_contains ''Not connected to a database'' err"
  shows "shared_database reference_libs (fake_net [yes]) addr nanos = Some shared
    \<and> live_create_insert_and_select reference_libs
        (fake_net [yes, made, put, put, users_response us]) addr shared nanos = Some ()
    \<and> live_schema_comes_back_with_column_types reference_libs (fake_net [yes, made, put,
        select_response [number_column ''a'', text_column ''b''] [[VBigInt 1, VString ''x'']]]) addr shared nanos = Some ()
    \<and> live_projections_and_predicates_work reference_libs (fake_net [yes, made, put, put, put, put, put,
        select_response [number_column ''n''] (map (\<lambda>n. [VBigInt n]) ns)]) addr shared nanos = Some ()
    \<and> live_tables_are_listed reference_libs (fake_net [yes, made, R_SystemMsg ts]) addr shared nanos = Some ()
    \<and> live_databases_are_listed reference_libs (fake_net [R_SystemMsg ds]) addr shared = Some ()
    \<and> live_an_empty_result_keeps_its_schema reference_libs
        (fake_net [yes, made, select_response [number_column ''id''] []]) addr shared nanos = Some ()
    \<and> live_connect_to_selects_the_database_in_one_step reference_libs (fake_net [yes]) addr shared = Some ()
    \<and> live_sql_before_selecting_a_database_is_refused reference_libs (fake_net [R_SystemErr err]) addr = Some ()
    \<and> live_unsupported_statements_are_refused_without_reaching_the_server reference_libs
        (fake_net [yes, made, put, select_response [number_column ''id''] [[VBigInt 1]]]) addr shared nanos = Some ()
    \<and> live_oversized_statements_are_refused_without_reaching_the_server reference_libs (fake_net [yes]) addr shared = Some ()
    \<and> live_a_missing_table_closes_the_connection reference_libs (fake_net [yes]) addr shared = Some ()"
proof -
  have p: "plain_response yes" "plain_response made" "plain_response put" using assms(3) by simp_all
  have s: "proper_name shared" unfolding assms(2) by (rule shared_name_proper [OF assms(1)])
  have g: "\<forall>r \<in> set [put, put, put, put, put]. granted r" using assms(6) by (auto simp: granted_def)
  show ?thesis
    using shared_database_made [OF p(1) assms(4,1), of addr]
      create_insert_and_select_passes [OF _ assms(4) s assms(5,6,6,7,1,9,10), of addr]
      schema_comes_back_passes [OF _ assms(4) s refl assms(5,6,1), of addr]
      projections_pass [OF _ assms(4) s refl assms(5) _ g assms(1,12), of addr]
      tables_listed_passes [OF _ assms(4) s assms(5,1,14), of addr]
      databases_listed_passes [OF assms(15,16), of addr]
      empty_result_passes [OF _ assms(4) s assms(5,1), of addr]
      connect_to_passes [OF p(1) assms(4) s, of addr] sql_before_selecting_passes [OF assms(17,18), of addr]
      unsupported_passes [OF _ assms(4) s assms(5,6,1), of "[number_column ''id'']" "[VBigInt 1]" addr]
      oversized_passes [OF p(1) assms(4) s, of addr] missing_table_passes [OF p(1) assms(4) s, of addr]
      p plain_tables(1-3) assms(2,8,11,13)
    by (simp del: digits.simps)
qed

theorem live_tests_pass_witness:
  "live_create_insert_and_select reference_libs (fake_net [R_Ok, R_Ok, R_QueryResult (QR_Insert 1 ''users''),
      R_QueryResult (QR_Insert 1 ''users''), users_response [(2, ''Ziad''), (1, ''alice'')]])
      ''127.0.0.1:3333'' ''fing_test_7'' 7 = Some ()
    \<and> live_tables_are_listed reference_libs (fake_net [R_Ok, R_Ok, R_SystemMsg ''Tables: t, listed_7''])
      ''127.0.0.1:3333'' ''fing_test_7'' 7 = Some ()
    \<and> live_a_missing_table_closes_the_connection reference_libs (fake_net [R_Ok]) ''127.0.0.1:3333'' ''fing_test_7'' = Some ()"
proof -
  have d: "digits 7 = ''7''" by code_simp
  have "plain_response (R_SystemMsg ''Tables: t, listed_7'')" "plain_response (R_SystemMsg ''Databases: a, fing_test_7'')"
    "plain_response (R_SystemErr ''Not connected to a database'')"
    by (simp_all add: plain_response_def enc_text_def length_enc_head max_response_bytes_def)
  moreover have "unique_table ''listed'' 7 \<in> set (parse_list ''Tables: t, listed_7'' ''Tables:'')"
    "''fing_test_7'' \<in> set (parse_list ''Databases: a, fing_test_7'' ''Databases:'')"
    "str_contains ''Not connected to a database'' ''Not connected to a database''" by code_simp+
  moreover have "sort (map sint [5, 4 :: i64]) = [4, 5]" by code_simp
  moreover have "set [(2 :: i64, ''Ziad''), (1, ''alice'')] = {(1, ''alice''), (2, ''Ziad'')}" by auto
  moreover have "rows_affected (O_Insert 1 ''users'') = 1" by (simp add: rows_affected_def)
  ultimately show ?thesis
    using live_tests_pass [where nanos = 7 and shared = "''fing_test_7''" and yes = R_Ok and made = R_Ok
        and put = "R_QueryResult (QR_Insert 1 ''users'')" and us = "[(2, ''Ziad''), (1, ''alice'')]"
        and ns = "[5, 4]" and ts = "''Tables: t, listed_7''" and ds = "''Databases: a, fing_test_7''"
        and err = "''Not connected to a database''" and addr = "''127.0.0.1:3333''" and yes' = R_Ok
        and out = "O_Message []" and out' = "O_Insert 1 ''users''"]
      plain_small(1,3) plain_users(2) plain_tables(4) small_grants
    by (simp add: d check_def)
qed

end
