(* ===== verification/Sql_Tests.thy ===== *)
theory Sql_Tests
  imports Sql
begin

section \<open>The unit tests of the statement guard (\<open>src/src/sql.rs\<close>)\<close>

text \<open>
  The tests the authors wrote beside the code, each a definition that evaluates its assertions on
  the model; \<open>unwrap\<close> asks for \<open>Inr\<close>, and for \<open>Some\<close> where \<open>None\<close> is a panic. That all of them
  hold validates the model against what the authors expect of the code.
\<close>

definition test_supported_statements_are_classified :: bool where
  "test_supported_statements_are_classified \<longleftrightarrow>
     inspect ''SELECT * FROM t'' = Some (Inr SK_Query)
     \<and> inspect ''insert into t values (1)'' = Some (Inr SK_Insert)
     \<and> inspect ''CREATE TABLE t (a INT)'' = Some (Inr SK_CreateTable)"

definition test_a_trailing_semicolon_is_fine :: bool where
  "test_a_trailing_semicolon_is_fine \<longleftrightarrow>
     inspect ''SELECT 1;'' = Some (Inr SK_Query)
     \<and> inspect ''SELECT 1;   '' = Some (Inr SK_Query)
     \<and> inspect ''SELECT 1; -- done'' = Some (Inr SK_Query)"

definition test_statements_the_server_cannot_run_are_rejected :: bool where
  "test_statements_the_server_cannot_run_are_rejected \<longleftrightarrow>
     list_all (\<lambda>sql. case inspect sql of Some (Inl (Unsupported _)) \<Rightarrow> True | _ \<Rightarrow> False)
       [''UPDATE t SET a = 1'', ''DELETE FROM t'', ''DROP TABLE t'', ''ALTER TABLE t ADD b INT'',
        ''TRUNCATE TABLE t'', ''EXPLAIN SELECT 1'']"

definition test_only_create_table_is_supported :: bool where
  "test_only_create_table_is_supported \<longleftrightarrow>
     (case inspect ''CREATE INDEX i ON t (a)'' of
        Some (Inl (Unsupported what)) \<Rightarrow> what = ''CREATE INDEX statements'' | _ \<Rightarrow> False)
     \<and> (case inspect ''CREATE TABLE t (a INT)'' of Some r \<Rightarrow> is_ok r | None \<Rightarrow> False)"

definition test_multiple_statements_are_rejected :: bool where
  "test_multiple_statements_are_rejected \<longleftrightarrow>
     inspect ''SELECT 1; SELECT 2'' = Some (Inl MultipleStatements)
     \<and> inspect ''INSERT INTO t VALUES (1); INSERT INTO t VALUES (2);'' = Some (Inl MultipleStatements)"

text \<open>A text in SQL quotes.\<close>

definition quoted :: "string \<Rightarrow> string" where
  "quoted s = [CHR 0x27] @ s @ [CHR 0x27]"

definition test_semicolons_inside_strings_do_not_split_statements :: bool where
  "test_semicolons_inside_strings_do_not_split_statements \<longleftrightarrow>
     inspect (''INSERT INTO t VALUES ('' @ quoted ''a;b'' @ '')'') = Some (Inr SK_Insert)
     \<and> inspect (''SELECT * FROM t WHERE s = '' @ quoted (''it'' @ [CHR 0x27, CHR 0x27] @ ''s; fine''))
          = Some (Inr SK_Query)"

definition test_semicolons_inside_comments_do_not_split_statements :: bool where
  "test_semicolons_inside_comments_do_not_split_statements \<longleftrightarrow>
     inspect ''SELECT 1 -- ; not a statement'' = Some (Inr SK_Query)
     \<and> inspect ''/* ; */ SELECT 1'' = Some (Inr SK_Query)"

definition test_leading_comments_are_skipped :: bool where
  "test_leading_comments_are_skipped \<longleftrightarrow>
     inspect (''-- a comment'' @ [CHR 0x0A] @ ''SELECT 1'') = Some (Inr SK_Query)
     \<and> inspect ''/* block */ INSERT INTO t VALUES (1)'' = Some (Inr SK_Insert)"

definition test_parenthesized_queries_are_queries :: bool where
  "test_parenthesized_queries_are_queries \<longleftrightarrow> inspect ''(SELECT 1)'' = Some (Inr SK_Query)"

definition is_invalid_argument :: "(error + 'a) option \<Rightarrow> bool" where
  "is_invalid_argument r = (case r of Some (Inl (InvalidArgument _)) \<Rightarrow> True | _ \<Rightarrow> False)"

definition test_empty_input_is_rejected :: bool where
  "test_empty_input_is_rejected \<longleftrightarrow>
     is_invalid_argument (inspect [])
     \<and> is_invalid_argument (inspect (''  '' @ [CHR 0x0A] @ '' -- hi''))
     \<and> is_invalid_argument (inspect '';'')"

definition test_quoted_identifiers_are_not_keywords :: bool where
  "test_quoted_identifiers_are_not_keywords \<longleftrightarrow>
     inspect (''SELECT '' @ [CHR 0x22] @ ''UPDATE'' @ [CHR 0x22] @ '' FROM t'') = Some (Inr SK_Query)"

lemma sql_tests:
  "test_supported_statements_are_classified" "test_a_trailing_semicolon_is_fine"
  "test_statements_the_server_cannot_run_are_rejected" "test_only_create_table_is_supported"
  "test_multiple_statements_are_rejected" "test_semicolons_inside_strings_do_not_split_statements"
  "test_semicolons_inside_comments_do_not_split_statements" "test_leading_comments_are_skipped"
  "test_parenthesized_queries_are_queries" "test_empty_input_is_rejected"
  "test_quoted_identifiers_are_not_keywords"
  by code_simp+

end
