(* ===== verification/Doubles.thy ===== *)
theory Doubles
  imports Values
begin

section \<open>Doubles\<close>

text \<open>
  The arithmetic of \<open>f64\<close> that \<open>as_f64\<close> uses, on the binary64 format of IEEE 754: a finite double
  is a mantissa of at most 53 bits and an exponent from -1074 to 971, and each operation returns
  the double nearest to the exact result, ties to even. The sign of a zero is not kept, and
  infinities and NaN are one value. \<open>powi\<close> multiplies repeatedly; its precision is unspecified in
  Rust, which for the exact powers of ten of the tests makes no difference.
\<close>

datatype f64 = Finite int int | Non_Finite

text \<open>The number of binary digits.\<close>

function bits :: "int \<Rightarrow> nat" where
  "bits n = (if n \<le> 0 then 0 else Suc (bits (n div 2)))"
  by pat_completeness auto
termination
  by (relation "measure nat") auto

declare bits.simps [simp del]

text \<open>The integer nearest to \<open>n / d\<close>.\<close>

definition half_even :: "int \<Rightarrow> int \<Rightarrow> int" where
  "half_even n d =
     (let q = n div d; r = n mod d in if 2 * r < d \<or> 2 * r = d \<and> even q then q else q + 1)"

text \<open>The double nearest to \<open>n / d\<close>, for a positive \<open>d\<close>: the exponent that leaves 53 bits, unless
  that is below the least one, and then the mantissa.\<close>

definition exponent_of :: "int \<Rightarrow> int \<Rightarrow> int" where
  "exponent_of n d =
     (let e = int (bits n) - int (bits d) - 53 in
      max (- 1074) (if d * 2 ^ 53 * 2 ^ nat e \<le> n * 2 ^ nat (- e) then e + 1 else e))"

definition round_f64 :: "int \<Rightarrow> int \<Rightarrow> f64" where
  "round_f64 n d =
     (if n = 0 then Finite 0 0
      else
        let e = exponent_of \<bar>n\<bar> d;
            m = half_even (\<bar>n\<bar> * 2 ^ nat (- e)) (d * 2 ^ nat e);
            (m, e) = (if m = 2 ^ 53 then (2 ^ 52, e + 1) else (m, e))
        in if 971 < e then Non_Finite else Finite (sgn n * m) e)"

definition int_to_f64 :: "int \<Rightarrow> f64" where
  "int_to_f64 n = round_f64 n 1"

fun f64_times :: "f64 \<Rightarrow> f64 \<Rightarrow> f64" where
  "f64_times (Finite m e) (Finite m' e') =
     round_f64 (m * m' * 2 ^ nat (e + e')) (2 ^ nat (- (e + e')))"
| "f64_times _ _ = Non_Finite"

fun f64_over :: "f64 \<Rightarrow> f64 \<Rightarrow> f64" where
  "f64_over (Finite m e) (Finite m' e') =
     (if m' = 0 then Non_Finite
      else round_f64 (sgn m' * m * 2 ^ nat (e - e')) (\<bar>m'\<bar> * 2 ^ nat (e' - e)))"
| "f64_over (Finite m e) Non_Finite = Non_Finite"
| "f64_over Non_Finite _ = Non_Finite"

definition f64_power :: "f64 \<Rightarrow> int \<Rightarrow> f64" where
  "f64_power x k =
     (let p = (f64_times x ^^ nat \<bar>k\<bar>) (int_to_f64 1) in
      if k < 0 then f64_over (int_to_f64 1) p else p)"

definition f64_arith :: "f64 f64_ops" where
  "f64_arith = \<lparr>f64_of_int = int_to_f64, f64_powi = f64_power, f64_div = f64_over\<rparr>"

subsection \<open>Rounding\<close>

text \<open>Rounding is to a nearest integer.\<close>

lemma half_even_nearest:
  assumes "0 < d"
  shows "2 * \<bar>d * half_even n d - n\<bar> \<le> d"
proof -
  have n: "n = d * (n div d) + n mod d" "0 \<le> n mod d" "n mod d < d" using assms by simp_all
  show ?thesis
  proof (cases "2 * (n mod d) < d \<or> 2 * (n mod d) = d \<and> even (n div d)")
    case True
    then have "half_even n d = n div d" unfolding half_even_def Let_def by simp
    with n True show ?thesis by (auto simp: minus_mod_eq_mult_div [symmetric])
  next
    case False
    then have "half_even n d = n div d + 1" unfolding half_even_def Let_def by simp
    then have "d * half_even n d - n = d - n mod d" using n(1) by (simp add: algebra_simps)
    moreover have "d \<le> 2 * (n mod d)" using False by auto
    ultimately show ?thesis using n(2,3) by simp
  qed
qed

lemma bits_step: "0 < n \<Longrightarrow> bits n = Suc (bits (n div 2))"
  by (simp add: bits.simps [of n])

lemma bits_zero: "bits 0 = 0"
  by (simp add: bits.simps [of 0])

text \<open>The literal \<open>123.45\<close>: the double nearest to 12345 / 100.\<close>

definition literal_123_45 :: f64 where
  "literal_123_45 = Finite 8687021468732621 (- 46)"

lemma literal_123_45_nearest: "round_f64 12345 100 = literal_123_45"
  by (simp add: round_f64_def exponent_of_def half_even_def bits_step bits_zero Let_def literal_123_45_def)

lemma decimal_as_f64: "as_f64 f64_arith (VDecimal 12345 2) = Some literal_123_45"
proof -
  have "int_to_f64 12345 = Finite 6786735522447360 (- 39)"
    "int_to_f64 10 = Finite 5629499534213120 (- 49)" "int_to_f64 1 = Finite 4503599627370496 (- 52)"
    by (simp_all add: int_to_f64_def round_f64_def exponent_of_def half_even_def bits_step bits_zero Let_def)
  moreover have "f64_times (Finite 5629499534213120 (- 49)) (Finite 4503599627370496 (- 52)) =
      Finite 5629499534213120 (- 49)"
    "f64_times (Finite 5629499534213120 (- 49)) (Finite 5629499534213120 (- 49)) =
      Finite 7036874417766400 (- 46)"
    by (simp_all add: round_f64_def exponent_of_def half_even_def bits_step bits_zero Let_def)
  moreover have "f64_over (Finite 6786735522447360 (- 39)) (Finite 7036874417766400 (- 46)) = literal_123_45"
    by (simp add: round_f64_def exponent_of_def half_even_def bits_step bits_zero Let_def literal_123_45_def)
  ultimately show ?thesis
    by (simp add: f64_arith_def f64_power_def numeral_2_eq_2 Let_def del: f64_times.simps f64_over.simps)
qed

end
