(* ===== verification/Data_Tests.thy ===== *)
theory Data_Tests
  imports Rows Convert Wire Doubles
begin

section \<open>The unit tests of values, conversions, schemas, messages and rows\<close>

text \<open>
  The tests beside \<open>value.rs\<close>, \<open>convert.rs\<close>, \<open>schema.rs\<close>, \<open>protocol.rs\<close> and \<open>rows.rs\<close>, evaluated
  on the model. The serializer is the reference one, and the doubles are those of \<open>Doubles\<close>. The
  dates of \<open>chrono\<close> are a parameter, of the one test that reads them.
\<close>

definition is_err :: "'e + 'a \<Rightarrow> bool" where
  "is_err r = (case r of Inl _ \<Rightarrow> True | Inr _ \<Rightarrow> False)"

subsection \<open>\<open>value.rs\<close>\<close>

text \<open>\<open>serde_cbor::to_vec\<close> and back, through the wire form of a type.\<close>

definition cbor_roundtrip :: "('a \<Rightarrow> cbor) \<Rightarrow> (cbor \<Rightarrow> 'a option) \<Rightarrow> 'a \<Rightarrow> 'a option" where
  "cbor_roundtrip ser de v = Option.bind (cbor_decode (cbor_encode (ser v))) de"

definition test_values_roundtrip_through_cbor :: bool where
  "test_values_roundtrip_through_cbor \<longleftrightarrow>
     list_all (\<lambda>x. cbor_roundtrip ser_val de_val x = Some x)
       [VBigInt (- 9000000000), VInt (- 42), VSmallInt 7, VChar 5 ''abc'', VString ''hello'',
        VDecimal (- 12345) 4, VDate 20000, VBool True, VNull]"

definition test_data_types_roundtrip_through_cbor :: bool where
  "test_data_types_roundtrip_through_cbor \<longleftrightarrow>
     list_all (\<lambda>x. cbor_roundtrip ser_data_type de_data_type x = Some x)
       [TBigInt, TInt, TSmallInt, TChar 10, TString, TDecimal 10 4, TDate, TBool, TNull]"

definition test_unit_variants_encode_as_bare_strings :: bool where
  "test_unit_variants_encode_as_bare_strings \<longleftrightarrow>
     cbor_encode (ser_val VNull) = cbor_encode (C_Text ''Null'')"

definition test_decimals_format_with_scale :: bool where
  "test_decimals_format_with_scale \<longleftrightarrow>
     format_decimal 123456 4 = ''12.3456'' \<and> format_decimal 5 2 = ''0.05''
     \<and> format_decimal 0 2 = ''0.00'' \<and> format_decimal 150 0 = ''150''"

definition test_decimals_format_negatives :: bool where
  "test_decimals_format_negatives \<longleftrightarrow>
     format_decimal (- 123456) 4 = ''-12.3456'' \<and> format_decimal (- 5) 2 = ''-0.05''
     \<and> format_decimal (- 1) 0 = ''-1''"

definition test_dates_convert_from_epoch_days :: "bool \<Rightarrow> bool" where
  "test_dates_convert_from_epoch_days oc \<longleftrightarrow>
     civil_from_days oc 0 = Some (1970, 1, 1) \<and> civil_from_days oc (- 1) = Some (1969, 12, 31)
     \<and> civil_from_days oc 19723 = Some (2024, 1, 1)
     \<and> civil_from_days oc 19782 = Some (2024, 2, 29)"

definition test_dates_display_zero_padded :: "bool \<Rightarrow> bool" where
  "test_dates_display_zero_padded oc \<longleftrightarrow>
     display_val oc (VDate 0) = Some ''1970-01-01'' \<and> display_val oc (VDate 19782) = Some ''2024-02-29''"

definition test_numeric_accessors :: bool where
  "test_numeric_accessors \<longleftrightarrow>
     as_i64 (VSmallInt 3) = Some 3 \<and> as_f64 f64_arith (VDecimal 12345 2) = Some literal_123_45
     \<and> as_i64 (VString ''x'') = None"

lemma cbor_roundtrip_eq: "cbor_ok (ser v) \<Longrightarrow> cbor_roundtrip ser de v = de (ser v)"
  by (simp add: cbor_roundtrip_def cbor_decode_encode)

lemma digit_chars:
  "digit_char 0 = CHR ''0''" "digit_char 1 = CHR ''1''" "digit_char (Suc 0) = CHR ''1''"
  "digit_char 2 = CHR ''2''" "digit_char 3 = CHR ''3''" "digit_char 4 = CHR ''4''"
  "digit_char 5 = CHR ''5''" "digit_char 6 = CHR ''6''" "digit_char 7 = CHR ''7''"
  "digit_char 8 = CHR ''8''" "digit_char 9 = CHR ''9''"
  by code_simp+

lemma digits_numeral: "digits (numeral n) =
    (if (numeral n :: nat) < 10 then [digit_char (numeral n)]
     else digits (numeral n div 10) @ [digit_char (numeral n mod 10)])"
  by (rule digits.simps)

lemma digits_small: "digits 0 = ''0''" "digits 1 = ''1''" "digits (Suc 0) = ''1''"
  by (simp_all add: digits.simps digit_chars)

lemmas digit_strings = digits_numeral digits_small digit_chars

lemma civil_at: "date_range days \<Longrightarrow> civil days = t \<Longrightarrow> civil_from_days oc days = Some t"
  by (simp add: civil_from_days_range)

lemma test_dates:
  "civil_from_days oc 0 = Some (1970, 1, 1)" "civil_from_days oc (- 1) = Some (1969, 12, 31)"
  "civil_from_days oc 19723 = Some (2024, 1, 1)" "civil_from_days oc 19782 = Some (2024, 2, 29)"
  by (rule civil_at, simp add: date_range_def, code_simp)+

lemma value_tests:
  "test_values_roundtrip_through_cbor" "test_data_types_roundtrip_through_cbor"
  "test_unit_variants_encode_as_bare_strings" "test_decimals_format_with_scale"
  "test_decimals_format_negatives" "test_dates_convert_from_epoch_days True"
  "test_dates_convert_from_epoch_days False" "test_dates_display_zero_padded True"
  "test_dates_display_zero_padded False" "test_numeric_accessors"
proof -
  show "test_values_roundtrip_through_cbor"
    by (simp add: test_values_roundtrip_through_cbor_def cbor_roundtrip_eq)
  show "test_data_types_roundtrip_through_cbor"
    by (simp add: test_data_types_roundtrip_through_cbor_def cbor_roundtrip_eq)
  show "test_unit_variants_encode_as_bare_strings"
    by (simp add: test_unit_variants_encode_as_bare_strings_def)
  show "test_decimals_format_with_scale" "test_decimals_format_negatives"
    by (simp_all add: test_decimals_format_with_scale_def test_decimals_format_negatives_def
        format_decimal_def unsigned_abs_def digit_strings pad_left_def char_count_ascii Let_def)
  show "test_dates_convert_from_epoch_days True" "test_dates_convert_from_epoch_days False"
    by (simp_all add: test_dates_convert_from_epoch_days_def test_dates)
  show "test_dates_display_zero_padded True" "test_dates_display_zero_padded False"
    by (simp_all add: test_dates_display_zero_padded_def test_dates format_date_def show_int_pad_def
        show_int_def digit_strings pad_left_def char_count_ascii)
  show "test_numeric_accessors"
    by (simp add: test_numeric_accessors_def decimal_as_f64 del: as_f64.simps)
qed

subsection \<open>\<open>convert.rs\<close>\<close>

definition test_integers_widen :: bool where
  "test_integers_widen \<longleftrightarrow>
     i64_from_value (VSmallInt 7) = Inr 7 \<and> i64_from_value (VInt 7) = Inr 7
     \<and> i64_from_value (VBigInt 7) = Inr 7"

definition test_integers_narrow_when_they_fit :: bool where
  "test_integers_narrow_when_they_fit \<longleftrightarrow>
     i16_from_value (VBigInt 7) = Inr 7 \<and> u8_from_value (VInt 200) = Inr 200"

definition test_narrowing_out_of_range_is_an_error :: bool where
  "test_narrowing_out_of_range_is_an_error \<longleftrightarrow>
     (case i16_from_value (VBigInt 100000) of
        Inl err \<Rightarrow> ce_reason err = Some ''value out of range'' | Inr _ \<Rightarrow> False)
     \<and> is_err (u32_from_value (VInt (- 1)))"

definition test_decimals_read_as_floats_but_not_integers :: bool where
  "test_decimals_read_as_floats_but_not_integers \<longleftrightarrow>
     f64_from_value f64_arith (VDecimal 12345 2) = Inr literal_123_45
     \<and> is_err (i64_from_value (VDecimal 12345 2))"

definition test_strings_read_from_varchar_and_char :: bool where
  "test_strings_read_from_varchar_and_char \<longleftrightarrow>
     str_from_value (VString ''a'') = Inr ''a'' \<and> string_from_value (VChar 1 ''b'') = Inr ''b''"

definition test_type_mismatches_name_both_types :: bool where
  "test_type_mismatches_name_both_types \<longleftrightarrow>
     (case i64_from_value (VString ''a'') of
        Inl err \<Rightarrow> ce_expected err = ''i64'' \<and> ce_found err = ''VARCHAR''
          \<and> display_conversion_error err = ''cannot read VARCHAR as i64''
      | Inr _ \<Rightarrow> False)"

definition test_null_needs_an_option :: bool where
  "test_null_needs_an_option \<longleftrightarrow>
     is_err (i64_from_value VNull)
     \<and> option_from_value (returning i64_from_value) VNull = Some (Inr None)
     \<and> option_from_value (returning i64_from_value) (VInt 1) = Some (Inr (Some 1))"

definition test_values_pass_through :: bool where
  "test_values_pass_through \<longleftrightarrow>
     value_from_value (VBool True) = Inr (VBool True)
     \<and> ref_value_from_value (VBool True) = Inr (VBool True)"

definition test_dates_read_as_chrono ::
    "(int \<Rightarrow> int \<Rightarrow> int \<Rightarrow> 'd option) \<Rightarrow> ('d \<Rightarrow> string) \<Rightarrow> bool \<Rightarrow> bool" where
  "test_dates_read_as_chrono from_ymd_opt to_string oc \<longleftrightarrow>
     (case naive_date_from_value from_ymd_opt oc (VDate 19782) of
        Some (Inr date) \<Rightarrow> to_string date = ''2024-02-29'' | _ \<Rightarrow> False)"

lemmas reads_defs = int_from_value_defs int_from_value_def and_then_def ok_or_def is_err_def
  out_of_range_def conversion_with_reason_def conversion_new_def display_conversion_error_def
  str_from_value_def string_from_value_def option_from_value_def map_ok_def value_from_value_def
  ref_value_from_value_def

lemma convert_tests:
  "test_integers_widen" "test_integers_narrow_when_they_fit"
  "test_narrowing_out_of_range_is_an_error" "test_decimals_read_as_floats_but_not_integers"
  "test_strings_read_from_varchar_and_char" "test_type_mismatches_name_both_types"
  "test_null_needs_an_option" "test_values_pass_through"
  by (simp_all add: test_integers_widen_def test_integers_narrow_when_they_fit_def
      test_narrowing_out_of_range_is_an_error_def test_decimals_read_as_floats_but_not_integers_def
      f64_from_value_def decimal_as_f64
      test_strings_read_from_varchar_and_char_def test_type_mismatches_name_both_types_def
      test_null_needs_an_option_def test_values_pass_through_def reads_defs del: as_f64.simps)

text \<open>It passes when \<open>chrono\<close> has the day and prints it as its documentation says.\<close>

lemma chrono_test:
  assumes "from_ymd_opt 2024 2 29 = Some date" and "to_string date = ''2024-02-29''"
  shows "test_dates_read_as_chrono from_ymd_opt to_string oc"
  using assms by (simp add: test_dates_read_as_chrono_def naive_date_from_value_def test_dates ok_or_def
      and_then_def)

subsection \<open>\<open>schema.rs\<close>\<close>

definition test_attr :: "string \<Rightarrow> data_type \<Rightarrow> attribute" where
  "test_attr name dtype = \<lparr>attr_name = name, attr_dtype = dtype, attr_constraint = CNone\<rparr>"

definition sample_schema :: schema where
  "sample_schema = schema_new
     [\<lparr>attr_name = ''id'', attr_dtype = TInt, attr_constraint = CPrimaryKey\<rparr>,
      test_attr ''name'' TString]"

definition test_schema_encodes_as_a_bare_sequence_of_attributes :: bool where
  "test_schema_encodes_as_a_bare_sequence_of_attributes \<longleftrightarrow>
     cbor_encode (ser_schema sample_schema) = cbor_encode (ser_list ser_attribute (columns sample_schema))"

definition test_schema_roundtrips_through_cbor :: bool where
  "test_schema_roundtrips_through_cbor \<longleftrightarrow>
     cbor_roundtrip ser_schema de_schema sample_schema = Some sample_schema"

definition test_constraints_roundtrip_through_cbor :: bool where
  "test_constraints_roundtrip_through_cbor \<longleftrightarrow>
     list_all (\<lambda>x. cbor_roundtrip ser_constraint de_constraint x = Some x)
       [CNone, CPrimaryKey, CUnique, CNotNull, CUniqueNotNull, CForeignKey 3, CNotNullFKey 4]"

definition test_columns_resolve_by_exact_name :: bool where
  "test_columns_resolve_by_exact_name \<longleftrightarrow>
     index_of sample_schema ''name'' = Some 1 \<and> index_of sample_schema ''missing'' = None"

definition test_qualified_columns_resolve_when_unambiguous :: bool where
  "test_qualified_columns_resolve_when_unambiguous \<longleftrightarrow>
     (let schema = schema_new [test_attr ''users.id'' TInt, test_attr ''orders.total'' TInt] in
      index_of schema ''users.id'' = Some 0 \<and> index_of schema ''total'' = Some 1)"

definition test_ambiguous_qualified_columns_do_not_resolve :: bool where
  "test_ambiguous_qualified_columns_do_not_resolve \<longleftrightarrow>
     (let schema = schema_new [test_attr ''users.id'' TInt, test_attr ''orders.id'' TInt] in
      index_of schema ''id'' = None \<and> index_of schema ''orders.id'' = Some 1)"

lemma schema_tests:
  "test_schema_encodes_as_a_bare_sequence_of_attributes" "test_schema_roundtrips_through_cbor"
  "test_constraints_roundtrip_through_cbor" "test_columns_resolve_by_exact_name"
  "test_qualified_columns_resolve_when_unambiguous" "test_ambiguous_qualified_columns_do_not_resolve"
proof -
  show "test_schema_encodes_as_a_bare_sequence_of_attributes"
    by (simp add: test_schema_encodes_as_a_bare_sequence_of_attributes_def ser_schema_def columns_def)
  have "cbor_ok (ser_schema sample_schema)"
    by (simp add: sample_schema_def ser_schema_def ser_list_def ser_attribute_def schema_new_def test_attr_def)
  then show "test_schema_roundtrips_through_cbor"
    by (simp add: test_schema_roundtrips_through_cbor_def cbor_roundtrip_eq)
  show "test_constraints_roundtrip_through_cbor"
    by (simp add: test_constraints_roundtrip_through_cbor_def cbor_roundtrip_eq)
qed code_simp+

subsection \<open>\<open>protocol.rs\<close>\<close>

text \<open>The helper of these tests, which is that of \<open>value.rs\<close> again.\<close>

definition protocol_roundtrip :: "('a \<Rightarrow> cbor) \<Rightarrow> (cbor \<Rightarrow> 'a option) \<Rightarrow> 'a \<Rightarrow> 'a option" where
  "protocol_roundtrip ser de v = Option.bind (cbor_decode (cbor_encode (ser v))) de"

lemma protocol_roundtrip_eq: "cbor_ok (ser v) \<Longrightarrow> protocol_roundtrip ser de v = de (ser v)"
  by (simp add: protocol_roundtrip_def cbor_decode_encode)

definition test_commands_roundtrip_through_cbor :: bool where
  "test_commands_roundtrip_through_cbor \<longleftrightarrow>
     list_all (\<lambda>x. protocol_roundtrip ser_command_with_args de_command_with_args x = Some x)
       [cwa_system SC_Create [''mydb''], cwa_system SC_ShowDatabases [],
        cwa_db DC_ExecuteSQL [''SELECT 1''], cwa_db DC_Import [''/tmp/x.csv'', ''t'']]"

definition test_responses_roundtrip_through_cbor :: bool where
  "test_responses_roundtrip_through_cbor \<longleftrightarrow>
     list_all (\<lambda>x. protocol_roundtrip ser_response de_response x = Some x)
       [R_Ok, R_SystemMsg ''hi'', R_SystemErr ''bad'', R_QueryExecutionError ''nope'',
        R_Shutdown True, R_QuietOk, R_QuietErr]"

definition test_select_results_roundtrip_through_cbor :: bool where
  "test_select_results_roundtrip_through_cbor \<longleftrightarrow>
     (let response = R_QueryResult (QR_Select
            (schema_new [\<lparr>attr_name = ''id'', attr_dtype = TInt, attr_constraint = CPrimaryKey\<rparr>])
            [\<lparr>tid = 0, value_id = None, field_vals = [VInt 1]\<rparr>] None)
      in protocol_roundtrip ser_response de_response response = Some response)"

definition test_insert_results_roundtrip_through_cbor :: bool where
  "test_insert_results_roundtrip_through_cbor \<longleftrightarrow>
     (let response = R_QueryResult (QR_Insert 3 ''users'')
      in protocol_roundtrip ser_response de_response response = Some response)"

definition test_tuple_decodes_without_a_value_id :: bool where
  "test_tuple_decodes_without_a_value_id \<longleftrightarrow>
     map_option value_id (protocol_roundtrip ser_row_tuple de_row_tuple
       \<lparr>tid = 7,
        value_id = Some \<lparr>container_id = 1, segment_id = None, page_id = Some 2, slot_id = Some 3\<rparr>,
        field_vals = [VBigInt 1]\<rparr>) = Some None"

lemmas ser_defs = ser_command_with_args_def ser_list_def ser_schema_def ser_attribute_def
  ser_row_tuple_def ser_option_def schema_new_def

lemma de_command_ser_option [simp]:
  "de_command_with_args (ser_command_with_args c) = Some c"
  by (rule de_command_with_args_ser)

lemma protocol_tests:
  "test_commands_roundtrip_through_cbor" "test_responses_roundtrip_through_cbor"
  "test_select_results_roundtrip_through_cbor" "test_insert_results_roundtrip_through_cbor"
  "test_tuple_decodes_without_a_value_id"
proof -
  have "list_all (\<lambda>x. cbor_ok (ser_command_with_args x))
      [cwa_system SC_Create [''mydb''], cwa_system SC_ShowDatabases [],
       cwa_db DC_ExecuteSQL [''SELECT 1''], cwa_db DC_Import [''/tmp/x.csv'', ''t'']]"
    by (simp add: ser_command_with_args_def ser_list_def)
  then show "test_commands_roundtrip_through_cbor"
    by (simp add: test_commands_roundtrip_through_cbor_def protocol_roundtrip_eq)
  show "test_responses_roundtrip_through_cbor"
    by (simp add: test_responses_roundtrip_through_cbor_def protocol_roundtrip_eq)
  let ?s = "R_QueryResult (QR_Select
      (schema_new [\<lparr>attr_name = ''id'', attr_dtype = TInt, attr_constraint = CPrimaryKey\<rparr>])
      [\<lparr>tid = 0, value_id = None, field_vals = [VInt 1]\<rparr>] None)"
  have "cbor_ok (ser_response ?s)" by (simp add: ser_defs)
  then show "test_select_results_roundtrip_through_cbor"
    by (simp add: test_select_results_roundtrip_through_cbor_def protocol_roundtrip_eq de_response_ser
        forget_value_id_def del: ser_response.simps de_response.simps)
  have "cbor_ok (ser_response (R_QueryResult (QR_Insert 3 ''users'')))" by simp
  then show "test_insert_results_roundtrip_through_cbor"
    by (simp add: test_insert_results_roundtrip_through_cbor_def protocol_roundtrip_eq de_response_ser
        del: ser_response.simps de_response.simps)
  let ?t = "\<lparr>tid = 7,
      value_id = Some \<lparr>container_id = 1, segment_id = None, page_id = Some 2, slot_id = Some 3\<rparr>,
      field_vals = [VBigInt 1]\<rparr>"
  have "cbor_ok (ser_row_tuple ?t)" by (simp add: ser_defs)
  then show "test_tuple_decodes_without_a_value_id"
    by (simp add: test_tuple_decodes_without_a_value_id_def protocol_roundtrip_eq forget_value_id_def)
qed

subsection \<open>\<open>rows.rs\<close>\<close>

definition rows_attribute :: "string \<Rightarrow> data_type \<Rightarrow> attribute" where
  "rows_attribute name dtype = \<lparr>attr_name = name, attr_dtype = dtype, attr_constraint = CNone\<rparr>"

definition sample_rows :: rows where
  "sample_rows = rows_new (schema_new [rows_attribute ''id'' TInt, rows_attribute ''name'' TString])
     [[VInt 1, VString ''alice''], [VInt 2, VString ''Ziad'']] None"

definition test_rows_are_iterable :: bool where
  "test_rows_are_iterable \<longleftrightarrow>
     rows_len sample_rows = 2
     \<and> those (map (\<lambda>row. row_get str_index_in (returning string_from_value) row ''name'')
         (row_iter_collect (rows_iter sample_rows))) = Some [Inr ''alice'', Inr ''Ziad'']"

definition test_columns_read_by_name_and_position :: bool where
  "test_columns_read_by_name_and_position \<longleftrightarrow>
     (case rows_get sample_rows 0 of
        None \<Rightarrow> False
      | Some row \<Rightarrow>
          row_get str_index_in (returning i64_from_value) row ''id'' = Some (Inr 1)
          \<and> row_get usize_index_in (returning i64_from_value) row 0 = Some (Inr 1)
          \<and> row_get str_index_in (returning str_from_value) row ''name'' = Some (Inr ''alice''))"

definition test_indexing_yields_raw_values :: bool where
  "test_indexing_yields_raw_values \<longleftrightarrow>
     (case rows_get sample_rows 1 of
        None \<Rightarrow> False
      | Some row \<Rightarrow> row_index_str row ''name'' = Some (VString ''Ziad'')
          \<and> row_index_usize row 0 = Some (VInt 2))"

definition test_unknown_columns_are_reported_by_name :: bool where
  "test_unknown_columns_are_reported_by_name \<longleftrightarrow>
     (case rows_get sample_rows 0 of
        None \<Rightarrow> False
      | Some row \<Rightarrow> row_get str_index_in (returning i64_from_value) row ''nope'' = Some (Inl (UnknownColumn ''nope'')))"

definition test_out_of_range_columns_report_the_row_width :: bool where
  "test_out_of_range_columns_report_the_row_width \<longleftrightarrow>
     (case rows_get sample_rows 0 of
        None \<Rightarrow> False
      | Some row \<Rightarrow> row_get usize_index_in (returning i64_from_value) row 9 = Some (Inl (ColumnOutOfRange 9 2)))"

definition test_conversion_errors_name_the_column :: bool where
  "test_conversion_errors_name_the_column \<longleftrightarrow>
     (case rows_get sample_rows 0 of
        None \<Rightarrow> False
      | Some row \<Rightarrow>
          (case row_get str_index_in (returning i64_from_value) row ''name'' of
             Some (Inl err) \<Rightarrow> display_error err = ''column `name`: cannot read VARCHAR as i64''
           | _ \<Rightarrow> False))"

definition test_display_renders_an_aligned_table :: "bool \<Rightarrow> bool" where
  "test_display_renders_an_aligned_table oc \<longleftrightarrow>
     rows_display oc sample_rows = Some (concat
       ['' id | name'', [CHR 0x0A], ''----+-------'', [CHR 0x0A], ''  1 | alice'', [CHR 0x0A],
        ''  2 | Ziad'', [CHR 0x0A], ''(2 rows)''])"

definition test_display_handles_an_empty_result :: "bool \<Rightarrow> bool" where
  "test_display_handles_an_empty_result oc \<longleftrightarrow>
     rows_display oc (rows_new (schema_new [rows_attribute ''id'' TInt]) [] None) =
       Some ('' id'' @ [CHR 0x0A] @ ''----'' @ [CHR 0x0A] @ ''(0 rows)'')"

definition test_display_uses_the_singular_for_one_row :: "bool \<Rightarrow> bool" where
  "test_display_uses_the_singular_for_one_row oc \<longleftrightarrow>
     (case rows_display oc (rows_new (schema_new [rows_attribute ''id'' TInt]) [[VInt 1]] None) of
        None \<Rightarrow> False
      | Some s \<Rightarrow> drop (length s - length ''(1 row)'') s = ''(1 row)'')"

lemma rows_tests:
  "test_rows_are_iterable" "test_columns_read_by_name_and_position"
  "test_indexing_yields_raw_values" "test_unknown_columns_are_reported_by_name"
  "test_out_of_range_columns_report_the_row_width" "test_conversion_errors_name_the_column"
  "test_display_renders_an_aligned_table True" "test_display_renders_an_aligned_table False"
  "test_display_handles_an_empty_result True" "test_display_handles_an_empty_result False"
  "test_display_uses_the_singular_for_one_row True" "test_display_uses_the_singular_for_one_row False"
  by code_simp+

end
