(* ===== verification/Client_Tests.thy ===== *)
theory Client_Tests
  imports Example Data_Tests Sql_Tests
begin

section \<open>The unit tests of the codec and of the client\<close>

text \<open>
  The tests beside \<open>codec.rs\<close> and \<open>client.rs\<close>, those against the fake server included, evaluated
  on the model with the reference serializer. A \<open>Cursor\<close> is a stream that delivers its bytes and
  ends; a \<open>Vec\<close> that is written to is a stream that accepts every write.
\<close>

subsection \<open>\<open>codec.rs\<close>\<close>

definition cursor :: "u8 list \<Rightarrow> tcp_stream" where
  "cursor bytes =
     \<lparr>rx = [Chunk bytes], tx = [], wr = [], nodelay = False, read_timeout = None, write_timeout = None\<rparr>"

definition framed :: "response \<Rightarrow> u8 list" where
  "framed response =
     (let body = cbor_encode (ser_response response) in to_be_bytes (of_nat (length body)) @ body)"

definition test_a_captured_server_response_decodes :: bool where
  "test_a_captured_server_response_decodes \<longleftrightarrow>
     (let frame = to_be_bytes (of_nat (length captured_response)) @ captured_response in
      case fst (read_response reference_libs (cursor frame)) of
        Inr (R_QueryResult (QR_Select schema result pg)) \<Rightarrow>
          length (columns schema) = 2
          \<and> attr_name (columns schema ! 0) = ''id'' \<and> attr_dtype (columns schema ! 0) = TBigInt
          \<and> is_primary_key (columns schema ! 0)
          \<and> attr_name (columns schema ! 1) = ''name'' \<and> attr_dtype (columns schema ! 1) = TString
          \<and> length result = 2 \<and> value_id (result ! 0) = None
          \<and> field_vals (result ! 0) = [VBigInt 1, VString ''alice'']
          \<and> field_vals (result ! 1) = [VBigInt 2, VString ''Ziad'']
      | _ \<Rightarrow> False)"

definition test_requests_are_written_without_a_length_prefix :: bool where
  "test_requests_are_written_without_a_length_prefix \<longleftrightarrow>
     (let command = cwa_db DC_ExecuteSQL [''SELECT 1''] in
      case write_request reference_libs command (cursor []) of
        (Inr _, out) \<Rightarrow> tx out = cbor_encode (ser_command_with_args command)
      | (Inl _, out) \<Rightarrow> False)"

definition test_oversized_requests_are_rejected_before_sending :: bool where
  "test_oversized_requests_are_rejected_before_sending \<longleftrightarrow>
     (case write_request reference_libs (cwa_db DC_ExecuteSQL [replicate 2000 CHR ''x'']) (cursor []) of
        (Inl (RequestTooLarge _ m), out) \<Rightarrow> m = max_request_bytes \<and> tx out = []
      | _ \<Rightarrow> False)"

text \<open>The loop that grows the statement until its request is exactly at the limit.\<close>

function grow_to_limit :: "string \<Rightarrow> bool" where
  "grow_to_limit sql =
     (let command = cwa_db DC_ExecuteSQL [sql];
          size = length (cbor_encode (ser_command_with_args command))
      in if size = max_request_bytes then is_ok (encode_request reference_libs command)
         else if size < max_request_bytes then grow_to_limit (sql @ ''x'')
         else False)"
  by pat_completeness auto
termination
  by (relation "measure (\<lambda>sql. 1024 - length sql)")
    (auto simp: length_execute_request max_request_bytes_def simp del: cbor_encode.simps)

declare grow_to_limit.simps [simp del]

definition test_requests_at_the_limit_are_allowed :: bool where
  "test_requests_at_the_limit_are_allowed \<longleftrightarrow> grow_to_limit []"

definition test_responses_are_read_from_a_length_prefixed_frame :: bool where
  "test_responses_are_read_from_a_length_prefixed_frame \<longleftrightarrow>
     (let response = R_SystemMsg ''Created database mydb'' in
      fst (read_response reference_libs (cursor (framed response))) = Inr response)"

definition test_select_responses_survive_a_frame_roundtrip :: bool where
  "test_select_responses_survive_a_frame_roundtrip \<longleftrightarrow>
     (let response = R_QueryResult (QR_Insert 2 ''users'') in
      fst (read_response reference_libs (cursor (framed response))) = Inr response)"

definition test_a_truncated_body_reports_a_closed_connection :: bool where
  "test_a_truncated_body_reports_a_closed_connection \<longleftrightarrow>
     (let bytes = framed (R_SystemMsg ''hello'');
          bytes = take (length bytes - 2) bytes
      in fst (read_response reference_libs (cursor bytes)) = Inl ConnectionClosed)"

definition test_a_closed_stream_reports_a_closed_connection :: bool where
  "test_a_closed_stream_reports_a_closed_connection \<longleftrightarrow>
     fst (read_response reference_libs (cursor [])) = Inl ConnectionClosed"

definition test_an_empty_frame_reads_as_a_quiet_ok :: bool where
  "test_an_empty_frame_reads_as_a_quiet_ok \<longleftrightarrow>
     fst (read_response reference_libs (cursor (to_be_bytes 0))) = Inr R_QuietOk"

definition test_an_absurd_length_is_refused_before_allocating :: bool where
  "test_an_absurd_length_is_refused_before_allocating \<longleftrightarrow>
     (case fst (read_response reference_libs (cursor (to_be_bytes (- 1)))) of
        Inl (ResponseTooLarge _ _) \<Rightarrow> True | _ \<Rightarrow> False)"

definition test_system_commands_encode_with_their_arguments :: bool where
  "test_system_commands_encode_with_their_arguments \<longleftrightarrow>
     (let command = cwa_system SC_Connect [''mydb''] in
      case encode_request reference_libs command of
        Inr bytes \<Rightarrow> Option.bind (cbor_decode bytes) de_command_with_args = Some command
      | Inl _ \<Rightarrow> False)"

lemma grow_to_limit_succeeds: "length sql \<le> 991 \<Longrightarrow> grow_to_limit sql"
proof (induction sql rule: grow_to_limit.induct)
  case (1 sql)
  let ?n = "length (cbor_encode (ser_command_with_args (cwa_db DC_ExecuteSQL [sql])))"
  have le: "?n \<le> max_request_bytes"
    using execute_request_fits [of sql] 1(2) by (simp add: max_request_bytes_def del: cbor_encode.simps)
  show ?case
  proof (cases "?n = max_request_bytes")
    case True
    then show ?thesis
      by (subst grow_to_limit.simps) (simp add: encode_request_def and_then_def map_err_def del: cbor_encode.simps)
  next
    case False
    with le have less: "?n < max_request_bytes" by simp
    then have "length sql \<noteq> 991"
      by (auto simp: length_execute_request length_enc_head max_request_bytes_def simp del: cbor_encode.simps)
    then have "grow_to_limit (sql @ ''x'')" using 1 less by (simp del: cbor_encode.simps)
    with less show ?thesis by (subst grow_to_limit.simps) (simp add: Let_def del: cbor_encode.simps)
  qed
qed

lemma read_cursor:
  assumes "plain_response r"
  shows "fst (read_response reference_libs (cursor (framed r))) = Inr r"
proof -
  have "avail (rx (cursor (framed r))) = server_frame (cbor_encode (ser_response r)) @ []"
    by (simp add: cursor_def framed_def server_frame_def Let_def del: cbor_encode.simps)
  with assms ref.read_back [of r "cursor (framed r)" "[]"] show ?thesis
    by (auto simp: plain_response_def)
qed

lemma codec_tests:
  "test_a_captured_server_response_decodes" "test_requests_are_written_without_a_length_prefix"
  "test_oversized_requests_are_rejected_before_sending" "test_requests_at_the_limit_are_allowed"
  "test_responses_are_read_from_a_length_prefixed_frame"
  "test_select_responses_survive_a_frame_roundtrip"
  "test_a_truncated_body_reports_a_closed_connection"
  "test_a_closed_stream_reports_a_closed_connection" "test_an_empty_frame_reads_as_a_quiet_ok"
  "test_an_absurd_length_is_refused_before_allocating"
  "test_system_commands_encode_with_their_arguments"
proof -
  have "plain_response captured_result"
    using captured_ok unfolding plain_response_def captured_is_encoding [symmetric]
    by (simp add: captured_result_def forget_value_id_def captured_response_def max_response_bytes_def)
  from read_cursor [OF this]
  have "fst (read_response reference_libs (cursor (to_be_bytes (of_nat (length captured_response))
      @ captured_response))) = Inr captured_result"
    unfolding framed_def captured_is_encoding [symmetric] by (simp only: Let_def)
  then show "test_a_captured_server_response_decodes"
    by (simp add: test_a_captured_server_response_decodes_def Let_def captured_result_def
        columns_def is_primary_key_def del: of_nat_simps)
  have "length (cbor_encode (ser_command_with_args (cwa_db DC_ExecuteSQL [''SELECT 1'']))) \<le> 1024"
    using execute_request_fits [of "''SELECT 1''"] by simp
  from write_request_accepting [OF reference_to_vec this, of "cursor []"]
  show "test_requests_are_written_without_a_length_prefix"
    by (auto simp: test_requests_are_written_without_a_length_prefix_def cursor_def Let_def
        simp del: cbor_encode.simps)
  have "\<not> length (cbor_encode (ser_command_with_args (cwa_db DC_ExecuteSQL [replicate 2000 CHR ''x'']))) \<le> 1024"
    using execute_request_fits [of "replicate 2000 CHR ''x''"] by simp
  then show "test_oversized_requests_are_rejected_before_sending"
    by (simp add: test_oversized_requests_are_rejected_before_sending_def write_request_def
        encode_request_def and_then_def map_err_def max_request_bytes_def cursor_def
        del: cbor_encode.simps)
  show "test_requests_at_the_limit_are_allowed"
    by (simp add: test_requests_at_the_limit_are_allowed_def grow_to_limit_succeeds)
  have "plain_response (R_SystemMsg ''Created database mydb'')" "plain_response (R_QueryResult (QR_Insert 2 ''users''))"
    by (simp_all add: plain_response_def enc_text_def length_enc_head max_response_bytes_def ser_uint_def)
  then show "test_responses_are_read_from_a_length_prefixed_frame"
    "test_select_responses_survive_a_frame_roundtrip"
    by (simp_all add: test_responses_are_read_from_a_length_prefixed_frame_def
        test_select_responses_survive_a_frame_roundtrip_def read_cursor Let_def)
  have "framed (R_SystemMsg ''hello'') = server_frame (cbor_encode (ser_response (R_SystemMsg ''hello'')))"
    by (simp add: framed_def server_frame_def Let_def del: cbor_encode.simps)
  moreover have "length (cbor_encode (ser_response (R_SystemMsg ''hello''))) \<le> unat max_response_bytes"
    by (simp add: enc_text_def length_enc_head max_response_bytes_def)
  ultimately show "test_a_truncated_body_reports_a_closed_connection"
    unfolding test_a_truncated_body_reports_a_closed_connection_def Let_def
    by (intro read_truncated [where body = "cbor_encode (ser_response (R_SystemMsg ''hello''))"
        and k = "length (framed (R_SystemMsg ''hello'')) - 2"])
      (simp_all add: cursor_def server_frame_def del: cbor_encode.simps)
  show "test_a_closed_stream_reports_a_closed_connection"
    unfolding test_a_closed_stream_reports_a_closed_connection_def
    by (rule read_truncated [where body = "[]" and k = 0]) (simp_all add: cursor_def server_frame_def)
  show "test_an_empty_frame_reads_as_a_quiet_ok"
    using read_response_eq [of reference_libs "cursor (to_be_bytes 0)"]
    by (auto simp: test_an_empty_frame_reads_as_a_quiet_ok_def parse_frame_def cursor_def)
  show "test_an_absurd_length_is_refused_before_allocating"
    using read_oversized [of "cursor (to_be_bytes (- 1))" "- 1" "[]" reference_libs]
    by (auto simp: test_an_absurd_length_is_refused_before_allocating_def cursor_def max_response_bytes_def)
  have "length (cbor_encode (ser_command_with_args (cwa_system SC_Connect [''mydb'']))) \<le> 1024"
    "cbor_ok (ser_command_with_args (cwa_system SC_Connect [''mydb'']))"
    by (simp_all add: ser_command_with_args_def ser_list_def enc_text_def length_enc_head)
  then show "test_system_commands_encode_with_their_arguments"
    by (simp add: test_system_commands_encode_with_their_arguments_def encode_request_def and_then_def
        map_err_def max_request_bytes_def Let_def cbor_decode_encode de_command_with_args_ser
        del: cbor_encode.simps)
qed

subsection \<open>\<open>client.rs\<close>\<close>

definition test_database_lists_are_parsed_from_prose :: bool where
  "test_database_lists_are_parsed_from_prose \<longleftrightarrow>
     parse_list ''Databases: a, b, c'' ''Databases:'' = [''a'', ''b'', ''c'']
     \<and> parse_list ''Tables: users'' ''Tables:'' = [''users'']"

definition test_an_empty_list_parses_as_no_entries :: bool where
  "test_an_empty_list_parses_as_no_entries \<longleftrightarrow>
     parse_list ''Tables: '' ''Tables:'' = [] \<and> parse_list ''Databases:'' ''Databases:'' = []"

definition test_import_counts_are_parsed_from_prose :: bool where
  "test_import_counts_are_parsed_from_prose \<longleftrightarrow>
     parse_imported ''Imported 42 rows into table users'' = Inr 42
     \<and> is_err (parse_imported ''Imported rows into table users'')"

definition test_error_responses_become_errors :: bool where
  "test_error_responses_become_errors \<longleftrightarrow>
     check (R_SystemErr ''Not connected to a database'') = Inl NotConnected
     \<and> (case check (R_SystemErr ''boom'') of Inl (Server _) \<Rightarrow> True | _ \<Rightarrow> False)
     \<and> (case check (R_QueryExecutionError ''bad sql'') of Inl (error.Query _) \<Rightarrow> True | _ \<Rightarrow> False)
     \<and> check (R_Shutdown False) = Inl ServerShutdown
     \<and> is_ok (check R_Ok)"

definition test_names_must_not_be_blank :: bool where
  "test_names_must_not_be_blank \<longleftrightarrow>
     is_err (require_name ''  '' ''database name'')
     \<and> require_name '' mydb '' ''database name'' = Inr ''mydb''"

text \<open>A client that connects to a server which serves \<open>responses\<close>.\<close>

definition with_client :: "response list \<Rightarrow> (client \<Rightarrow> bool) \<Rightarrow> bool" where
  "with_client responses P =
     (case client_connect reference_libs (fake_net responses) ''127.0.0.1:0'' of
        Inl _ \<Rightarrow> False | Inr client \<Rightarrow> P client)"

definition test_select_response :: response where
  "test_select_response =
     R_QueryResult (QR_Select
       (schema_new
          [\<lparr>attr_name = ''id'', attr_dtype = TInt, attr_constraint = CPrimaryKey\<rparr>,
           \<lparr>attr_name = ''name'', attr_dtype = TString, attr_constraint = CNone\<rparr>])
       [\<lparr>tid = 0, value_id = None, field_vals = [VInt 1, VString ''alice'']\<rparr>] None)"

definition test_selecting_a_database_records_it_on_the_connection :: bool where
  "test_selecting_a_database_records_it_on_the_connection \<longleftrightarrow>
     with_client [R_SystemMsg ''Connected to database mydb''] (\<lambda>client.
       selected_database client = None
       \<and> (case use_database reference_libs ''mydb'' client of (r, client) \<Rightarrow>
            r = Inr () \<and> selected_database client = Some ''mydb''))"

definition test_queries_yield_typed_rows :: bool where
  "test_queries_yield_typed_rows \<longleftrightarrow>
     with_client [test_select_response] (\<lambda>client.
       case query reference_libs ''SELECT * FROM users'' client of
         Some (Inr rows, client) \<Rightarrow>
           rows_len rows = 1
           \<and> (case rows_get rows 0 of
                None \<Rightarrow> False
              | Some row \<Rightarrow>
                  row_get str_index_in (returning i64_from_value) row ''id'' = Some (Inr 1)
                  \<and> row_get str_index_in (returning str_from_value) row ''name'' = Some (Inr ''alice''))
       | _ \<Rightarrow> False)"

definition test_inserts_report_their_row_count :: bool where
  "test_inserts_report_their_row_count \<longleftrightarrow>
     with_client [R_QueryResult (QR_Insert 2 ''users'')] (\<lambda>client.
       case execute reference_libs (''INSERT INTO users VALUES (1, '' @ [CHR 0x27] @ ''a'' @ [CHR 0x27] @ '')'') client of
         Some (Inr outcome, client) \<Rightarrow> rows_affected outcome = 2
       | _ \<Rightarrow> False)"

definition test_query_execution_errors_surface_as_errors :: bool where
  "test_query_execution_errors_surface_as_errors \<longleftrightarrow>
     with_client [R_QueryExecutionError ''no such table''] (\<lambda>client.
       case query reference_libs ''SELECT * FROM nope'' client of
         Some (Inl (error.Query message), client) \<Rightarrow> message = ''no such table''
       | _ \<Rightarrow> False)"

definition test_running_sql_before_selecting_a_database_is_reported_clearly :: bool where
  "test_running_sql_before_selecting_a_database_is_reported_clearly \<longleftrightarrow>
     with_client [R_SystemErr ''Not connected to a database''] (\<lambda>client.
       case query reference_libs ''SELECT 1'' client of
         Some (Inl NotConnected, client) \<Rightarrow> True
       | _ \<Rightarrow> False)"

definition test_unsupported_statements_never_reach_the_wire :: bool where
  "test_unsupported_statements_never_reach_the_wire \<longleftrightarrow>
     with_client [] (\<lambda>client.
       case execute reference_libs ''DELETE FROM users'' client of
         Some (Inl (Unsupported _), client) \<Rightarrow>
           (case execute reference_libs ''SELECT 1; SELECT 2'' client of
              Some (Inl MultipleStatements, client) \<Rightarrow> True
            | _ \<Rightarrow> False)
       | _ \<Rightarrow> False)"

definition test_the_statement_guard_can_be_turned_off :: bool where
  "test_the_statement_guard_can_be_turned_off \<longleftrightarrow>
     with_client [R_SystemMsg ''ok''] (\<lambda>client.
       case execute reference_libs ''DELETE FROM users'' (set_statement_guard False client) of
         Some (Inr _, client) \<Rightarrow> True
       | _ \<Rightarrow> False)"

definition test_oversized_statements_are_refused_locally :: bool where
  "test_oversized_statements_are_refused_locally \<longleftrightarrow>
     with_client [] (\<lambda>client.
       let sql = ''SELECT * FROM t WHERE name = '' @ [CHR 0x27] @ replicate 2000 CHR ''x'' @ [CHR 0x27] in
       case execute reference_libs sql client of
         Some (Inl (RequestTooLarge _ _), client) \<Rightarrow> True
       | _ \<Rightarrow> False)"

definition test_a_hung_up_server_reports_a_closed_connection :: bool where
  "test_a_hung_up_server_reports_a_closed_connection \<longleftrightarrow>
     with_client [] (\<lambda>client.
       case query reference_libs ''SELECT 1'' client of
         Some (Inl ConnectionClosed, client) \<Rightarrow> True
       | _ \<Rightarrow> False)"

definition test_table_listings_are_parsed :: bool where
  "test_table_listings_are_parsed \<longleftrightarrow>
     with_client [R_QueryResult (QR_MessageOnly ''Tables: users, orders'')] (\<lambda>client.
       fst (tables reference_libs client) = Inr [''users'', ''orders''])"

definition test_outcomes_report_affected_rows :: bool where
  "test_outcomes_report_affected_rows \<longleftrightarrow>
     rows_affected (O_Insert 3 ''t'') = 3 \<and> rows_affected (O_Message ''ok'') = 0
     \<and> is_err (into_rows (O_Message ''ok''))"

lemma pure_client_tests:
  "test_database_lists_are_parsed_from_prose" "test_an_empty_list_parses_as_no_entries"
  "test_import_counts_are_parsed_from_prose" "test_error_responses_become_errors"
  "test_names_must_not_be_blank" "test_outcomes_report_affected_rows"
proof -
  have "digits 42 = ''42''" by (simp add: digit_strings)
  then have "parse_imported ''Imported 42 rows into table users'' = Inr 42"
    using parse_imported_digits [of 42 "''users''"] by simp
  moreover have "is_err (parse_imported ''Imported rows into table users'')" by code_simp
  ultimately show "test_import_counts_are_parsed_from_prose"
    by (simp add: test_import_counts_are_parsed_from_prose_def)
  show "test_outcomes_report_affected_rows"
    by (simp add: test_outcomes_report_affected_rows_def rows_affected_def into_rows_def is_err_def)
qed code_simp+

subsection \<open>Against the fake server\<close>

definition connected :: "response list \<Rightarrow> client" where
  "connected responses = \<lparr>c_stream = (spawn responses)\<lparr>nodelay := True\<rparr>, c_addr = ''127.0.0.1:0'',
     c_database = None, c_guard = True\<rparr>"

lemma with_client_eq: "with_client responses P = P (connected responses)"
  by (simp add: with_client_def client_connect_def builder_connect_eq default_builder_def resolve_def
      fake_net_def and_then_def map_err_def ok_or_def connected_def spawn_def)

lemma connected_simps [simp]:
  "c_guard (connected rs)" "c_database (connected rs) = None" "wr (c_stream (connected rs)) = []"
  "avail (rx (c_stream (connected (r # rs)))) =
     server_frame (cbor_encode (ser_response r)) @ avail (rx (spawn rs))"
  "rx (c_stream (connected [])) = []"
  by (simp_all add: connected_def) (simp add: spawn_def)

lemma fake_execute:
  assumes "plain_response r" "inspect sql = Some (Inr k)" "length sql \<le> 991"
  shows "\<exists>c'. execute reference_libs sql (connected [r]) =
    Some (and_then (check r) (execute_response reference_libs), c')"
proof -
  have g: "execute_guard (c_guard (connected [r])) sql = Some (Inr ())"
    using assms(2) by (simp add: execute_guard_def map_ok_def)
  have n: "length (cbor_encode (ser_command_with_args (cwa_db DC_ExecuteSQL [sql]))) \<le> 1024"
    using execute_request_fits [of sql] assms(3) by simp
  show ?thesis
    using execute_served [OF g served_next [OF assms(1) _ n connected_simps(4)]] by auto
qed

lemma fake_query:
  assumes "plain_response r" "inspect sql = Some (Inr k)" "length sql \<le> 991"
  shows "\<exists>c'. query reference_libs sql (connected [r]) =
    Some (and_then (and_then (check r) (execute_response reference_libs)) into_rows, c')"
proof -
  obtain c' where "execute reference_libs sql (connected [r]) =
      Some (and_then (check r) (execute_response reference_libs), c')"
    using fake_execute [OF assms] by blast
  then show ?thesis by (simp add: query_def try_then_def and_then_def split: sum.split)
qed

lemma inspect_samples:
  "inspect ''SELECT * FROM users'' = Some (Inr SK_Query)"
  "inspect (''INSERT INTO users VALUES (1, '' @ [CHR 0x27] @ ''a'' @ [CHR 0x27] @ '')'') = Some (Inr SK_Insert)"
  "inspect ''SELECT * FROM nope'' = Some (Inr SK_Query)" "inspect ''SELECT 1'' = Some (Inr SK_Query)"
  "inspect ''DELETE FROM users'' = Some (Inl (Unsupported ''DELETE statements''))"
  "inspect ''SELECT 1; SELECT 2'' = Some (Inl MultipleStatements)"
  by code_simp+

text \<open>A literal of any length at the end of a query.\<close>

lemma inspect_long_literal:
  assumes "CHR 0x27 \<notin> set t"
  shows "inspect (''SELECT * FROM t WHERE name = '' @ [CHR 0x27] @ t @ [CHR 0x27]) = Some (Inr SK_Query)"
proof -
  let ?p = "''SELECT * FROM t WHERE name = ''"
  have c: "closed_text ?p" by code_simp
  have lex: "sql_lex (?p @ CHR 0x27 # u @ CHR 0x27 # []) = sql_lex ?p @ [T_Literal]"
    if "CHR 0x27 \<notin> set u" for u
  proof -
    have "fresh_start ?p (CHR 0x27 # u @ CHR 0x27 # [])" by (simp add: fresh_start_def)
    from sql_lex_append [OF c this] show ?thesis
      using sql_lex_literal [OF that, of "[]"] by simp
  qed
  have "inspect (?p @ CHR 0x27 # t @ CHR 0x27 # []) = inspect (?p @ CHR 0x27 # [] @ CHR 0x27 # [])"
    using lex [OF assms] lex [of "[]"]
    by (simp add: inspect_eq more_statements_def leading_words_def first_statement_def)
  also have "\<dots> = Some (Inr SK_Query)" by code_simp
  finally show ?thesis by simp
qed

lemma plain_samples:
  "plain_response (R_SystemMsg ''Connected to database mydb'')" "plain_response test_select_response"
  "plain_response (R_QueryResult (QR_Insert 2 ''users''))"
  "plain_response (R_QueryExecutionError ''no such table'')"
  "plain_response (R_SystemErr ''Not connected to a database'')" "plain_response (R_SystemMsg ''ok'')"
  "plain_response (R_QueryResult (QR_MessageOnly ''Tables: users, orders''))"
  by (simp_all add: plain_response_def test_select_response_def ser_defs enc_text_def length_enc_head
      max_response_bytes_def ser_uint_def ser_sint_def forget_value_id_def)

lemma fake_server_tests_1:
  "test_queries_yield_typed_rows" "test_inserts_report_their_row_count"
  "test_query_execution_errors_surface_as_errors"
  "test_running_sql_before_selecting_a_database_is_reported_clearly"
proof -
  obtain c' where "query reference_libs ''SELECT * FROM users'' (connected [test_select_response]) =
      Some (and_then (and_then (check test_select_response) (execute_response reference_libs)) into_rows, c')"
    using fake_query [OF plain_samples(2) inspect_samples(1)] by auto
  then show "test_queries_yield_typed_rows"
    by (simp add: test_queries_yield_typed_rows_def with_client_eq test_select_response_def check_def
        execute_response_def into_outcome_def into_rows_def and_then_def rows_len_def rows_new_def
        rows_get_def slice_get_def row_get_def str_index_in_def index_of_def schema_new_def
        ok_or_def map_err_def int_from_value_defs int_from_value_def str_from_value_def)
  obtain c' where "execute reference_libs (''INSERT INTO users VALUES (1, '' @ [CHR 0x27] @ ''a'' @ [CHR 0x27] @ '')'')
      (connected [R_QueryResult (QR_Insert 2 ''users'')]) =
      Some (and_then (check (R_QueryResult (QR_Insert 2 ''users''))) (execute_response reference_libs), c')"
    using fake_execute [OF plain_samples(3) inspect_samples(2)] by auto
  then show "test_inserts_report_their_row_count"
    by (simp add: test_inserts_report_their_row_count_def with_client_eq check_def
        execute_response_def into_outcome_def and_then_def rows_affected_def)
  obtain c' where "query reference_libs ''SELECT * FROM nope'' (connected [R_QueryExecutionError ''no such table'']) =
      Some (and_then (and_then (check (R_QueryExecutionError ''no such table''))
        (execute_response reference_libs)) into_rows, c')"
    using fake_query [OF plain_samples(4) inspect_samples(3)] by auto
  then show "test_query_execution_errors_surface_as_errors"
    by (simp add: test_query_execution_errors_surface_as_errors_def with_client_eq check_def and_then_def)
  obtain c' where "query reference_libs ''SELECT 1'' (connected [R_SystemErr ''Not connected to a database'']) =
      Some (and_then (and_then (check (R_SystemErr ''Not connected to a database''))
        (execute_response reference_libs)) into_rows, c')"
    using fake_query [OF plain_samples(5) inspect_samples(4)] by auto
  moreover have "check (R_SystemErr ''Not connected to a database'') = Inl NotConnected" by code_simp
  ultimately show "test_running_sql_before_selecting_a_database_is_reported_clearly"
    by (simp add: test_running_sql_before_selecting_a_database_is_reported_clearly_def with_client_eq
        and_then_def)
qed

lemma fake_server_tests_2:
  "test_unsupported_statements_never_reach_the_wire" "test_oversized_statements_are_refused_locally"
  "test_a_hung_up_server_reports_a_closed_connection"
proof -
  show "test_unsupported_statements_never_reach_the_wire"
    by (simp add: test_unsupported_statements_never_reach_the_wire_def with_client_eq execute_def
        execute_guard_def inspect_samples map_ok_def try_then_def)
  let ?sql = "''SELECT * FROM t WHERE name = '' @ [CHR 0x27] @ replicate 2000 CHR ''x'' @ [CHR 0x27]"
  have "inspect ?sql = Some (Inr SK_Query)" by (rule inspect_long_literal) simp
  moreover have "\<not> length (cbor_encode (ser_command_with_args (cwa_db DC_ExecuteSQL [?sql]))) \<le> 1024"
    using execute_request_fits [of ?sql] by simp
  then have "\<exists>n. encode_request reference_libs (cwa_db DC_ExecuteSQL [?sql]) = Inl (RequestTooLarge n 1024)"
    by (simp add: encode_request_def and_then_def map_err_def max_request_bytes_def del: cbor_encode.simps)
  ultimately obtain n where "execute reference_libs ?sql (connected []) =
      Some (Inl (RequestTooLarge n 1024), connected [])"
    by (auto simp: execute_def execute_guard_def map_ok_def try_then_def db_eq round_trip_unsent and_then_def)
  then show "test_oversized_statements_are_refused_locally"
    by (simp add: test_oversized_statements_are_refused_locally_def with_client_eq Let_def)
  have "length (cbor_encode (ser_command_with_args (cwa_db DC_ExecuteSQL [''SELECT 1'']))) \<le> 1024"
    using execute_request_fits [of "''SELECT 1''"] by simp
  then have "fst (round_trip reference_libs (cwa_db DC_ExecuteSQL [''SELECT 1'']) (connected [])) =
      Inl ConnectionClosed"
    by (intro round_trip_closed [OF reference_to_vec]) simp_all
  then show "test_a_hung_up_server_reports_a_closed_connection"
    by (cases "round_trip reference_libs (cwa_db DC_ExecuteSQL [''SELECT 1'']) (connected [])")
      (simp add: test_a_hung_up_server_reports_a_closed_connection_def with_client_eq query_def
        execute_def execute_guard_def inspect_samples map_ok_def try_then_def db_def and_then_def)
qed

lemma fake_server_tests_3:
  "test_selecting_a_database_records_it_on_the_connection"
  "test_the_statement_guard_can_be_turned_off" "test_table_listings_are_parsed"
proof -
  have small: "length (cbor_encode (ser_command_with_args (cwa_system SC_Connect [''mydb'']))) \<le> 1024"
    "length (cbor_encode (ser_command_with_args (cwa_db DC_ShowTables []))) \<le> 1024"
    by (simp_all add: ser_command_with_args_def ser_list_def enc_text_def length_enc_head)
  have t: "trim ''mydb'' = ''mydb''" "trim ''DELETE FROM users'' \<noteq> []" by code_simp+
  obtain c' where "system reference_libs SC_Connect [''mydb'']
      (connected [R_SystemMsg ''Connected to database mydb'']) =
      (check (R_SystemMsg ''Connected to database mydb''), c')"
    using system_served [OF served_next [OF plain_samples(1) _ small(1) connected_simps(4)]] by auto
  with t show "test_selecting_a_database_records_it_on_the_connection"
    by (simp add: test_selecting_a_database_records_it_on_the_connection_def with_client_eq
        selected_database_def use_database_def require_name_def try_then_def check_def)
  let ?c = "set_statement_guard False (connected [R_SystemMsg ''ok''])"
  have c: "accepting (wr (c_stream ?c))" "avail (rx (c_stream ?c)) =
      server_frame (cbor_encode (ser_response (R_SystemMsg ''ok''))) @ avail (rx (spawn []))"
    by (simp_all add: set_statement_guard_def del: cbor_encode.simps ser_response.simps)
  have g: "execute_guard (c_guard ?c) ''DELETE FROM users'' = Some (Inr ())"
    using t(2) by (simp add: set_statement_guard_def execute_guard_def)
  have n: "length (cbor_encode (ser_command_with_args (cwa_db DC_ExecuteSQL [''DELETE FROM users'']))) \<le> 1024"
    using execute_request_fits [of "''DELETE FROM users''"] by simp
  obtain c' where "execute reference_libs ''DELETE FROM users'' ?c =
      Some (and_then (check (R_SystemMsg ''ok'')) (execute_response reference_libs), c')"
    using execute_served [OF g served_next [OF plain_samples(6) c(1) n c(2)]] by blast
  then show "test_the_statement_guard_can_be_turned_off"
    by (simp add: test_the_statement_guard_can_be_turned_off_def with_client_eq check_def
        execute_response_def and_then_def)
  have p: "parse_list ''Tables: users, orders'' ''Tables:'' = [''users'', ''orders'']" by code_simp
  obtain c' where "db reference_libs DC_ShowTables []
      (connected [R_QueryResult (QR_MessageOnly ''Tables: users, orders'')]) =
      (check (R_QueryResult (QR_MessageOnly ''Tables: users, orders'')), c')"
    using db_served [OF served_next [OF plain_samples(7) _ small(2) connected_simps(4)]] by auto
  with p show "test_table_listings_are_parsed"
    by (simp add: test_table_listings_are_parsed_def with_client_eq tables_def try_then_def check_def
        expect_message_def)
qed

subsection \<open>All of them\<close>

text \<open>The unit tests of the crate pass on the model, the one that reads a \<open>chrono\<close> date given what
  \<open>chrono\<close> documents of that date.\<close>

lemma unit_tests_pass:
  assumes "from_ymd_opt 2024 2 29 = Some date" and "to_string date = ''2024-02-29''"
  shows
  "test_supported_statements_are_classified \<and> test_a_trailing_semicolon_is_fine
   \<and> test_statements_the_server_cannot_run_are_rejected \<and> test_only_create_table_is_supported
   \<and> test_multiple_statements_are_rejected
   \<and> test_semicolons_inside_strings_do_not_split_statements
   \<and> test_semicolons_inside_comments_do_not_split_statements \<and> test_leading_comments_are_skipped
   \<and> test_parenthesized_queries_are_queries \<and> test_empty_input_is_rejected
   \<and> test_quoted_identifiers_are_not_keywords
   \<and> test_values_roundtrip_through_cbor \<and> test_data_types_roundtrip_through_cbor
   \<and> test_unit_variants_encode_as_bare_strings \<and> test_decimals_format_with_scale
   \<and> test_decimals_format_negatives \<and> test_dates_convert_from_epoch_days True
   \<and> test_dates_convert_from_epoch_days False \<and> test_dates_display_zero_padded True
   \<and> test_dates_display_zero_padded False \<and> test_numeric_accessors
   \<and> test_integers_widen \<and> test_integers_narrow_when_they_fit
   \<and> test_narrowing_out_of_range_is_an_error
   \<and> test_decimals_read_as_floats_but_not_integers
   \<and> test_strings_read_from_varchar_and_char \<and> test_type_mismatches_name_both_types
   \<and> test_null_needs_an_option \<and> test_values_pass_through
   \<and> test_dates_read_as_chrono from_ymd_opt to_string oc
   \<and> test_schema_encodes_as_a_bare_sequence_of_attributes \<and> test_schema_roundtrips_through_cbor
   \<and> test_constraints_roundtrip_through_cbor \<and> test_columns_resolve_by_exact_name
   \<and> test_qualified_columns_resolve_when_unambiguous
   \<and> test_ambiguous_qualified_columns_do_not_resolve
   \<and> test_commands_roundtrip_through_cbor \<and> test_responses_roundtrip_through_cbor
   \<and> test_select_results_roundtrip_through_cbor \<and> test_insert_results_roundtrip_through_cbor
   \<and> test_tuple_decodes_without_a_value_id
   \<and> test_rows_are_iterable \<and> test_columns_read_by_name_and_position
   \<and> test_indexing_yields_raw_values \<and> test_unknown_columns_are_reported_by_name
   \<and> test_out_of_range_columns_report_the_row_width \<and> test_conversion_errors_name_the_column
   \<and> test_display_renders_an_aligned_table True \<and> test_display_renders_an_aligned_table False
   \<and> test_display_handles_an_empty_result True \<and> test_display_handles_an_empty_result False
   \<and> test_display_uses_the_singular_for_one_row True
   \<and> test_display_uses_the_singular_for_one_row False
   \<and> test_a_captured_server_response_decodes \<and> test_requests_are_written_without_a_length_prefix
   \<and> test_oversized_requests_are_rejected_before_sending \<and> test_requests_at_the_limit_are_allowed
   \<and> test_responses_are_read_from_a_length_prefixed_frame
   \<and> test_select_responses_survive_a_frame_roundtrip
   \<and> test_a_truncated_body_reports_a_closed_connection
   \<and> test_a_closed_stream_reports_a_closed_connection \<and> test_an_empty_frame_reads_as_a_quiet_ok
   \<and> test_an_absurd_length_is_refused_before_allocating
   \<and> test_system_commands_encode_with_their_arguments
   \<and> test_database_lists_are_parsed_from_prose \<and> test_an_empty_list_parses_as_no_entries
   \<and> test_import_counts_are_parsed_from_prose \<and> test_error_responses_become_errors
   \<and> test_names_must_not_be_blank \<and> test_selecting_a_database_records_it_on_the_connection
   \<and> test_queries_yield_typed_rows \<and> test_inserts_report_their_row_count
   \<and> test_query_execution_errors_surface_as_errors
   \<and> test_running_sql_before_selecting_a_database_is_reported_clearly
   \<and> test_unsupported_statements_never_reach_the_wire \<and> test_the_statement_guard_can_be_turned_off
   \<and> test_oversized_statements_are_refused_locally
   \<and> test_a_hung_up_server_reports_a_closed_connection \<and> test_table_listings_are_parsed
   \<and> test_outcomes_report_affected_rows"
  by (intro conjI sql_tests value_tests convert_tests chrono_test [of from_ymd_opt date to_string, OF assms] schema_tests protocol_tests
      rows_tests codec_tests pure_client_tests fake_server_tests_1 fake_server_tests_2
      fake_server_tests_3)

end
