(* ===== verification/Spec2Isabelle.thy ===== *)
theory Spec2Isabelle
  imports Prelude Rust_Str Errors Calendar Values Dates Convert Schema Sql Protocol Cbor Wire Codec Rows
    Client Session Example Operations Server Network In_Step Requests Concurrent Schedules Capture Live Live_Runs
    Live_Tests Sql_Tests Doubles Data_Tests Client_Tests
begin

text \<open>
  A verification development for \<open>fing\<close>, a client library for the FairyDB server.

  The program. A \<open>Client\<close> (\<open>src/client.rs\<close>) holds a TCP stream and the session state that
  goes with it. An operation builds a command (\<open>src/protocol.rs\<close>), writes its CBOR encoding
  and reads one framed response (\<open>src/codec.rs\<close>), turns error responses into errors
  (\<open>src/error.rs\<close>) and the rest into its result. SQL passes a guard first (\<open>src/sql.rs\<close>)
  that lets through what the server can run. A result set (\<open>src/rows.rs\<close>) is a schema
  (\<open>src/schema.rs\<close>) and rows of values (\<open>src/value.rs\<close>) that are read by column as Rust
  types (\<open>src/convert.rs\<close>). \<open>examples/basic.rs\<close> uses all of it.

  The theories, in the order of their imports:

  \<^item> \<open>Prelude\<close>: \<open>Result\<close> as a sum, the integer types at their widths, checked \<open>i64\<close>
    arithmetic, decimal numerals.
  \<^item> \<open>Rust_Str\<close>: a \<open>String\<close> as its UTF-8 bytes and the string functions of the standard library
    the client calls.
  \<^item> \<open>Errors\<close>: \<open>Error\<close>, \<open>ConversionError\<close>, their \<open>Display\<close>, \<open>source\<close> and \<open>From<io::Error>\<close>.
  \<^item> \<open>Calendar\<close>: \<open>civil_from_days\<close> against the Gregorian calendar: correctness, round trip,
    successor, exactly the day numbers for which it is right, and exactly where it overflows.
  \<^item> \<open>Values\<close>: \<open>DataType\<close> and \<open>Value\<close>, accessors, \<open>Display\<close>, the derived order as an instance
    of \<open>linorder\<close>; decimals print exactly.
  \<^item> \<open>Dates\<close>: dates as text: within four-digit years they read back and sort as the values do.
  \<^item> \<open>Convert\<close>: \<open>FromValue\<close> as the locales \<open>value_reader\<close> and \<open>bare_reader\<close>, interpreted for
    each implementation, that of \<open>chrono::NaiveDate\<close> with its panic; the ten integer types against
    the machine integers.
  \<^item> \<open>Schema\<close>: the lookup of a column by full or unqualified name, characterised completely.
  \<^item> \<open>Sql\<close>: the scanner by byte index and, as its specification, a lexer with a verdict; the
    scanner computes the verdict, and the verdict is independent of case, quoted text and
    comments.
  \<^item> \<open>Protocol\<close>: commands, responses and their derived \<open>Debug\<close>.
  \<^item> \<open>Cbor\<close>: big-endian integers, and a reference CBOR encoder and decoder with its round trip.
  \<^item> \<open>Wire\<close>: the wire form of each type, what \<open>derive\<close> documents for its attributes and the
    hand-written impls of \<open>Schema\<close>; round trips, for every message short enough for its lengths to
    be announced, and the captured server response.
  \<^item> \<open>Codec\<close>: a TCP stream with its pieces and errors, \<open>read_exact\<close>, \<open>write_all\<close>, the three
    functions of \<open>codec.rs\<close>, their specifications \<open>parse_frame\<close> on the bytes delivered and
    \<open>write_run\<close> on the events of the writing side, the \<open>deliveries\<close> of a stream as runs of bytes
    between errors, and the locale \<open>wire_codec\<close> for what is relied on of the CBOR library.
  \<^item> \<open>Rows\<close>: \<open>Rows\<close>, \<open>Row\<close>, the iterator and \<open>Display\<close>; the locale \<open>column_index\<close> for the trait
    \<open>ColumnIndex\<close>, interpreted for its four implementations.
  \<^item> \<open>Client\<close>: every operation of \<open>client.rs\<close>, by explicit passing of the client; the locale
    \<open>client_operation\<close> for the contract they share, interpreted for each of them.
  \<^item> \<open>Session\<close>: sequences of calls with a network acting between them as an inductive relation,
    the invariants of the reachable clients, and requests and answers in step.
  \<^item> \<open>Example\<close>: the example program and its run against a populated server.
  \<^item> \<open>Operations\<close>: the operations as calls with results, the specification of a call without
    streams (\<open>spec_call\<close>) against any server, and the one normal form that the calls of a session
    have on every network (\<open>close\<close> and \<open>shutdown_server\<close>, which consume the client, are not calls).
  \<^item> \<open>Server\<close>: the thread of the fake server of the tests, interleaved step by step with the
    network and a client that waits for its answers. A \<open>read\<close> waits for bytes unless the connection
    is closed or has failed (\<open>broken\<close>). Invariants of the reachable states, progress, and what goes
    wrong when a request arrives in pieces.
  \<^item> \<open>Network\<close>: a session as a function of the runs of bytes that arrive and of what becomes of its
    writes, on every network and with nothing assumed of either (\<open>net_run\<close>); from it, a session over
    a stream that takes its requests and carries the server's answers computes \<open>spec_run\<close>; sessions
    until the server hangs up, and a read error inside an answer.
  \<^item> \<open>In_Step\<close>: the way back, from what a session returned to what the stream did: a session that
    reports no error of the stream has the results of \<open>spec_run\<close> for the responses on the wire.
  \<^item> \<open>Requests\<close>: the locale \<open>self_delimiting\<close> for encodings that say where they end, interpreted
    for the CBOR of the commands; the commands of a session can be read back from its bytes up to
    the first write that fails, and what such a write does to the next request.
  \<^item> \<open>Concurrent\<close>: the calls of \<open>Operations\<close> and the thread of \<open>Server\<close> in one system, step by step:
    with requests delivered in one piece, writes that go through and answers the client can decode
    (\<open>fit\<close>), on every schedule the results are those of the specification, followed by those of a
    closed connection once the server is gone, and with a script that is long enough the calls can
    all return.
  \<^item> \<open>Schedules\<close>: under the same conditions, no deadlock: a state of that system in which nothing
    changes any more but by a failure has every call returned, with the results of the specification
    if nothing has failed; and no schedule goes on for ever.
  \<^item> \<open>Capture\<close>: \<open>tests/capture_fixture.rs\<close>: its hand-built requests decode to the commands they
    stand for, and the fixture is the body of the server's last answer.
  \<^item> \<open>Live\<close>: the programs in the documentation of the crate (\<open>src/lib.rs\<close>) and the tests of
    \<open>tests/live.rs\<close> over the client; \<open>Live_Runs\<close>: their statements pass the guard with any table
    name, and each call with the answer to come; \<open>Live_Tests\<close>: which answers make each of them pass.
  \<^item> \<open>Doubles\<close>: the \<open>f64\<close> arithmetic of the unit tests on the binary64 format.
  \<^item> \<open>Sql_Tests\<close>, \<open>Data_Tests\<close>, \<open>Client_Tests\<close>: the unit tests of the crate as definitions that
    evaluate their assertions on the model, and the proof that they pass.

  Conventions. A fallible function returns a sum with the error on the left. A function that can
  panic returns an \<open>option\<close> with \<open>None\<close> for the panic. Machine integers are words; \<open>civil_from_days\<close>
  is written on \<open>int\<close> with the wrap-around or the panic of each operation, chosen by the flag
  \<open>oc\<close> for overflow checks. \<open>usize\<close> has 64 bits; lengths of what is in memory are \<open>nat\<close>.

  Refinement. \<open>read_response\<close> refines \<open>parse_frame\<close>, a function of the bytes delivered, and
  \<open>write_all\<close> refines \<open>write_run\<close>, a function of the number of bytes and the events to come; the
  scanner refines the verdict on tokens; a session of calls refines \<open>net_run\<close> on every network,
  and \<open>spec_run\<close>, which has no stream, no bytes and no order of effects but the commands and the
  server's responses, when the server answers; the client and the server's thread interleaved
  refine \<open>spec_run\<close> with the script as the server. A stream
  is \<open>accepting\<close> when every coming write takes at least one byte or is interrupted, and it
  \<open>takes\<close> some requests when the writes of these go through, whatever comes after; the
  properties of answered requests hold for such streams and every cutting of the answers.

  Parameters. \<open>serde_cbor\<close> (with the tables behind \<open>Debug\<close> of a string) is \<open>libs\<close>; \<open>chrono\<close> and
  \<open>f64\<close> arithmetic are arguments of the definitions that use them, the latter \<open>f64_arith\<close> in the tests; resolving and dialling an
  address is \<open>net\<close>. Properties that need something of \<open>libs\<close> say so in their hypotheses, and
  \<open>reference_libs\<close>, built from \<open>Cbor\<close> and \<open>Wire\<close>, is the concrete instance that meets them.

  Loops and fuel. The loops of the scanner, of \<open>read_exact\<close> and of \<open>write_all\<close> are functions with
  a termination proof: every turn consumes a byte or an event of the stream. Only the reference
  decoder has fuel, twice the number of bytes plus one; every item takes at least one byte and
  two units, and the round trip shows that this is enough.

  Not modelled: the module declarations and re-exports of \<open>lib.rs\<close>; the FairyDB
  server, which is not in the repository (the live tests run against the script of its answers);
  in \<open>Concurrent\<close>, requests the network delivers in pieces (\<open>Server\<close>
  has them) and writes that fail while the server is there (\<open>Network\<close> has them); the forms of input
  \<open>serde\<close> accepts that no peer sends; a read of the client that blocks for ever; failures of
  setting a timeout other than for a zero duration; the closing of the stream when a client is dropped;
  allocation failure and format widths beyond what \<open>format!\<close> supports.
\<close>

end
